(* ===== verification/Prelude.thy ===== *)
theory Prelude
  imports Main "HOL-Library.Word" "HOL-Library.Sublist" "HOL-Library.Multiset"
begin

unbundle bit_operations_syntax

text \<open>
  What every component shares: names for Go's machine types, the parts of Go's
  \<^verbatim>\<open>strings\<close> and \<^verbatim>\<open>strconv\<close> packages that the sources call, and the generic lemmas on
  lists, sums and words that the component proofs rest on.

  A Go \<^verbatim>\<open>string\<close> is a sequence of bytes, and so is a HOL \<^typ>\<open>string\<close> (a \<^typ>\<open>char\<close> is
  one byte), so the two are identified, and so is \<^verbatim>\<open>[]byte\<close>.  A \<^verbatim>\<open>uint64\<close> is a
  \<^typ>\<open>64 word\<close>.  Counters and lengths that only count the elements of a list in memory are
  natural numbers.  An error is the left summand of a sum.  \<^verbatim>\<open>strings.ToLower\<close>,
  \<^verbatim>\<open>strings.ToUpper\<close> and \<^verbatim>\<open>strings.TrimSpace\<close> are modelled on ASCII bytes; a
  non-ASCII letter of an identifier is left as it is.
\<close>

type_synonym bytes = string
type_synonym u64 = "64 word"

text \<open>Rules that unfold a component's own operations, and the case splits of its results.\<close>

named_theorems go_ops
named_theorems go_splits

lemmas [go_splits] = sum.splits option.splits prod.splits if_splits

subsection \<open>Bytes\<close>

definition byteVal :: "char \<Rightarrow> nat" where
  "byteVal c = of_char c"

lemma byteVal_less [simp]: "byteVal c < 256"
  by (simp add: byteVal_def)

lemma char_of_byteVal [simp]: "char_of (byteVal c) = c"
  by (simp add: byteVal_def)

lemma byteVal_char_of [simp]: "n < 256 \<Longrightarrow> byteVal (char_of n) = n"
  by (simp add: byteVal_def)

lemma byteVal_inject [simp]: "byteVal c = byteVal d \<longleftrightarrow> c = d"
  by (metis char_of_byteVal)

subsection \<open>The strings package\<close>

definition toLowerByte :: "char \<Rightarrow> char" where
  "toLowerByte c = (if 65 \<le> byteVal c \<and> byteVal c \<le> 90 then char_of (byteVal c + 32) else c)"

definition toUpperByte :: "char \<Rightarrow> char" where
  "toUpperByte c = (if 97 \<le> byteVal c \<and> byteVal c \<le> 122 then char_of (byteVal c - 32) else c)"

definition toLower :: "string \<Rightarrow> string" where
  "toLower s = map toLowerByte s"

definition toUpper :: "string \<Rightarrow> string" where
  "toUpper s = map toUpperByte s"

definition equalFold :: "string \<Rightarrow> string \<Rightarrow> bool" where
  "equalFold s t \<longleftrightarrow> toLower s = toLower t"

definition hasPrefix :: "string \<Rightarrow> string \<Rightarrow> bool" where
  "hasPrefix s p \<longleftrightarrow> take (length p) s = p"

definition hasSuffix :: "string \<Rightarrow> string \<Rightarrow> bool" where
  "hasSuffix s p \<longleftrightarrow> length p \<le> length s \<and> drop (length s - length p) s = p"

definition trimPrefix :: "string \<Rightarrow> string \<Rightarrow> string" where
  "trimPrefix s p = (if hasPrefix s p then drop (length p) s else s)"

definition trimSuffix :: "string \<Rightarrow> string \<Rightarrow> string" where
  "trimSuffix s p = (if hasSuffix s p then take (length s - length p) s else s)"

fun strContains :: "string \<Rightarrow> string \<Rightarrow> bool" where
  "strContains [] p = (p = [])"
| "strContains (c # s) p = (hasPrefix (c # s) p \<or> strContains s p)"

definition isSpace :: "char \<Rightarrow> bool" where
  "isSpace c \<longleftrightarrow> byteVal c = 32 \<or> (9 \<le> byteVal c \<and> byteVal c \<le> 13)"

definition trimRight :: "(char \<Rightarrow> bool) \<Rightarrow> string \<Rightarrow> string" where
  "trimRight p s = rev (dropWhile p (rev s))"

definition trimSpace :: "string \<Rightarrow> string" where
  "trimSpace s = trimRight isSpace (dropWhile isSpace s)"

fun splitOn :: "char \<Rightarrow> string \<Rightarrow> string list" where
  "splitOn sep [] = [[]]"
| "splitOn sep (c # s) =
     (if c = sep then [] # splitOn sep s
      else (case splitOn sep s of [] \<Rightarrow> [[c]] | p # ps \<Rightarrow> (c # p) # ps))"

fun joinWith :: "string \<Rightarrow> string list \<Rightarrow> string" where
  "joinWith sep [] = []"
| "joinWith sep [p] = p"
| "joinWith sep (p # q # ps) = p @ sep @ joinWith sep (q # ps)"

text \<open>\<^verbatim>\<open>strings.Cut\<close> around the first occurrence of a one-byte separator.\<close>

fun cutOn :: "char \<Rightarrow> string \<Rightarrow> (string \<times> string) option" where
  "cutOn sep [] = None"
| "cutOn sep (c # s) =
     (if c = sep then Some ([], s)
      else map_option (\<lambda>(a, b). (c # a, b)) (cutOn sep s))"

text \<open>\<^verbatim>\<open>strings.ReplaceAll\<close> of a one-byte pattern.\<close>

definition replaceByte :: "char \<Rightarrow> string \<Rightarrow> string \<Rightarrow> string" where
  "replaceByte c new s = concat (map (\<lambda>d. if d = c then new else [d]) s)"

lemma toLowerByte_idem [simp]: "toLowerByte (toLowerByte c) = toLowerByte c"
  by (simp add: toLowerByte_def)

lemma toLower_idem [simp]: "toLower (toLower s) = toLower s"
  by (simp add: toLower_def)

lemma hasPrefix_append [simp]: "hasPrefix (p @ s) p"
  by (simp add: hasPrefix_def)

lemma hasPrefixE: "hasPrefix s p \<Longrightarrow> \<exists>t. s = p @ t"
  by (metis append_take_drop_id hasPrefix_def)

lemma splitOn_not_Nil [simp]: "splitOn sep s \<noteq> []"
  by (cases s) (auto split: list.splits)

lemma splitOn_no_sep: "sep \<notin> set s \<Longrightarrow> splitOn sep s = [s]"
  by (induction s) auto

lemma splitOn_append_sep: "sep \<notin> set p \<Longrightarrow> splitOn sep (p @ sep # s) = p # splitOn sep s"
  by (induction p) auto

lemma splitOn_lines:
  "\<forall>l \<in> set ls. sep \<notin> set l \<Longrightarrow> splitOn sep (concat (map (\<lambda>l. l @ [sep]) ls)) = ls @ [[]]"
  by (induction ls) (auto simp: splitOn_append_sep)

lemma joinWith_Cons:
  "joinWith sep (p # ps) = p @ (if ps = [] then [] else sep @ joinWith sep ps)"
  by (cases ps) auto

text \<open>Splitting undoes joining when no part holds the separator.\<close>

lemma splitOn_joinWith:
  "ps \<noteq> [] \<Longrightarrow> (\<forall>p \<in> set ps. sep \<notin> set p) \<Longrightarrow> splitOn sep (joinWith [sep] ps) = ps"
proof (induction ps rule: induct_list012)
  case (2 p)
  then show ?case by (simp add: splitOn_no_sep)
next
  case (3 p q ps)
  then show ?case by (simp add: splitOn_append_sep)
qed simp

lemma joinWith_inject:
  assumes "length ps = length qs"
    and "\<forall>p \<in> set ps. sep \<notin> set p" and "\<forall>q \<in> set qs. sep \<notin> set q"
    and "joinWith [sep] ps = joinWith [sep] qs"
  shows "ps = qs"
proof (cases "ps = []")
  case True
  with assms(1) show ?thesis by simp
next
  case False
  with assms(1) have "qs \<noteq> []" by auto
  with False assms(2,3,4) show ?thesis by (metis splitOn_joinWith)
qed

subsection \<open>The strconv package: decimal numbers\<close>

definition digitChar :: "nat \<Rightarrow> char" where
  "digitChar n = char_of (48 + n)"

definition isDigit :: "char \<Rightarrow> bool" where
  "isDigit c \<longleftrightarrow> 48 \<le> byteVal c \<and> byteVal c \<le> 57"

definition digitVal :: "char \<Rightarrow> nat" where
  "digitVal c = byteVal c - 48"

fun showNat :: "nat \<Rightarrow> string" where
  "showNat n = (if n < 10 then [digitChar n] else showNat (n div 10) @ [digitChar (n mod 10)])"

declare showNat.simps [simp del]

definition showInt :: "int \<Rightarrow> string" where
  "showInt i = (if i < 0 then CHR ''-'' # showNat (nat (- i)) else showNat (nat i))"

text \<open>\<^verbatim>\<open>FormatUint(x, 10)\<close> and \<^verbatim>\<open>FormatInt(x, 10)\<close>.\<close>

definition formatUint :: "u64 \<Rightarrow> string" where
  "formatUint w = showNat (unat w)"

definition formatInt :: "u64 \<Rightarrow> string" where
  "formatInt w = showInt (sint w)"

fun decVal :: "nat \<Rightarrow> string \<Rightarrow> nat option" where
  "decVal acc [] = Some acc"
| "decVal acc (c # s) = (if isDigit c then decVal (acc * 10 + digitVal c) s else None)"

definition parseDec :: "string \<Rightarrow> nat option" where
  "parseDec s = (if s = [] then None else decVal 0 s)"

datatype num_error = ErrSyntax | ErrRange

text \<open>\<^verbatim>\<open>ParseUint(s, 10, 64)\<close> and \<^verbatim>\<open>ParseInt(s, 10, 64)\<close>.\<close>

definition parseUint64 :: "string \<Rightarrow> num_error + u64" where
  "parseUint64 s = (case parseDec s of
      None \<Rightarrow> Inl ErrSyntax
    | Some n \<Rightarrow> if n < 2 ^ 64 then Inr (of_nat n) else Inl ErrRange)"

text \<open>The bound compared as an integer, so that the equation evaluates.\<close>

lemma parseUint64_code [code]:
  "parseUint64 s = (case parseDec s of
      None \<Rightarrow> Inl ErrSyntax
    | Some n \<Rightarrow> if int n < 18446744073709551616 then Inr (word_of_int (int n)) else Inl ErrRange)"
proof -
  have "n < 2 ^ 64 \<longleftrightarrow> int n < 18446744073709551616" for n :: nat by simp
  then show ?thesis by (simp add: parseUint64_def split: option.split)
qed

definition parseInt64 :: "string \<Rightarrow> num_error + u64" where
  "parseInt64 s =
     (let neg = (s \<noteq> [] \<and> hd s = CHR ''-'');
          t = (if s \<noteq> [] \<and> (hd s = CHR ''-'' \<or> hd s = CHR ''+'') then tl s else s)
      in case parseDec t of
           None \<Rightarrow> Inl ErrSyntax
         | Some n \<Rightarrow>
             if neg then (if n \<le> 2 ^ 63 then Inr (- of_nat n) else Inl ErrRange)
             else if n < 2 ^ 63 then Inr (of_nat n) else Inl ErrRange)"

lemma isDigit_digitChar [simp]: "n < 10 \<Longrightarrow> isDigit (digitChar n)"
  by (simp add: isDigit_def digitChar_def)

lemma digitVal_digitChar [simp]: "n < 10 \<Longrightarrow> digitVal (digitChar n) = n"
  by (simp add: digitVal_def digitChar_def)

lemma showNat_not_Nil [simp]: "showNat n \<noteq> []"
  by (subst showNat.simps) simp

lemma showNat_digits: "\<forall>c \<in> set (showNat n). isDigit c"
proof (induction n rule: showNat.induct)
  case (1 n)
  then show ?case by (cases "n < 10") (auto simp: showNat.simps [of n])
qed

lemma decVal_append:
  "decVal acc (s @ t) = (case decVal acc s of None \<Rightarrow> None | Some a \<Rightarrow> decVal a t)"
  by (induction s arbitrary: acc) auto

lemma decVal_showNat: "decVal 0 (showNat n) = Some n"
proof (induction n rule: showNat.induct)
  case (1 n)
  show ?case
  proof (cases "n < 10")
    case True
    then show ?thesis by (simp add: showNat.simps [of n])
  next
    case False
    with 1 have "decVal 0 (showNat (n div 10)) = Some (n div 10)" by simp
    with False show ?thesis by (simp add: showNat.simps [of n] decVal_append)
  qed
qed

lemma parseDec_showNat [simp]: "parseDec (showNat n) = Some n"
  by (simp add: parseDec_def decVal_showNat)

lemma showNat_inject [simp]: "showNat m = showNat n \<longleftrightarrow> m = n"
  by (metis decVal_showNat option.inject)

lemma showNat_head: "isDigit (hd (showNat n))"
  using showNat_digits showNat_not_Nil hd_in_set by blast

lemma showNat_head_not_minus [simp]: "hd (showNat n) \<noteq> CHR ''-''"
  using showNat_head [of n] by (auto simp: isDigit_def byteVal_def)

lemma showNat_head_not_plus [simp]: "hd (showNat n) \<noteq> CHR ''+''"
  using showNat_head [of n] by (auto simp: isDigit_def byteVal_def)

lemma parseUint64_formatUint [simp]: "parseUint64 (formatUint w) = Inr w"
  using unsigned_less [of w] by (simp add: parseUint64_def formatUint_def)

lemma formatUint_inject [simp]: "formatUint v = formatUint w \<longleftrightarrow> v = w"
  by (metis parseUint64_formatUint sum.inject(2))

lemma parseInt64_formatInt [simp]: "parseInt64 (formatInt w) = Inr w"
proof (cases "sint w < 0")
  case True
  have "- (2 ^ 63) \<le> sint w" using sint_ge [of w] by simp
  with True have le: "nat (- sint w) \<le> 2 ^ 63" by simp
  have "- of_nat (nat (- sint w)) = (of_int (sint w) :: u64)"
    using True by (simp add: of_nat_nat)
  with True le show ?thesis
    by (simp add: formatInt_def showInt_def parseInt64_def)
next
  case False
  have "sint w < 2 ^ 63" using sint_lt [of w] by simp
  with False have lt: "nat (sint w) < 2 ^ 63" by (simp add: nat_less_iff)
  with False show ?thesis
    by (simp add: formatInt_def showInt_def parseInt64_def)
qed

subsection \<open>Lists\<close>

text \<open>A Go loop that stops at the first error, over the elements of a slice.\<close>

fun mapResult :: "('a \<Rightarrow> 'e + 'b) \<Rightarrow> 'a list \<Rightarrow> 'e + 'b list" where
  "mapResult f [] = Inr []"
| "mapResult f (x # xs) =
     (case f x of
        Inl e \<Rightarrow> Inl e
      | Inr y \<Rightarrow> (case mapResult f xs of Inl e \<Rightarrow> Inl e | Inr ys \<Rightarrow> Inr (y # ys)))"

lemma mapResult_length: "mapResult f xs = Inr ys \<Longrightarrow> length ys = length xs"
  by (induction xs arbitrary: ys) (auto split: sum.splits)

lemma mapResult_nth:
  "mapResult f xs = Inr ys \<Longrightarrow> i < length xs \<Longrightarrow> f (xs ! i) = Inr (ys ! i)"
  by (induction xs arbitrary: ys i) (auto split: sum.splits simp: nth_Cons')

lemma mapResult_Inr_iff:
  "(\<exists>ys. mapResult f xs = Inr ys) \<longleftrightarrow> (\<forall>x \<in> set xs. \<exists>y. f x = Inr y)"
  by (induction xs) (auto split: sum.splits)

lemma mapResult_total: "(\<And>x. x \<in> set xs \<Longrightarrow> f x = Inr (g x)) \<Longrightarrow> mapResult f xs = Inr (map g xs)"
  by (induction xs) auto

lemma mapResult_set:
  "mapResult f xs = Inr ys \<Longrightarrow> y \<in> set ys \<Longrightarrow> \<exists>x \<in> set xs. f x = Inr y"
  by (induction xs arbitrary: ys) (auto split: sum.splits)

text \<open>The index of the first element that satisfies a predicate, as a search loop returns it.\<close>

fun indexWhere :: "('a \<Rightarrow> bool) \<Rightarrow> 'a list \<Rightarrow> nat option" where
  "indexWhere p [] = None"
| "indexWhere p (x # xs) = (if p x then Some 0 else map_option Suc (indexWhere p xs))"

lemma indexWhere_Some:
  "indexWhere p xs = Some i \<Longrightarrow> i < length xs \<and> p (xs ! i) \<and> (\<forall>j < i. \<not> p (xs ! j))"
  by (induction xs arbitrary: i) (auto split: if_splits simp: nth_Cons' gr0_conv_Suc)

lemma indexWhere_None: "indexWhere p xs = None \<longleftrightarrow> (\<forall>x \<in> set xs. \<not> p x)"
  by (induction xs) auto

end
