(* ===== verification/Config.thy ===== *)
theory Config
  imports Prelude
begin

text \<open>
  \<^verbatim>\<open>internal/config\<close>: the part of a stream's configuration that the pipeline is compiled from.
  The \<^verbatim>\<open>rename\<close> map is its list of entries, so that a walk over it in Go's unspecified order is
  a walk over some such list.
\<close>

record mapping =
  mp_Key :: "string list"
  mp_Include :: "string list"
  mp_Exclude :: "string list"
  mp_Rename :: "(string \<times> string) list"
  mp_OnZeroDate :: string

end
