(* ===== verification/GoTime.thy ===== *)
theory GoTime
  imports Prelude
begin

text \<open>
  What the sources use of Go's \<^verbatim>\<open>time\<close> package.  A \<^verbatim>\<open>time.Time\<close> is the number of
  nanoseconds since the Unix epoch, so two readings of the same instant are equal whatever
  location they carry.  A \<^verbatim>\<open>time.Location\<close> is its zone lookup: from an instant in seconds to
  the offset in force and the bounds of the period in which it is in force; the zone database
  itself is data, so a location is an argument wherever the sources take one.
\<close>

type_synonym time = int
type_synonym location = "int \<Rightarrow> int \<times> int \<times> int"

definition zeroTime :: time where
  "zeroTime = -62135596800 * 1000000000"

definition isZeroTime :: "time \<Rightarrow> bool" where
  "isZeroTime t \<longleftrightarrow> t = zeroTime"

definition unixMilli :: "time \<Rightarrow> int" where
  "unixMilli t = t div 1000000"

definition ofUnixMilli :: "int \<Rightarrow> time" where
  "ofUnixMilli ms = ms * 1000000"

definition ofUnix :: "int \<Rightarrow> time" where
  "ofUnix s = s * 1000000000"

definition fixedZone :: "int \<Rightarrow> location" where
  "fixedZone off = (\<lambda>_. (off, -(2 ^ 63), 2 ^ 63 - 1))"

definition UTC :: location where
  "UTC = fixedZone 0"

lemma unixMilli_ofUnixMilli [simp]: "unixMilli (ofUnixMilli ms) = ms"
  by (simp add: unixMilli_def ofUnixMilli_def)

lemma unixMilli_mono: "s \<le> t \<Longrightarrow> unixMilli s \<le> unixMilli t"
  by (simp add: unixMilli_def zdiv_mono1)

subsection \<open>The calendar\<close>

definition isLeap :: "int \<Rightarrow> bool" where
  "isLeap y \<longleftrightarrow> y mod 4 = 0 \<and> (y mod 100 \<noteq> 0 \<or> y mod 400 = 0)"

definition daysIn :: "int \<Rightarrow> int \<Rightarrow> int" where
  "daysIn m y =
     (if m = 2 then (if isLeap y then 29 else 28)
      else if m = 4 \<or> m = 6 \<or> m = 9 \<or> m = 11 then 30 else 31)"

text \<open>Days since the epoch of a date of the proleptic Gregorian calendar, and back.\<close>

definition daysFromCivil :: "int \<Rightarrow> int \<Rightarrow> int \<Rightarrow> int" where
  "daysFromCivil y m d =
     (let y' = (if m \<le> 2 then y - 1 else y); yoe = y' mod 400; mp = (m + 9) mod 12;
          doy = (153 * mp + 2) div 5 + d - 1;
          doe = yoe * 365 + yoe div 4 - yoe div 100 + doy
      in (y' div 400) * 146097 + doe - 719468)"

definition civilFromDays :: "int \<Rightarrow> int \<times> int \<times> int" where
  "civilFromDays z0 =
     (let z = z0 + 719468; doe = z mod 146097;
          yoe = (doe - doe div 1460 + doe div 36524 - doe div 146096) div 365;
          doy = doe - (365 * yoe + yoe div 4 - yoe div 100);
          mp = (5 * doy + 2) div 153;
          d = doy - (153 * mp + 2) div 5 + 1;
          m = (if mp < 10 then mp + 3 else mp - 9)
      in (yoe + (z div 146097) * 400 + (if m \<le> 2 then 1 else 0), m, d))"

text \<open>\<^verbatim>\<open>time.Date\<close>: the wall clock reading taken in a location.\<close>

definition dateIn ::
    "location \<Rightarrow> int \<Rightarrow> int \<Rightarrow> int \<Rightarrow> int \<Rightarrow> int \<Rightarrow> int \<Rightarrow> int \<Rightarrow> time" where
  "dateIn loc y mo d h mi s ns =
     (let unix = daysFromCivil y mo d * 86400 + h * 3600 + mi * 60 + s;
          (offset, start, end) = loc unix;
          utc = unix - offset;
          offset' = (if offset \<noteq> 0 \<and> (utc < start \<or> end \<le> utc) then fst (loc utc) else offset)
      in (unix - (if offset \<noteq> 0 then offset' else 0)) * 1000000000 + ns)"

subsection \<open>Formatting\<close>

definition padNat :: "nat \<Rightarrow> nat \<Rightarrow> string" where
  "padNat width n = replicate (width - length (showNat n)) CHR ''0'' @ showNat n"

definition padInt :: "nat \<Rightarrow> int \<Rightarrow> string" where
  "padInt width i = (if i < 0 then CHR ''-'' # padNat width (nat (- i)) else padNat width (nat i))"

text \<open>The digits of an integer, for evaluation without unary numbers.\<close>

function intDigits :: "int \<Rightarrow> string" where
  "intDigits i = (if i < 10 then [digitChar (nat i)] else intDigits (i div 10) @ [digitChar (nat (i mod 10))])"
  by pat_completeness auto
termination by (relation "measure nat") auto

declare intDigits.simps [simp del]

lemma intDigits_showNat: "0 \<le> i \<Longrightarrow> intDigits i = showNat (nat i)"
proof (induction i rule: intDigits.induct)
  case (1 i)
  show ?case
  proof (cases "i < 10")
    case True
    then show ?thesis using 1(2) by (subst intDigits.simps, subst showNat.simps) simp
  next
    case False
    have "nat (i div 10) = nat i div 10" "nat (i mod 10) = nat i mod 10"
      using 1(2) by (simp_all add: nat_div_distrib nat_mod_distrib)
    moreover from this 1 False have "intDigits (i div 10) = showNat (nat i div 10)" by simp
    moreover have "\<not> nat i < 10" using False by simp
    ultimately show ?thesis using False by (subst intDigits.simps, subst showNat.simps) (simp only: if_False)
  qed
qed

lemma padInt_code [code]:
  "padInt width i = (if i < 0 then CHR ''-'' # replicate (width - length (intDigits (- i))) (CHR ''0'') @ intDigits (- i)
     else replicate (width - length (intDigits i)) (CHR ''0'') @ intDigits i)"
  by (simp add: padInt_def padNat_def intDigits_showNat)

definition formatFraction :: "int \<Rightarrow> string" where
  "formatFraction ns =
     (if ns = 0 then []
      else CHR ''.'' # trimRight (\<lambda>c. c = CHR ''0'') (padNat 9 (nat ns)))"

text \<open>\<^verbatim>\<open>t.UTC().Format\<close> with the layouts \<^verbatim>\<open>RFC3339\<close> and \<^verbatim>\<open>RFC3339Nano\<close>.\<close>

definition formatSeconds :: "time \<Rightarrow> string" where
  "formatSeconds t =
     (let secs = t div 1000000000; sod = secs mod 86400;
          (y, m, d) = civilFromDays (secs div 86400)
      in padInt 4 y @ ''-'' @ padInt 2 m @ ''-'' @ padInt 2 d @ ''T'' @
         padInt 2 (sod div 3600) @ '':'' @ padInt 2 (sod div 60 mod 60) @ '':'' @
         padInt 2 (sod mod 60))"

definition formatRFC3339 :: "time \<Rightarrow> string" where
  "formatRFC3339 t = formatSeconds t @ ''Z''"

definition formatRFC3339Nano :: "time \<Rightarrow> string" where
  "formatRFC3339Nano t = formatSeconds t @ formatFraction (t mod 1000000000) @ ''Z''"

subsection \<open>Parsing\<close>

text \<open>The elements of the layouts that the sources parse with.\<close>

datatype chunk = Lit char | LongYear | ZeroMonth | ZeroDay | StdHour | ZeroMinute | ZeroSecond
  | FracSecond9

record clock =
  c_year :: int
  c_month :: int
  c_day :: int
  c_hour :: int
  c_min :: int
  c_sec :: int
  c_nsec :: int

definition newClock :: clock where
  "newClock = \<lparr>c_year = 0, c_month = 1, c_day = 1, c_hour = 0, c_min = 0, c_sec = 0, c_nsec = 0\<rparr>"

definition getnum :: "bool \<Rightarrow> string \<Rightarrow> (int \<times> string) option" where
  "getnum fixed s = (case s of
      [] \<Rightarrow> None
    | a # r \<Rightarrow>
       (if \<not> isDigit a then None
        else (case r of
            b # r' \<Rightarrow> if isDigit b then Some (int (digitVal a * 10 + digitVal b), r')
                      else if fixed then None else Some (int (digitVal a), r)
          | [] \<Rightarrow> if fixed then None else Some (int (digitVal a), r))))"

definition getBounded :: "bool \<Rightarrow> int \<Rightarrow> int \<Rightarrow> string \<Rightarrow> (int \<times> string) option" where
  "getBounded fixed lo hi s = (case getnum fixed s of
      None \<Rightarrow> None
    | Some (n, r) \<Rightarrow> if lo \<le> n \<and> n \<le> hi then Some (n, r) else None)"

text \<open>A fraction: a period or comma and at least one digit; digits beyond the ninth are dropped.\<close>

definition startsFraction :: "string \<Rightarrow> bool" where
  "startsFraction s = (case s of
      a # b # _ \<Rightarrow> (a = CHR ''.'' \<or> a = CHR '','') \<and> isDigit b
    | _ \<Rightarrow> False)"

definition takeFraction :: "string \<Rightarrow> int \<times> string" where
  "takeFraction s =
     (let ds = takeWhile isDigit (tl s); kept = take 9 ds
      in (int (the (decVal 0 kept)) * 10 ^ (9 - length kept), dropWhile isDigit (tl s)))"

definition parseChunk :: "chunk \<Rightarrow> bool \<Rightarrow> clock \<times> string \<Rightarrow> (clock \<times> string) option" where
  "parseChunk ch fracNext st = (case st of (c, s) \<Rightarrow> (case ch of
      Lit x \<Rightarrow>
        (if x = CHR '' '' then
           (if s \<noteq> [] \<and> hd s \<noteq> CHR '' '' then None
            else Some (c, dropWhile (\<lambda>y. y = CHR '' '') s))
         else (case s of [] \<Rightarrow> None | y # r \<Rightarrow> if y = x then Some (c, r) else None))
    | LongYear \<Rightarrow>
        (if 4 \<le> length s \<and> list_all isDigit (take 4 s)
         then Some (c\<lparr>c_year := int (the (decVal 0 (take 4 s)))\<rparr>, drop 4 s) else None)
    | ZeroMonth \<Rightarrow> map_option (\<lambda>(n, r). (c\<lparr>c_month := n\<rparr>, r)) (getBounded True 1 12 s)
    | ZeroDay \<Rightarrow> map_option (\<lambda>(n, r). (c\<lparr>c_day := n\<rparr>, r)) (getnum True s)
    | StdHour \<Rightarrow> map_option (\<lambda>(n, r). (c\<lparr>c_hour := n\<rparr>, r)) (getBounded False 0 23 s)
    | ZeroMinute \<Rightarrow> map_option (\<lambda>(n, r). (c\<lparr>c_min := n\<rparr>, r)) (getBounded True 0 59 s)
    | ZeroSecond \<Rightarrow>
        (case getBounded True 0 59 s of
           None \<Rightarrow> None
         | Some (n, r) \<Rightarrow>
             if \<not> fracNext \<and> startsFraction r
             then (let (ns, r') = takeFraction r in Some (c\<lparr>c_sec := n, c_nsec := ns\<rparr>, r'))
             else Some (c\<lparr>c_sec := n\<rparr>, r))
    | FracSecond9 \<Rightarrow>
        (if startsFraction s then (let (ns, r) = takeFraction s in Some (c\<lparr>c_nsec := ns\<rparr>, r))
         else Some (c, s))))"

fun parseChunks :: "chunk list \<Rightarrow> clock \<times> string \<Rightarrow> (clock \<times> string) option" where
  "parseChunks [] st = Some st"
| "parseChunks (ch # chs) st =
     (case parseChunk ch (chs \<noteq> [] \<and> hd chs = FracSecond9) st of
        None \<Rightarrow> None
      | Some st' \<Rightarrow> parseChunks chs st')"

text \<open>\<^verbatim>\<open>time.ParseInLocation\<close>; the only outcome the sources read of a failure is that it failed.\<close>

definition parseInLocation :: "chunk list \<Rightarrow> string \<Rightarrow> location \<Rightarrow> time option" where
  "parseInLocation layout s loc = (case parseChunks layout (newClock, s) of
      None \<Rightarrow> None
    | Some (c, rest) \<Rightarrow>
        if rest \<noteq> [] \<or> c_day c < 1 \<or> daysIn (c_month c) (c_year c) < c_day c then None
        else Some (dateIn loc (c_year c) (c_month c) (c_day c) (c_hour c) (c_min c) (c_sec c)
                     (c_nsec c)))"

definition dateLayout :: "chunk list" where
  "dateLayout = [LongYear, Lit CHR ''-'', ZeroMonth, Lit CHR ''-'', ZeroDay]"

definition clockLayout :: "chunk list" where
  "clockLayout = [StdHour, Lit CHR '':'', ZeroMinute, Lit CHR '':'', ZeroSecond]"

end
