(* ===== verification/Settings.thy ===== *)
theory Settings
  imports Config GoTime "HOL-Library.Char_ord" "HOL-Library.List_Lexorder"
begin

text \<open>
  \<^verbatim>\<open>internal/config\<close>: sizes and durations as they are written in a configuration (value.go), and the
  configuration itself (config.go): expansion of environment references, defaults, and validation.

  Decoding YAML, looking up an environment variable, the table of time zones, and parsing a float and
  a duration are arguments.  A pointer field of the file is an option.  The map of streams is its
  list of entries; a walk over the \<^verbatim>\<open>rename\<close> map is a walk over its list.  A message becomes a
  constructor of \<open>config_problem\<close> that carries what the message names.
\<close>

subsection \<open>Sizes (value.go)\<close>

datatype size_error = SizeEmpty | SizeNoNumber string | SizeMalformed string | SizeOverflows string

definition byteUnits :: "(string \<times> u64) list" where
  "byteUnits = [(''KIB'', 1024), (''MIB'', 1048576), (''GIB'', 1073741824), (''TIB'', 1099511627776),
     (''KB'', 1000), (''MB'', 1000000), (''GB'', 1000000000), (''TB'', 1000000000000), (''B'', 1)]"

definition ParseByteSize :: "string \<Rightarrow> size_error + u64" where
  "ParseByteSize raw =
     (let s = toUpper (replaceByte (CHR '' '') [] (trimSpace raw))
      in if s = [] then Inl SizeEmpty
         else
           (let (factor, t) = (case find (\<lambda>(ending, _). hasSuffix s ending) byteUnits of
                    None \<Rightarrow> (1, s)
                  | Some (ending, f) \<Rightarrow> (f, trimSuffix s ending))
            in if t = [] then Inl (SizeNoNumber raw)
               else (case parseUint64 t of
                   Inl _ \<Rightarrow> Inl (SizeMalformed raw)
                 | Inr n \<Rightarrow>
                     if n \<noteq> 0 \<and> (- 1) div n < factor then Inl (SizeOverflows raw)
                     else Inr (n * factor))))"

definition binaryUnits :: "(string \<times> u64) list" where
  "binaryUnits = [(''TiB'', 1099511627776), (''GiB'', 1073741824), (''MiB'', 1048576), (''KiB'', 1024)]"

definition byteSizeString :: "u64 \<Rightarrow> string" where
  "byteSizeString n = (case find (\<lambda>(_, factor). factor \<le> n \<and> n mod factor = 0) binaryUnits of
      Some (ending, factor) \<Rightarrow> formatUint (n div factor) @ ending
    | None \<Rightarrow> formatUint n @ ''B'')"

definition unmarshalByteSize :: "string option \<Rightarrow> u64 option \<Rightarrow> size_error option + u64" where
  "unmarshalByteSize asText asNumber = (case asText of
      Some raw \<Rightarrow> map_sum Some id (ParseByteSize raw)
    | None \<Rightarrow> (case asNumber of None \<Rightarrow> Inl None | Some n \<Rightarrow> Inr n))"

subsection \<open>Durations\<close>

datatype duration_error =
    DurationEmpty | DurationUnitless string | DurationInvalid string | DurationNegative string

definition ParseDuration ::
    "(string \<Rightarrow> bool) \<Rightarrow> (string \<Rightarrow> int option) \<Rightarrow> string \<Rightarrow> duration_error + int" where
  "ParseDuration isFloat parse raw =
     (let s = trimSpace raw
      in if s = [] then Inl DurationEmpty
         else if isFloat s then Inl (DurationUnitless raw)
         else (case parse s of
             None \<Rightarrow> Inl (DurationInvalid raw)
           | Some d \<Rightarrow> if d < 0 then Inl (DurationNegative raw) else Inr d))"

subsection \<open>The configuration (config.go)\<close>

definition MaxStreamNameLen :: nat where
  "MaxStreamNameLen = 48"

definition SinkElasticsearch :: string where
  "SinkElasticsearch = ''elasticsearch''"

definition SinkClickHouse :: string where
  "SinkClickHouse = ''clickhouse''"

definition MetricsDisabled :: string where
  "MetricsDisabled = ''off''"

record source_config =
  sc_DSN :: string
  sc_ServerID :: "32 word"
  sc_SnapshotDSN :: string
  sc_TimeZone :: string
  sc_HeartbeatPeriod :: int
  sc_ReadTimeout :: int
  sc_TLS :: string

record store_config =
  st_DSN :: string
  st_Table :: string

record runtime_config =
  rc_BufferSizeRaw :: "int option"
  rc_ShutdownGrace :: int
  rc_MetricsAddr :: string
  rc_AssumedRowBytes :: u64
  rc_BufferSize :: int

record snapshot_config =
  sn_EnabledRaw :: "bool option"
  sn_ChunkSizeRaw :: "int option"
  sn_MaxRateRowsPerSecRaw :: "int option"
  sn_Enabled :: bool
  sn_ChunkSize :: int
  sn_MaxRateRowsPerSec :: int

record batch_config =
  bc_MaxRowsRaw :: "int option"
  bc_MaxBytesRaw :: "u64 option"
  bc_FlushInterval :: int
  bc_MaxRows :: int
  bc_MaxBytes :: u64

record sink_config =
  sk_Type :: string
  sk_WorkersRaw :: "int option"
  sk_Workers :: int
  sk_Addresses :: "string list"
  sk_Index :: string
  sk_Alias :: string
  sk_DSN :: string
  sk_Table :: string

record stream_config =
  sm_Name :: string
  sm_Table :: string
  sm_Snapshot :: snapshot_config
  sm_Batch :: batch_config
  sm_Sink :: sink_config
  sm_Mapping :: mapping

record config =
  cf_Source :: source_config
  cf_Checkpoint :: store_config
  cf_Runtime :: runtime_config
  cf_Streams :: "(string \<times> stream_config) list"

datatype config_problem =
    SourceDSNRequired
  | SourceServerID
  | TimeZoneUnknown string
  | CheckpointDSNRequired
  | BufferSizeTooSmall int
  | NoStreams
  | EmptyStreamName
  | StreamNameTooLong string nat
  | StreamNameCharacters string
  | TableNotQualified string string
  | MaxRowsTooSmall string
  | MaxBytesZero string
  | WorkersTooFew string
  | ChunkTooSmall string
  | AddressesRequired string
  | IndexRequiredFor string
  | DSNNotApplicable string
  | TableNotApplicable string
  | DSNRequired string
  | TableRequired string
  | AddressesNotApplicable string
  | IndexNotApplicable string
  | AliasNotApplicable string
  | SinkTypeRequired string
  | SinkTypeUnknown string string
  | IncludeAndExcludeSet string
  | RenameEmptyTarget string string
  | RenameClash string string string string
  | RenameOntoIncluded string string string
  | OnZeroDateUnknown string string

datatype config_error =
    EnvUnset "string list"
  | ConfigUnreadable string
  | StreamNoBody string
  | ConfigProblems "config_problem list"

subsection \<open>Environment references\<close>

definition isNameStart :: "char \<Rightarrow> bool" where
  "isNameStart c \<longleftrightarrow> (65 \<le> byteVal c \<and> byteVal c \<le> 90) \<or> (97 \<le> byteVal c \<and> byteVal c \<le> 122) \<or> c = CHR ''_''"

definition isNameChar :: "char \<Rightarrow> bool" where
  "isNameChar c \<longleftrightarrow> isNameStart c \<or> isDigit c"

text \<open>
  \<^verbatim>\<open>envRefPattern\<close> at the head of the text: the name, the default if there is one, and what follows.
\<close>

definition matchEnvRef :: "bytes \<Rightarrow> (string \<times> string option \<times> bytes) option" where
  "matchEnvRef s =
     (if \<not> hasPrefix s [CHR 0x24, CHR 0x7B] then None
      else
        (let r = drop 2 s; name = takeWhile isNameChar r; t = dropWhile isNameChar r
         in if name = [] \<or> \<not> isNameStart (hd name) then None
            else if hasPrefix t [CHR 0x7D] then Some (name, None, drop 1 t)
            else if hasPrefix t '':-'' then
              (let d = takeWhile (\<lambda>c. c \<noteq> CHR 0x7D) (drop 2 t); u = dropWhile (\<lambda>c. c \<noteq> CHR 0x7D) (drop 2 t)
               in if u = [] then None else Some (name, Some d, drop 1 u))
            else None))"

lemma matchEnvRef_shorter: "matchEnvRef s = Some (name, d, rest) \<Longrightarrow> length rest < length s"
proof -
  assume m: "matchEnvRef s = Some (name, d, rest)"
  define r where "r = drop 2 s"
  have two: "length s = length r + 2"
  proof -
    from m have "hasPrefix s [CHR 0x24, CHR 0x7B]" by (auto simp: matchEnvRef_def split: if_splits)
    then show ?thesis by (auto simp: r_def dest!: hasPrefixE)
  qed
  have "length (dropWhile p xs) \<le> length xs" for p and xs :: string by (rule length_dropWhile_le)
  then have "length rest \<le> length r"
    using m unfolding r_def
    by (auto simp: matchEnvRef_def Let_def split: if_splits)
      (metis (no_types, lifting) diff_le_self dual_order.trans length_drop length_dropWhile_le)+
  with two show ?thesis by simp
qed

text \<open>The text with every reference replaced, and the names that are unset, in order.\<close>

function expandRefs :: "(string \<Rightarrow> string option) \<Rightarrow> bytes \<Rightarrow> bytes \<times> string list" where
  "expandRefs lookup s = (case s of
      [] \<Rightarrow> ([], [])
    | c # r \<Rightarrow> (case matchEnvRef s of
          None \<Rightarrow> (case expandRefs lookup r of (out, missing) \<Rightarrow> (c # out, missing))
        | Some (name, d, rest) \<Rightarrow> (case expandRefs lookup rest of (out, missing) \<Rightarrow>
            (case lookup name of
               Some v \<Rightarrow> (v @ out, missing)
             | None \<Rightarrow> (case d of
                   Some v \<Rightarrow> (v @ out, missing)
                 | None \<Rightarrow> (take (length s - length rest) s @ out, name # missing))))))"
  by pat_completeness auto
termination
  by (relation "measure (\<lambda>(_, s). length s)") (auto dest: matchEnvRef_shorter)

declare expandRefs.simps [simp del]

definition dedupe :: "string list \<Rightarrow> string list" where
  "dedupe names = rev (fold (\<lambda>v out. if v \<in> set out then out else v # out) names [])"

definition expandEnv :: "(string \<Rightarrow> string option) \<Rightarrow> bytes \<Rightarrow> config_error + bytes" where
  "expandEnv lookup raw = (case expandRefs lookup raw of (out, missing) \<Rightarrow>
     if missing \<noteq> [] then Inl (EnvUnset (dedupe (sort missing))) else Inr out)"

subsection \<open>Defaults\<close>

definition intOr :: "int option \<Rightarrow> int \<Rightarrow> int" where
  "intOr raw def = (case raw of None \<Rightarrow> def | Some n \<Rightarrow> n)"

definition setString :: "string \<Rightarrow> string \<Rightarrow> string" where
  "setString field def = (if field = [] then def else field)"

definition setDuration :: "int \<Rightarrow> int \<Rightarrow> int" where
  "setDuration field def = (if field = 0 then def else field)"

definition streamDefaults :: "stream_config \<Rightarrow> stream_config" where
  "streamDefaults s = s\<lparr>
     sm_Batch := (sm_Batch s)\<lparr>bc_MaxRows := intOr (bc_MaxRowsRaw (sm_Batch s)) 1000,
       bc_MaxBytes := (case bc_MaxBytesRaw (sm_Batch s) of None \<Rightarrow> 5242880 | Some n \<Rightarrow> n),
       bc_FlushInterval := setDuration (bc_FlushInterval (sm_Batch s)) (500 * 1000000)\<rparr>,
     sm_Sink := (sm_Sink s)\<lparr>sk_Workers := intOr (sk_WorkersRaw (sm_Sink s)) 4\<rparr>,
     sm_Snapshot := (sm_Snapshot s)\<lparr>sn_Enabled := (sn_EnabledRaw (sm_Snapshot s) \<noteq> Some False),
       sn_ChunkSize := intOr (sn_ChunkSizeRaw (sm_Snapshot s)) 5000,
       sn_MaxRateRowsPerSec := intOr (sn_MaxRateRowsPerSecRaw (sm_Snapshot s)) 20000\<rparr>,
     sm_Mapping := (sm_Mapping s)\<lparr>mp_OnZeroDate :=
       (if mp_OnZeroDate (sm_Mapping s) = [] then ''null'' else mp_OnZeroDate (sm_Mapping s))\<rparr>\<rparr>"

definition applyDefaults :: "config \<Rightarrow> config" where
  "applyDefaults c = c\<lparr>
     cf_Source := (cf_Source c)\<lparr>sc_TimeZone := setString (sc_TimeZone (cf_Source c)) ''UTC'',
       sc_TLS := setString (sc_TLS (cf_Source c)) ''preferred'',
       sc_HeartbeatPeriod := setDuration (sc_HeartbeatPeriod (cf_Source c)) (5 * 1000000000),
       sc_ReadTimeout := setDuration (sc_ReadTimeout (cf_Source c)) (90 * 1000000000)\<rparr>,
     cf_Checkpoint := (cf_Checkpoint c)\<lparr>st_Table := setString (st_Table (cf_Checkpoint c)) ''changeflow_checkpoints''\<rparr>,
     cf_Runtime := (cf_Runtime c)\<lparr>rc_BufferSize := intOr (rc_BufferSizeRaw (cf_Runtime c)) 8192,
       rc_ShutdownGrace := setDuration (rc_ShutdownGrace (cf_Runtime c)) (30 * 1000000000),
       rc_MetricsAddr := setString (rc_MetricsAddr (cf_Runtime c)) ''127.0.0.1:9187'',
       rc_AssumedRowBytes := (if rc_AssumedRowBytes (cf_Runtime c) = 0 then 1024 else rc_AssumedRowBytes (cf_Runtime c))\<rparr>,
     cf_Streams := map (apsnd streamDefaults) (cf_Streams c)\<rparr>"

subsection \<open>Validation\<close>

definition problemIf :: "bool \<Rightarrow> config_problem \<Rightarrow> config_problem list" where
  "problemIf b p = (if b then [p] else [])"

definition streamSchema :: "stream_config \<Rightarrow> string" where
  "streamSchema s = (case cutOn (CHR ''.'') (sm_Table s) of None \<Rightarrow> [] | Some (a, _) \<Rightarrow> a)"

definition streamTable :: "stream_config \<Rightarrow> string" where
  "streamTable s = (case cutOn (CHR ''.'') (sm_Table s) of None \<Rightarrow> [] | Some (_, b) \<Rightarrow> b)"

definition validateSink :: "string \<Rightarrow> sink_config \<Rightarrow> config_problem list" where
  "validateSink path k =
     (if sk_Type k = SinkElasticsearch then
        problemIf (sk_Addresses k = []) (AddressesRequired path) @
        problemIf (sk_Index k = []) (IndexRequiredFor path) @
        problemIf (sk_DSN k \<noteq> []) (DSNNotApplicable path) @
        problemIf (sk_Table k \<noteq> []) (TableNotApplicable path)
      else if sk_Type k = SinkClickHouse then
        problemIf (sk_DSN k = []) (DSNRequired path) @
        problemIf (sk_Table k = []) (TableRequired path) @
        problemIf (sk_Addresses k \<noteq> []) (AddressesNotApplicable path) @
        problemIf (sk_Index k \<noteq> []) (IndexNotApplicable path) @
        problemIf (sk_Alias k \<noteq> []) (AliasNotApplicable path)
      else if sk_Type k = [] then [SinkTypeRequired path]
      else [SinkTypeUnknown path (sk_Type k)])"

text \<open>The loop over the renames: the problems found and the targets taken so far.\<close>

fun renameLoop ::
    "string \<Rightarrow> (string \<times> string) list \<Rightarrow> (string \<times> string) list \<Rightarrow>
     config_problem list \<times> (string \<times> string) list" where
  "renameLoop path targets [] = ([], targets)"
| "renameLoop path targets ((from, to) # rest) =
     (if to = [] then apfst ((#) (RenameEmptyTarget path from)) (renameLoop path targets rest)
      else (case map_of targets to of
          Some other \<Rightarrow> apfst ((#) (RenameClash path other from to)) (renameLoop path targets rest)
        | None \<Rightarrow> renameLoop path ((to, from) # targets) rest))"

definition validateMapping :: "string \<Rightarrow> mapping \<Rightarrow> config_problem list" where
  "validateMapping path m =
     problemIf (mp_Include m \<noteq> [] \<and> mp_Exclude m \<noteq> []) (IncludeAndExcludeSet path) @
     (case renameLoop path [] (mp_Rename m) of (problems, targets) \<Rightarrow>
        problems @ concat (map (\<lambda>col. case map_of targets col of
            None \<Rightarrow> []
          | Some from \<Rightarrow> problemIf (from \<noteq> col) (RenameOntoIncluded path from col)) (mp_Include m)))"

definition validateStream :: "string \<Rightarrow> stream_config \<Rightarrow> config_problem list" where
  "validateStream name s =
     (let path = ''streams.'' @ name
      in (if name = [] then [EmptyStreamName]
          else if MaxStreamNameLen < length name then [StreamNameTooLong path (length name)]
          else if \<not> list_all isNameChar name then [StreamNameCharacters path]
          else []) @
         problemIf (streamSchema s = [] \<or> streamTable s = []) (TableNotQualified path (sm_Table s)) @
         problemIf (bc_MaxRows (sm_Batch s) < 1) (MaxRowsTooSmall path) @
         problemIf (bc_MaxBytes (sm_Batch s) = 0) (MaxBytesZero path) @
         problemIf (sk_Workers (sm_Sink s) < 1) (WorkersTooFew path) @
         problemIf (sn_ChunkSize (sm_Snapshot s) < 1) (ChunkTooSmall path) @
         validateSink (path @ ''.sink'') (sm_Sink s) @
         validateMapping (path @ ''.mapping'') (sm_Mapping s) @
         problemIf (mp_OnZeroDate (sm_Mapping s) \<notin> {''null'', ''error'', ''epoch''})
           (OnZeroDateUnknown path (mp_OnZeroDate (sm_Mapping s))))"

definition StreamNames :: "config \<Rightarrow> string list" where
  "StreamNames c = sort (map fst (cf_Streams c))"

definition Validate :: "(string \<Rightarrow> bool) \<Rightarrow> config \<Rightarrow> config_problem list" where
  "Validate knownZone c =
     problemIf (sc_DSN (cf_Source c) = []) SourceDSNRequired @
     problemIf (sc_ServerID (cf_Source c) = 0) SourceServerID @
     problemIf (\<not> knownZone (sc_TimeZone (cf_Source c))) (TimeZoneUnknown (sc_TimeZone (cf_Source c))) @
     problemIf (st_DSN (cf_Checkpoint c) = []) CheckpointDSNRequired @
     problemIf (rc_BufferSize (cf_Runtime c) < 1) (BufferSizeTooSmall (rc_BufferSize (cf_Runtime c))) @
     problemIf (cf_Streams c = []) NoStreams @
     concat (map (\<lambda>name. case map_of (cf_Streams c) name of
         None \<Rightarrow> [] | Some s \<Rightarrow> validateStream name s) (StreamNames c))"

text \<open>
  Decoding gives the settings of the file and the streams by name, some of which may have no body.
\<close>

definition Parse ::
    "(string \<Rightarrow> string option) \<Rightarrow> (bytes \<Rightarrow> string + config \<times> (string \<times> stream_config option) list) \<Rightarrow>
     (string \<Rightarrow> bool) \<Rightarrow> bytes \<Rightarrow> config_error + config" where
  "Parse lookup decode knownZone raw = (case expandEnv lookup raw of
      Inl e \<Rightarrow> Inl e
    | Inr expanded \<Rightarrow> (case decode expanded of
          Inl e \<Rightarrow> Inl (ConfigUnreadable e)
        | Inr (c, streams) \<Rightarrow>
            (case mapResult (\<lambda>(name, body). case body of
                 None \<Rightarrow> Inl (StreamNoBody name)
               | Some s \<Rightarrow> Inr (name, s\<lparr>sm_Name := name\<rparr>)) streams of
               Inl e \<Rightarrow> Inl e
             | Inr named \<Rightarrow>
                 (let c' = applyDefaults (c\<lparr>cf_Streams := named\<rparr>); problems = Validate knownZone c'
                  in if problems = [] then Inr c' else Inl (ConfigProblems problems)))))"

subsection \<open>Reading the configuration\<close>

definition MetricsEnabled :: "runtime_config \<Rightarrow> bool" where
  "MetricsEnabled r \<longleftrightarrow> rc_MetricsAddr r \<noteq> [] \<and> rc_MetricsAddr r \<noteq> MetricsDisabled"

definition configStream :: "config \<Rightarrow> string \<Rightarrow> string list + stream_config" where
  "configStream c name = (case map_of (cf_Streams c) name of
      Some s \<Rightarrow> Inr s | None \<Rightarrow> Inl (StreamNames c))"

definition EstimatedMemory :: "config \<Rightarrow> u64" where
  "EstimatedMemory c = fold (\<lambda>(_, s) total.
     total + of_int (rc_BufferSize (cf_Runtime c)) * rc_AssumedRowBytes (cf_Runtime c) +
     of_int (sk_Workers (sm_Sink s)) * bc_MaxBytes (sm_Batch s)) (cf_Streams c) 0"

definition CheckMemoryLimit :: "config \<Rightarrow> int \<Rightarrow> (string \<times> string) option" where
  "CheckMemoryLimit c limit =
     (if limit \<le> 0 \<or> limit = 2 ^ 63 - 1 then None
      else
        (let need = EstimatedMemory c
         in if of_int limit < need then Some (byteSizeString need, byteSizeString (of_int limit)) else None))"

subsection \<open>A size is read back from its text\<close>

lemma digits_plain:
  assumes "\<forall>c \<in> set ds. isDigit c"
  shows "toUpper ds = ds" and "CHR '' '' \<notin> set ds" and "\<forall>c \<in> set ds. \<not> isSpace c"
proof -
  have "toUpperByte c = c" "c \<noteq> CHR '' ''" "\<not> isSpace c" if "isDigit c" for c
    using that by (auto simp: isDigit_def toUpperByte_def isSpace_def byteVal_def)
  with assms show "toUpper ds = ds" "CHR '' '' \<notin> set ds" "\<forall>c \<in> set ds. \<not> isSpace c"
    by (auto simp: toUpper_def intro: map_idI)
qed

lemma replaceByte_absent: "c \<notin> set s \<Longrightarrow> replaceByte c t s = s"
  unfolding replaceByte_def by (induction s) auto

lemma find_SomeD: "find P xs = Some x \<Longrightarrow> x \<in> set xs \<and> P x"
  by (induction xs) (auto split: if_splits)

lemma dropWhile_none: "\<forall>c \<in> set xs. \<not> p c \<Longrightarrow> dropWhile p xs = xs"
  by (cases xs) auto

lemma trimSpace_plain: "\<forall>c \<in> set s. \<not> isSpace c \<Longrightarrow> trimSpace s = s"
  using dropWhile_none [of s isSpace] dropWhile_none [of "rev s" isSpace]
  by (simp add: trimSpace_def trimRight_def)

lemma hasSuffix_append: "hasSuffix (s @ u) u"
  by (simp add: hasSuffix_def)

lemma trimSuffix_append [simp]: "trimSuffix (s @ u) u = s"
  by (simp add: trimSuffix_def hasSuffix_append)

lemma hasSuffix_same_length: "length u = length v \<Longrightarrow> hasSuffix (s @ u) v \<longleftrightarrow> u = v"
  by (auto simp: hasSuffix_def)

lemma hasSuffixE:
  assumes "hasSuffix s v"
  obtains t where "s = t @ v"
  using assms append_take_drop_id [of "length s - length v" s] by (metis hasSuffix_def)

lemma no_longer_unit:
  assumes "isDigit d" and "v \<in> {''IB'', ''KB'', ''MB'', ''GB'', ''TB''}"
  shows "\<not> hasSuffix (ds @ [d, CHR ''B'']) v"
  using assms by (auto simp: hasSuffix_same_length isDigit_def byteVal_def)

lemma hasSuffix_tail: "hasSuffix s (u @ v) \<Longrightarrow> hasSuffix s v"
  by (erule hasSuffixE) (simp add: hasSuffix_append flip: append_assoc)

lemma find_unit:
  assumes "\<forall>c \<in> set ds. isDigit c" and "ds \<noteq> []" and "(unit', factor) \<in> set binaryUnits \<or> (unit', factor) = (''B'', 1)"
  shows "find (\<lambda>(ending, _). hasSuffix (ds @ toUpper unit') ending) byteUnits = Some (toUpper unit', factor)"
proof -
  have up: "toUpper ''TiB'' = ''TIB''" "toUpper ''GiB'' = ''GIB''" "toUpper ''MiB'' = ''MIB''" "toUpper ''KiB'' = ''KIB''"
    "toUpper ''B'' = ''B''" by code_simp+
  consider "unit' = ''B''" "factor = 1" | "(unit', factor) \<in> set binaryUnits" using assms(3) by auto
  then show ?thesis
  proof cases
    case 1
    obtain es d where d: "ds = es @ [d]" "isDigit d" using assms(1,2) by (cases ds rule: rev_cases) auto
    have b: "ds @ ''B'' = es @ [d, CHR ''B'']" using d by simp
    have no: "\<not> hasSuffix (ds @ ''B'') v" if "v \<in> {''IB'', ''KB'', ''MB'', ''GB'', ''TB''}" for v
      unfolding b using no_longer_unit [OF d(2) that] .
    have "\<not> hasSuffix (ds @ ''B'') (k # ''IB'')" for k
      using no [of "''IB''"] hasSuffix_tail [of _ "[k]" "''IB''"] by auto
    with no 1 up(5) show ?thesis by (simp add: byteUnits_def hasSuffix_append)
  next
    case 2
    then consider "unit' = ''TiB''" "factor = 1099511627776" | "unit' = ''GiB''" "factor = 1073741824"
      | "unit' = ''MiB''" "factor = 1048576" | "unit' = ''KiB''" "factor = 1024"
      by (auto simp only: binaryUnits_def list.set insert_iff empty_iff prod.inject)
    then show ?thesis
      by cases (simp_all add: byteUnits_def up hasSuffix_same_length)
  qed
qed

lemma quotient_fits:
  fixes n f :: u64
  assumes "f \<le> n" and "n mod f = 0" and "f \<noteq> 0"
  shows "n div f \<noteq> 0" and "\<not> (- 1) div (n div f) < f" and "n div f * f = n"
proof -
  have "unat n mod unat f = 0" using assms(2) by (metis unat_0 unat_mod)
  then have exact: "unat (n div f) * unat f = unat n" by (simp add: unat_div mod_eq_0_iff_dvd)
  show mult: "n div f * f = n"
    using assms(2) by (metis div_mult_mod_eq add.right_neutral)
  show nz: "n div f \<noteq> 0" using mult assms(1,3) by auto
  have "unat f * unat (n div f) \<le> 2 ^ 64 - 1"
    using exact unsigned_less [of n, where ?'a = nat] by (simp add: mult.commute)
  then have "unat f \<le> (2 ^ 64 - 1) div unat (n div f)"
    using nz by (simp add: less_eq_div_iff_mult_less_eq unat_gt_0)
  moreover have "unat (- 1 :: u64) = 2 ^ 64 - 1" by (simp add: unsigned_minus_1_eq_mask mask_eq_exp_minus_1)
  ultimately have "unat f \<le> unat ((- 1) div (n div f))" by (simp only: unat_div)
  then show "\<not> (- 1) div (n div f) < f" by (simp add: word_less_nat_alt)
qed

lemma ParseByteSize_unit:
  assumes "(unit', factor) \<in> set binaryUnits \<or> (unit', factor) = (''B'', 1)"
    and "m \<noteq> 0 \<longrightarrow> \<not> (- 1) div m < factor"
  shows "ParseByteSize (formatUint m @ unit') = Inr (m * factor)"
proof -
  let ?ds = "formatUint m"
  have ds: "\<forall>c \<in> set ?ds. isDigit c" "?ds \<noteq> []" using showNat_digits by (auto simp: formatUint_def)
  have unit': "CHR '' '' \<notin> set unit'" "\<forall>c \<in> set unit'. \<not> isSpace c"
    using assms(1) by (auto simp: binaryUnits_def isSpace_def byteVal_def)
  have "toUpper (replaceByte (CHR '' '') [] (trimSpace (?ds @ unit'))) = ?ds @ toUpper unit'"
    using digits_plain [OF ds(1)] unit'
    by (simp add: trimSpace_plain replaceByte_absent toUpper_def ball_Un)
  with find_unit [OF ds assms(1)] assms(2) ds(2) show ?thesis
    by (auto simp: ParseByteSize_def Let_def)
qed

subsection \<open>What validation ensures\<close>

lemma problemIf_Nil [simp]: "problemIf b p = [] \<longleftrightarrow> \<not> b"
  by (simp add: problemIf_def)

lemma Validate_stream:
  assumes "Validate knownZone c = []" and "(name, s) \<in> set (cf_Streams c)" and "distinct (map fst (cf_Streams c))"
  shows "validateStream name s = []"
proof -
  have "map_of (cf_Streams c) name = Some s" using assms(2,3) by simp
  moreover have "name \<in> set (StreamNames c)" using assms(2) by (force simp: StreamNames_def)
  ultimately show ?thesis using assms(1) by (force simp: Validate_def)
qed

lemma validateStream_facts:
  assumes "validateStream name s = []"
  shows "name \<noteq> []" and "length name \<le> MaxStreamNameLen" and "streamSchema s \<noteq> []" and "streamTable s \<noteq> []"
    and "1 \<le> bc_MaxRows (sm_Batch s)" and "bc_MaxBytes (sm_Batch s) \<noteq> 0" and "1 \<le> sk_Workers (sm_Sink s)"
    and "1 \<le> sn_ChunkSize (sm_Snapshot s)" and "validateSink (''streams.'' @ name @ ''.sink'') (sm_Sink s) = []"
  using assms by (auto simp: validateStream_def Let_def split: if_splits)

lemma validateSink_facts:
  assumes "validateSink path k = []"
  shows "sk_Type k = SinkElasticsearch \<and> sk_Addresses k \<noteq> [] \<and> sk_Index k \<noteq> [] \<or>
     sk_Type k = SinkClickHouse \<and> sk_DSN k \<noteq> [] \<and> sk_Table k \<noteq> []"
  using assms by (auto simp: validateSink_def split: if_splits)

subsection \<open>Properties\<close>

text \<open>
  C40: The text of a size is read back as the same number of bytes, for every size: the largest binary
  unit that divides it is found again in the text, the test for overflow lets it pass, and the product
  does not wrap around.
\<close>

theorem ParseByteSize_roundtrip: "ParseByteSize (byteSizeString n) = Inr n"
proof (cases "find (\<lambda>(_, factor). factor \<le> n \<and> n mod factor = 0) binaryUnits")
  case None
  have "\<not> (- 1) div n < 1" if "n \<noteq> 0"
  proof -
    have "unat n \<le> unat (- 1 :: u64)" using word_n1_ge [of n] by (simp add: word_le_nat_alt)
    with that have "0 < unat (- 1 :: u64) div unat n" by (simp add: div_greater_zero_iff unat_gt_0)
    then show ?thesis by (simp add: word_less_nat_alt unat_div)
  qed
  with None show ?thesis
    using ParseByteSize_unit [of "''B''" 1 n] by (simp add: byteSizeString_def)
next
  case (Some p)
  obtain unit' factor where p: "p = (unit', factor)" by force
  from Some p have u: "(unit', factor) \<in> set binaryUnits" "factor \<le> n" "n mod factor = 0"
    using find_SomeD [OF Some] by auto
  have "factor \<noteq> 0" using u(1) by (auto simp: binaryUnits_def)
  note fits = quotient_fits [OF u(2,3) this]
  with ParseByteSize_unit [of unit' factor "n div factor"] u(1) Some p show ?thesis
    by (simp add: byteSizeString_def)
qed

text \<open>
  The check of the memory limit computes with 64 bits and can wrap around: a buffer of 2^54 rows of
  1 KiB each is estimated at no memory at all, and passes any limit.
\<close>

lemma memory_estimate_wraps:
  assumes "rc_BufferSize (cf_Runtime c) = 2 ^ 54" and "rc_AssumedRowBytes (cf_Runtime c) = 1024"
    and "cf_Streams c = [(name, s)]" and "sk_Workers (sm_Sink s) = 1" and "bc_MaxBytes (sm_Batch s) = 1"
  shows "EstimatedMemory c = 1"
  using assms by (simp add: EstimatedMemory_def)

end
