(* ===== verification/Schema.thy ===== *)
theory Schema
  imports Prelude
begin

text \<open>
  \<^verbatim>\<open>internal/schema/schema.go\<close> and \<^verbatim>\<open>internal/schema/typemap.go\<close>: table definitions, the choice
  of the key and of the columns a stream writes, and the mapping of a MySQL column type to the
  representation each destination gives it.  An error message becomes a constructor of
  \<open>schema_error\<close> that carries what the message names.
\<close>

record column =
  col_Name :: string
  col_Position :: nat
  col_DataType :: string
  col_ColumnType :: string
  col_Unsigned :: bool
  col_Nullable :: bool
  col_Generated :: bool
  col_CharacterSet :: string
  col_Collation :: string
  col_NumericPrecision :: int
  col_NumericScale :: int
  col_DateTimePrecision :: int
  col_EnumValues :: "string list"
  col_SetValues :: "string list"

text \<open>The \<^verbatim>\<open>byName\<close> cache of \<^verbatim>\<open>TableMeta\<close> is a function of \<^verbatim>\<open>Columns\<close>: see \<open>index\<close>.\<close>

record table_meta =
  tm_Schema :: string
  tm_Table :: string
  tm_Columns :: "column list"
  tm_PrimaryKey :: "string list"

datatype schema_error =
    NoPrimaryKey string
  | KeyNotInTable string string
  | KeyColumnUnknown string string
  | KeyListedTwice string string
  | KeyGenerated string string
  | KeyNullable string string
  | IncludeAndExclude string
  | IncludeUnknown string string
  | KeyNotIncluded string string
  | ExcludeUnknown string string
  | ExcludesKey string string
  | SelectsNoColumns string
  | ColumnGenerated string
  | EnumWithoutLabels string
  | SetWithoutLabels string
  | SpatialType string string
  | UnrecognisedType string string

subsection \<open>Table definitions (schema.go)\<close>

definition Name :: "table_meta \<Rightarrow> string" where
  "Name t = tm_Schema t @ ''.'' @ tm_Table t"

text \<open>\<^verbatim>\<open>index\<close>: a later column of the same name (up to case) overwrites an earlier one.\<close>

definition index :: "table_meta \<Rightarrow> (string \<rightharpoonup> nat)" where
  "index t = fold (\<lambda>(i, c) m. m(toLower (col_Name c) \<mapsto> i))
     (enumerate 0 (tm_Columns t)) Map.empty"

definition Column :: "table_meta \<Rightarrow> string \<Rightarrow> column option" where
  "Column t name = (case index t (toLower name) of
      None \<Rightarrow> None
    | Some i \<Rightarrow> Some (tm_Columns t ! i))"

definition ColumnNames :: "table_meta \<Rightarrow> string list" where
  "ColumnNames t = map col_Name (tm_Columns t)"

definition PrimaryKeyPositions :: "table_meta \<Rightarrow> schema_error + nat list" where
  "PrimaryKeyPositions t =
     (if tm_PrimaryKey t = [] then Inl (NoPrimaryKey (Name t))
      else mapResult (\<lambda>name. case Column t name of
               None \<Rightarrow> Inl (KeyNotInTable (Name t) name)
             | Some c \<Rightarrow> Inr (col_Position c)) (tm_PrimaryKey t))"

text \<open>The loop of \<^verbatim>\<open>ResolveKey\<close>, with the \<^verbatim>\<open>seen\<close> map as the list of names seen so far.\<close>

fun resolveKeyLoop :: "table_meta \<Rightarrow> string list \<Rightarrow> string list \<Rightarrow> schema_error option" where
  "resolveKeyLoop t seen [] = None"
| "resolveKeyLoop t seen (name # names) = (case Column t name of
      None \<Rightarrow> Some (KeyColumnUnknown (Name t) name)
    | Some c \<Rightarrow>
        if toLower name \<in> set seen then Some (KeyListedTwice (Name t) name)
        else if col_Generated c then Some (KeyGenerated (Name t) name)
        else if col_Nullable c then Some (KeyNullable (Name t) name)
        else resolveKeyLoop t (toLower name # seen) names)"

definition ResolveKey :: "table_meta \<Rightarrow> string list \<Rightarrow> schema_error + string list" where
  "ResolveKey t configured =
     (if configured = [] then
        (if tm_PrimaryKey t = [] then Inl (NoPrimaryKey (Name t)) else Inr (tm_PrimaryKey t))
      else (case resolveKeyLoop t [] configured of
              Some e \<Rightarrow> Inl e
            | None \<Rightarrow> Inr configured))"

definition lowerNames :: "string list \<Rightarrow> string set" where
  "lowerNames names = set (map toLower names)"

fun firstUnknown :: "table_meta \<Rightarrow> string list \<Rightarrow> string option" where
  "firstUnknown t [] = None"
| "firstUnknown t (n # ns) = (case Column t n of None \<Rightarrow> Some n | Some _ \<Rightarrow> firstUnknown t ns)"

definition selectIncluded ::
    "table_meta \<Rightarrow> string list \<Rightarrow> string list \<Rightarrow> schema_error + column list" where
  "selectIncluded t inc key = (case firstUnknown t inc of
      Some n \<Rightarrow> Inl (IncludeUnknown (Name t) n)
    | None \<Rightarrow> (case find (\<lambda>k. toLower k \<notin> lowerNames inc) key of
          Some k \<Rightarrow> Inl (KeyNotIncluded (Name t) k)
        | None \<Rightarrow> Inr (filter (\<lambda>c. toLower (col_Name c) \<in> lowerNames inc) (tm_Columns t))))"

fun excludeLoop :: "table_meta \<Rightarrow> string list \<Rightarrow> string list \<Rightarrow> schema_error option" where
  "excludeLoop t key [] = None"
| "excludeLoop t key (n # ns) = (case Column t n of
      None \<Rightarrow> Some (ExcludeUnknown (Name t) n)
    | Some _ \<Rightarrow> if toLower n \<in> lowerNames key then Some (ExcludesKey (Name t) n)
                 else excludeLoop t key ns)"

definition selectExcluded ::
    "table_meta \<Rightarrow> string list \<Rightarrow> string list \<Rightarrow> schema_error + column list" where
  "selectExcluded t exc key = (case excludeLoop t key exc of
      Some e \<Rightarrow> Inl e
    | None \<Rightarrow> Inr (filter (\<lambda>c. toLower (col_Name c) \<notin> lowerNames exc \<and> \<not> col_Generated c)
                 (tm_Columns t)))"

definition SelectColumns ::
    "table_meta \<Rightarrow> string list \<Rightarrow> string list \<Rightarrow> string list \<Rightarrow> schema_error + column list" where
  "SelectColumns t inc exc key =
     (if inc \<noteq> [] \<and> exc \<noteq> [] then Inl (IncludeAndExclude (Name t))
      else
        (case (if inc \<noteq> [] then selectIncluded t inc key
               else if exc \<noteq> [] then selectExcluded t exc key
               else Inr (filter (\<lambda>c. \<not> col_Generated c) (tm_Columns t))) of
           Inl e \<Rightarrow> Inl e
         | Inr chosen \<Rightarrow>
             if chosen = [] then Inl (SelectsNoColumns (Name t)) else Inr chosen))"

subsection \<open>Type mapping (typemap.go)\<close>

datatype kind = KindInvalid | KindBool | KindInt | KindUint | KindFloat | KindDecimal | KindString
  | KindBytes | KindJSON | KindDate | KindDateTime | KindTimestamp | KindTime | KindYear
  | KindEnum | KindSet | KindBit

fun kindString :: "kind \<Rightarrow> string" where
  "kindString KindInvalid = ''invalid''"
| "kindString KindBool = ''bool''"
| "kindString KindInt = ''int''"
| "kindString KindUint = ''uint''"
| "kindString KindFloat = ''float''"
| "kindString KindDecimal = ''decimal''"
| "kindString KindString = ''string''"
| "kindString KindBytes = ''bytes''"
| "kindString KindJSON = ''json''"
| "kindString KindDate = ''date''"
| "kindString KindDateTime = ''datetime''"
| "kindString KindTimestamp = ''timestamp''"
| "kindString KindTime = ''time''"
| "kindString KindYear = ''year''"
| "kindString KindEnum = ''enum''"
| "kindString KindSet = ''set''"
| "kindString KindBit = ''bit''"

record mapped =
  m_Kind :: kind
  m_Elasticsearch :: string
  m_ClickHouse :: string

definition intTypes ::
    "column \<Rightarrow> string \<Rightarrow> string \<Rightarrow> string \<Rightarrow> string \<Rightarrow> schema_error + kind \<times> string \<times> string" where
  "intTypes c signedES signedCH unsignedES unsignedCH =
     (if col_Unsigned c then Inr (KindUint, unsignedES, unsignedCH)
      else Inr (KindInt, signedES, signedCH))"

definition mapType :: "column \<Rightarrow> schema_error + kind \<times> string \<times> string" where
  "mapType c =
     (let t = toLower (col_DataType c) in
      if t = ''tinyint'' then
        (if \<not> col_Unsigned c \<and> hasPrefix (toLower (col_ColumnType c)) ''tinyint(1)''
         then Inr (KindBool, ''boolean'', ''Bool'')
         else intTypes c ''byte'' ''Int8'' ''short'' ''UInt8'')
      else if t = ''smallint'' then intTypes c ''short'' ''Int16'' ''integer'' ''UInt16''
      else if t = ''mediumint'' then intTypes c ''integer'' ''Int32'' ''long'' ''UInt32''
      else if t \<in> {''int'', ''integer''} then intTypes c ''integer'' ''Int32'' ''long'' ''UInt32''
      else if t = ''bigint'' then intTypes c ''long'' ''Int64'' ''unsigned_long'' ''UInt64''
      else if t \<in> {''decimal'', ''numeric''} then
        (let (precision, scale) =
               (if col_NumericPrecision c \<le> 0 then (10, 0)
                else (col_NumericPrecision c, col_NumericScale c))
         in Inr (KindDecimal, ''keyword'',
               ''Decimal('' @ showInt precision @ '', '' @ showInt scale @ '')''))
      else if t = ''float'' then Inr (KindFloat, ''float'', ''Float32'')
      else if t \<in> {''double'', ''double precision'', ''real''} then
        Inr (KindFloat, ''double'', ''Float64'')
      else if t \<in> {''char'', ''varchar''} then Inr (KindString, ''keyword'', ''String'')
      else if t \<in> {''tinytext'', ''text'', ''mediumtext'', ''longtext''} then
        Inr (KindString, ''text'', ''String'')
      else if t \<in> {''binary'', ''varbinary'', ''tinyblob'', ''blob'', ''mediumblob'', ''longblob''} then
        Inr (KindBytes, ''binary'', ''String'')
      else if t = ''json'' then Inr (KindJSON, ''object'', ''String'')
      else if t = ''date'' then Inr (KindDate, ''date'', ''Date32'')
      else if t = ''datetime'' then
        Inr (KindDateTime, ''date'', ''DateTime64('' @ showInt (col_DateTimePrecision c) @ '')'')
      else if t = ''timestamp'' then
        Inr (KindTimestamp, ''date'',
          ''DateTime64('' @ showInt (col_DateTimePrecision c) @ '', '' @ [CHR 0x27] @ ''UTC''
            @ [CHR 0x27] @ '')'')
      else if t = ''time'' then Inr (KindTime, ''long'', ''Int64'')
      else if t = ''year'' then Inr (KindYear, ''short'', ''UInt16'')
      else if t = ''enum'' then
        (if col_EnumValues c = [] then Inl (EnumWithoutLabels (col_Name c))
         else Inr (KindEnum, ''keyword'', ''LowCardinality(String)''))
      else if t = ''set'' then
        (if col_SetValues c = [] then Inl (SetWithoutLabels (col_Name c))
         else Inr (KindSet, ''keyword'', ''Array(String)''))
      else if t = ''bit'' then Inr (KindBit, ''long'', ''UInt64'')
      else if t \<in> {''geometry'', ''point'', ''linestring'', ''polygon'', ''multipoint'',
                   ''multilinestring'', ''multipolygon'', ''geometrycollection'',
                   ''geomcollection''} then
        Inl (SpatialType (col_Name c) (col_DataType c))
      else Inl (UnrecognisedType (col_Name c) (col_DataType c)))"

text \<open>\<^verbatim>\<open>schema.Map\<close>: \<^verbatim>\<open>Nullable\<close> goes inside \<^verbatim>\<open>LowCardinality\<close>, never around it.\<close>

definition schemaMap :: "column \<Rightarrow> schema_error + mapped" where
  "schemaMap c =
     (if col_Generated c then Inl (ColumnGenerated (col_Name c))
      else (case mapType c of
          Inl e \<Rightarrow> Inl e
        | Inr (kind, es, ch) \<Rightarrow>
            let lowCardinality = hasPrefix ch ''LowCardinality('';
                ch1 = (if lowCardinality then trimSuffix (trimPrefix ch ''LowCardinality('') '')''
                       else ch);
                ch2 = (if col_Nullable c then ''Nullable('' @ ch1 @ '')'' else ch1);
                ch3 = (if lowCardinality then ''LowCardinality('' @ ch2 @ '')'' else ch2)
            in Inr \<lparr>m_Kind = kind, m_Elasticsearch = es, m_ClickHouse = ch3\<rparr>))"

definition Supported :: "column \<Rightarrow> bool" where
  "Supported c = (case schemaMap c of Inl _ \<Rightarrow> False | Inr _ \<Rightarrow> True)"

subsection \<open>Lookup by name\<close>

lemma index_fold:
  "fold (\<lambda>(i, c) m. m(toLower (col_Name c) \<mapsto> i)) (enumerate n cs) m0 k = Some i \<Longrightarrow>
     m0 k = Some i \<or> (n \<le> i \<and> i < n + length cs \<and> toLower (col_Name (cs ! (i - n))) = k)"
proof (induction cs arbitrary: n m0)
  case (Cons c cs)
  from Cons.IH [of "Suc n" "m0(toLower (col_Name c) \<mapsto> n)"] Cons.prems
  have "(m0(toLower (col_Name c) \<mapsto> n)) k = Some i \<or>
      (Suc n \<le> i \<and> i < Suc n + length cs \<and> toLower (col_Name (cs ! (i - Suc n))) = k)"
    by simp
  then show ?case by (auto simp: nth_Cons' split: if_splits)
qed simp

lemma index_SomeD:
  assumes "index t k = Some i"
  shows "i < length (tm_Columns t)" and "toLower (col_Name (tm_Columns t ! i)) = k"
  using index_fold [of 0 "tm_Columns t" Map.empty k i] assms by (auto simp: index_def)

lemma index_fold_None:
  "fold (\<lambda>(i, c) m. m(toLower (col_Name c) \<mapsto> i)) (enumerate n cs) m0 k = None \<longleftrightarrow>
     m0 k = None \<and> k \<notin> toLower ` col_Name ` set cs"
  by (induction cs arbitrary: n m0) auto

lemma index_None_iff: "index t k = None \<longleftrightarrow> k \<notin> toLower ` col_Name ` set (tm_Columns t)"
  by (simp add: index_def index_fold_None)

lemma Column_SomeD:
  assumes "Column t name = Some c"
  shows "c \<in> set (tm_Columns t)" and "toLower (col_Name c) = toLower name"
  using assms index_SomeD by (auto simp: Column_def split: option.splits)

lemma Column_None_iff:
  "Column t name = None \<longleftrightarrow> (\<forall>c \<in> set (tm_Columns t). toLower (col_Name c) \<noteq> toLower name)"
  using index_None_iff [of t "toLower name"]
  by (auto simp: Column_def image_iff split: option.splits)

text \<open>
  A table definition as \<^verbatim>\<open>information_schema\<close> gives it: the columns in ordinal order, each at
  the position it is stored at, with names that differ up to case, as MySQL requires.
\<close>

definition wellFormed :: "table_meta \<Rightarrow> bool" where
  "wellFormed t \<longleftrightarrow> map col_Position (tm_Columns t) = [0..<length (tm_Columns t)] \<and>
     distinct (map (toLower \<circ> col_Name) (tm_Columns t))"

lemma wellFormed_position:
  assumes "wellFormed t" and "c \<in> set (tm_Columns t)"
  shows "col_Position c < length (tm_Columns t)" and "tm_Columns t ! col_Position c = c"
proof -
  from assms(2) obtain i where i: "i < length (tm_Columns t)" "c = tm_Columns t ! i"
    by (metis in_set_conv_nth)
  from assms(1) have "map col_Position (tm_Columns t) ! i = [0..<length (tm_Columns t)] ! i"
    by (simp add: wellFormed_def)
  with i have "col_Position c = i" by simp
  with i show "col_Position c < length (tm_Columns t)" "tm_Columns t ! col_Position c = c" by auto
qed

lemma wellFormed_Column:
  assumes "wellFormed t" and "c \<in> set (tm_Columns t)"
  shows "Column t (col_Name c) = Some c"
proof -
  have "Column t (col_Name c) \<noteq> None" using assms(2) by (auto simp: Column_None_iff)
  then obtain d where d: "Column t (col_Name c) = Some d" by auto
  note Column_SomeD [OF d]
  with assms have "d = c"
    by (auto simp: wellFormed_def distinct_map inj_on_def)
  with d show ?thesis by simp
qed

subsection \<open>The key of a stream\<close>

text \<open>A column that may identify a row: it exists, the binlog carries it, and it is never null.\<close>

definition keyUsable :: "table_meta \<Rightarrow> string \<Rightarrow> bool" where
  "keyUsable t name = (case Column t name of
      None \<Rightarrow> False
    | Some c \<Rightarrow> \<not> col_Generated c \<and> \<not> col_Nullable c)"

lemma resolveKeyLoop_None:
  "resolveKeyLoop t seen ks = None \<longleftrightarrow>
     list_all (keyUsable t) ks \<and> distinct (map toLower ks) \<and> toLower ` set ks \<inter> set seen = {}"
  by (induction ks arbitrary: seen) (auto simp: keyUsable_def split: option.splits)

lemma ResolveKey_not_Nil: "ResolveKey t ks = Inr key \<Longrightarrow> key \<noteq> []"
  by (auto simp: ResolveKey_def split: if_splits option.splits)

subsection \<open>The columns of a stream\<close>

lemma firstUnknown_None:
  "firstUnknown t ns = None \<longleftrightarrow> (\<forall>n \<in> set ns. Column t n \<noteq> None)"
  by (induction ns) (auto split: option.splits)

lemma excludeLoop_None:
  "excludeLoop t key ns = None \<longleftrightarrow>
     (\<forall>n \<in> set ns. Column t n \<noteq> None \<and> toLower n \<notin> lowerNames key)"
  by (induction ns) (auto split: option.splits)

text \<open>The predicate that each branch of \<^verbatim>\<open>SelectColumns\<close> filters the table's columns by.\<close>

definition selects :: "string list \<Rightarrow> string list \<Rightarrow> column \<Rightarrow> bool" where
  "selects inc exc c \<longleftrightarrow>
     (if inc \<noteq> [] then toLower (col_Name c) \<in> lowerNames inc
      else toLower (col_Name c) \<notin> lowerNames exc \<and> \<not> col_Generated c)"

lemma SelectColumns_filter:
  assumes "SelectColumns t inc exc key = Inr chosen"
  shows "chosen = filter (selects inc exc) (tm_Columns t)" and "chosen \<noteq> []"
  using assms
  by (auto simp: SelectColumns_def selectIncluded_def selectExcluded_def selects_def lowerNames_def
      fun_eq_iff split: if_splits option.splits sum.splits intro!: filter_cong)

lemma SelectColumns_keeps_key:
  assumes "SelectColumns t inc exc key = Inr chosen" and "k \<in> set key"
    and "Column t k = Some c" and "\<not> col_Generated c"
  shows "c \<in> set chosen"
proof -
  note c = Column_SomeD [OF assms(3)]
  have "selects inc exc c"
  proof (cases "inc = []")
    case True
    have "toLower k \<notin> lowerNames exc"
    proof
      assume "toLower k \<in> lowerNames exc"
      then obtain n where "n \<in> set exc" "toLower n = toLower k" by (auto simp: lowerNames_def)
      with True assms(1,2) show False
        by (auto simp: SelectColumns_def selectExcluded_def excludeLoop_None lowerNames_def
            split: if_splits option.splits sum.splits)
    qed
    with True c assms(4) show ?thesis by (simp add: selects_def)
  next
    case False
    with assms(1,2) have "toLower k \<in> lowerNames inc"
      by (auto simp: SelectColumns_def selectIncluded_def find_None_iff
          split: if_splits option.splits sum.splits)
    with False c show ?thesis by (simp add: selects_def)
  qed
  with c SelectColumns_filter(1) [OF assms(1)] show ?thesis by simp
qed

subsection \<open>Integer ranges\<close>

text \<open>
  The values a MySQL integer column holds, and the values that a numeric type of each
  destination holds.  \<^verbatim>\<open>YEAR\<close> is 0000 or 1901 to 2155.
\<close>

definition mysqlIntRange :: "column \<Rightarrow> (int \<times> int) option" where
  "mysqlIntRange c =
     (let t = toLower (col_DataType c);
          range = (\<lambda>w. if col_Unsigned c then Some (0, 2 ^ w - 1)
                       else Some (- (2 ^ (w - 1)), 2 ^ (w - 1) - 1))
      in if t = ''tinyint'' then range (8::nat)
         else if t = ''smallint'' then range 16
         else if t = ''mediumint'' then range 24
         else if t = ''int'' \<or> t = ''integer'' then range 32
         else if t = ''bigint'' then range 64
         else if t = ''year'' then Some (0, 2155)
         else None)"

definition esIntRange :: "string \<Rightarrow> (int \<times> int) option" where
  "esIntRange t =
     (if t = ''byte'' then Some (- (2 ^ 7), 2 ^ 7 - 1)
      else if t = ''short'' then Some (- (2 ^ 15), 2 ^ 15 - 1)
      else if t = ''integer'' then Some (- (2 ^ 31), 2 ^ 31 - 1)
      else if t = ''long'' then Some (- (2 ^ 63), 2 ^ 63 - 1)
      else if t = ''unsigned_long'' then Some (0, 2 ^ 64 - 1)
      else None)"

definition chIntRange :: "string \<Rightarrow> (int \<times> int) option" where
  "chIntRange t =
     (if t = ''Int8'' then Some (- (2 ^ 7), 2 ^ 7 - 1)
      else if t = ''Int16'' then Some (- (2 ^ 15), 2 ^ 15 - 1)
      else if t = ''Int32'' then Some (- (2 ^ 31), 2 ^ 31 - 1)
      else if t = ''Int64'' then Some (- (2 ^ 63), 2 ^ 63 - 1)
      else if t = ''UInt8'' then Some (0, 2 ^ 8 - 1)
      else if t = ''UInt16'' then Some (0, 2 ^ 16 - 1)
      else if t = ''UInt32'' then Some (0, 2 ^ 32 - 1)
      else if t = ''UInt64'' then Some (0, 2 ^ 64 - 1)
      else None)"

definition rangeIn :: "(int \<times> int) option \<Rightarrow> (int \<times> int) option \<Rightarrow> bool" where
  "rangeIn r s = (case (r, s) of
      (Some (lo, hi), Some (lo', hi')) \<Rightarrow> lo' \<le> lo \<and> hi \<le> hi'
    | _ \<Rightarrow> False)"

text \<open>The rows of \<^verbatim>\<open>mapType\<close> for the integer types.\<close>

lemma mapType_integers:
  "toLower (col_DataType c) = ''tinyint'' \<Longrightarrow> mapType c =
     (if \<not> col_Unsigned c \<and> hasPrefix (toLower (col_ColumnType c)) ''tinyint(1)''
      then Inr (KindBool, ''boolean'', ''Bool'')
      else intTypes c ''byte'' ''Int8'' ''short'' ''UInt8'')"
  "toLower (col_DataType c) = ''smallint'' \<Longrightarrow>
     mapType c = intTypes c ''short'' ''Int16'' ''integer'' ''UInt16''"
  "toLower (col_DataType c) = ''mediumint'' \<Longrightarrow>
     mapType c = intTypes c ''integer'' ''Int32'' ''long'' ''UInt32''"
  "toLower (col_DataType c) = ''int'' \<or> toLower (col_DataType c) = ''integer'' \<Longrightarrow>
     mapType c = intTypes c ''integer'' ''Int32'' ''long'' ''UInt32''"
  "toLower (col_DataType c) = ''bigint'' \<Longrightarrow>
     mapType c = intTypes c ''long'' ''Int64'' ''unsigned_long'' ''UInt64''"
  "toLower (col_DataType c) = ''year'' \<Longrightarrow> mapType c = Inr (KindYear, ''short'', ''UInt16'')"
  by (auto simp: mapType_def)

lemma mysqlIntRange_rows:
  "toLower (col_DataType c) = ''tinyint'' \<Longrightarrow> mysqlIntRange c =
     (if col_Unsigned c then Some (0, 2 ^ 8 - 1) else Some (- (2 ^ 7), 2 ^ 7 - 1))"
  "toLower (col_DataType c) = ''smallint'' \<Longrightarrow> mysqlIntRange c =
     (if col_Unsigned c then Some (0, 2 ^ 16 - 1) else Some (- (2 ^ 15), 2 ^ 15 - 1))"
  "toLower (col_DataType c) = ''mediumint'' \<Longrightarrow> mysqlIntRange c =
     (if col_Unsigned c then Some (0, 2 ^ 24 - 1) else Some (- (2 ^ 23), 2 ^ 23 - 1))"
  "toLower (col_DataType c) = ''int'' \<or> toLower (col_DataType c) = ''integer'' \<Longrightarrow>
     mysqlIntRange c =
     (if col_Unsigned c then Some (0, 2 ^ 32 - 1) else Some (- (2 ^ 31), 2 ^ 31 - 1))"
  "toLower (col_DataType c) = ''bigint'' \<Longrightarrow> mysqlIntRange c =
     (if col_Unsigned c then Some (0, 2 ^ 64 - 1) else Some (- (2 ^ 63), 2 ^ 63 - 1))"
  "toLower (col_DataType c) = ''year'' \<Longrightarrow> mysqlIntRange c = Some (0, 2155)"
  by (auto simp: mysqlIntRange_def)

lemma mysqlIntRange_cases:
  "mysqlIntRange c \<noteq> None \<Longrightarrow>
     toLower (col_DataType c) = ''tinyint'' \<or> toLower (col_DataType c) = ''smallint'' \<or>
     toLower (col_DataType c) = ''mediumint'' \<or>
     (toLower (col_DataType c) = ''int'' \<or> toLower (col_DataType c) = ''integer'') \<or>
     toLower (col_DataType c) = ''bigint'' \<or> toLower (col_DataType c) = ''year''"
  by (rule ccontr) (simp add: mysqlIntRange_def)

definition fitsBoth :: "(int \<times> int) option \<Rightarrow> string \<Rightarrow> string \<Rightarrow> bool" where
  "fitsBoth r es ch \<longleftrightarrow>
     rangeIn r (esIntRange es) \<and> rangeIn r (chIntRange ch) \<and> \<not> hasPrefix ch ''LowCardinality(''"

lemma intTypes_fits:
  assumes "intTypes c sE sC uE uC = Inr (k, es, ch)"
    and "mysqlIntRange c = (if col_Unsigned c then r else r')"
    and "fitsBoth r uE uC" and "fitsBoth r' sE sC"
  shows "fitsBoth (mysqlIntRange c) es ch"
  using assms by (auto simp: intTypes_def split: if_splits)

lemma fitsBoth_rows:
  "fitsBoth (Some (0, 2 ^ 8 - 1)) ''short'' ''UInt8''"
  "fitsBoth (Some (- (2 ^ 7), 2 ^ 7 - 1)) ''byte'' ''Int8''"
  "fitsBoth (Some (0, 2 ^ 16 - 1)) ''integer'' ''UInt16''"
  "fitsBoth (Some (- (2 ^ 15), 2 ^ 15 - 1)) ''short'' ''Int16''"
  "fitsBoth (Some (0, 2 ^ 24 - 1)) ''long'' ''UInt32''"
  "fitsBoth (Some (- (2 ^ 23), 2 ^ 23 - 1)) ''integer'' ''Int32''"
  "fitsBoth (Some (0, 2 ^ 32 - 1)) ''long'' ''UInt32''"
  "fitsBoth (Some (- (2 ^ 31), 2 ^ 31 - 1)) ''integer'' ''Int32''"
  "fitsBoth (Some (0, 2 ^ 64 - 1)) ''unsigned_long'' ''UInt64''"
  "fitsBoth (Some (- (2 ^ 63), 2 ^ 63 - 1)) ''long'' ''Int64''"
  "fitsBoth (Some (0, 2155)) ''short'' ''UInt16''"
  by (simp_all add: fitsBoth_def rangeIn_def esIntRange_def chIntRange_def hasPrefix_def)

lemma mapType_fits:
  assumes "mysqlIntRange c \<noteq> None" and "mapType c = Inr (k, es, ch)" and "k \<noteq> KindBool"
  shows "fitsBoth (mysqlIntRange c) es ch"
  using mysqlIntRange_cases [OF assms(1)]
proof (elim disjE)
  assume t: "toLower (col_DataType c) = ''tinyint''"
  with assms(2,3) have "intTypes c ''byte'' ''Int8'' ''short'' ''UInt8'' = Inr (k, es, ch)"
    by (simp add: mapType_integers(1) split: if_splits)
  from intTypes_fits [OF this mysqlIntRange_rows(1) [OF t]] show ?thesis
    by (simp only: fitsBoth_rows)
next
  assume t: "toLower (col_DataType c) = ''smallint''"
  from intTypes_fits [OF assms(2) [unfolded mapType_integers(2) [OF t]] mysqlIntRange_rows(2) [OF t]]
  show ?thesis by (simp only: fitsBoth_rows)
next
  assume t: "toLower (col_DataType c) = ''mediumint''"
  from intTypes_fits [OF assms(2) [unfolded mapType_integers(3) [OF t]] mysqlIntRange_rows(3) [OF t]]
  show ?thesis by (simp only: fitsBoth_rows)
next
  assume "toLower (col_DataType c) = ''int''"
  then have t: "toLower (col_DataType c) = ''int'' \<or> toLower (col_DataType c) = ''integer''" ..
  from intTypes_fits [OF assms(2) [unfolded mapType_integers(4) [OF t]] mysqlIntRange_rows(4) [OF t]]
  show ?thesis by (simp only: fitsBoth_rows)
next
  assume "toLower (col_DataType c) = ''integer''"
  then have t: "toLower (col_DataType c) = ''int'' \<or> toLower (col_DataType c) = ''integer''" ..
  from intTypes_fits [OF assms(2) [unfolded mapType_integers(4) [OF t]] mysqlIntRange_rows(4) [OF t]]
  show ?thesis by (simp only: fitsBoth_rows)
next
  assume t: "toLower (col_DataType c) = ''bigint''"
  from intTypes_fits [OF assms(2) [unfolded mapType_integers(5) [OF t]] mysqlIntRange_rows(5) [OF t]]
  show ?thesis by (simp only: fitsBoth_rows)
next
  assume t: "toLower (col_DataType c) = ''year''"
  with assms(2) have "es = ''short''" "ch = ''UInt16''" by (simp_all add: mapType_integers(6))
  then show ?thesis by (simp only: mysqlIntRange_rows(6) [OF t] fitsBoth_rows)
qed

subsection \<open>Properties\<close>

text \<open>
  \<^verbatim>\<open>ResolveKey\<close> returns a key exactly when there is one to return.  With no configured key
  it is the table's primary key, if it has one; a configured key is returned as it is, exactly
  when every name is a column that is neither generated nor nullable and no name is listed
  twice up to case.
\<close>

theorem ResolveKey_iff:
  "ResolveKey t configured = Inr key \<longleftrightarrow>
     (configured = [] \<and> key = tm_PrimaryKey t \<and> key \<noteq> []) \<or>
     (configured \<noteq> [] \<and> key = configured \<and> list_all (keyUsable t) configured \<and>
      distinct (map toLower configured))"
  using resolveKeyLoop_None [of t "[]" configured]
  by (auto simp: ResolveKey_def split: option.splits)

text \<open>
  What \<^verbatim>\<open>SelectColumns\<close> returns is a non-empty subsequence of the table's columns, in ordinal
  order, that holds every key column the binlog carries; without an include list it holds no
  generated column and no excluded one.
\<close>

theorem SelectColumns_sound:
  assumes "SelectColumns t inc exc key = Inr chosen"
  shows "subseq chosen (tm_Columns t) \<and> chosen \<noteq> [] \<and>
     (\<forall>k \<in> set key. \<forall>c. Column t k = Some c \<longrightarrow> \<not> col_Generated c \<longrightarrow> c \<in> set chosen) \<and>
     (\<forall>c \<in> set chosen. inc \<noteq> [] \<and> toLower (col_Name c) \<in> lowerNames inc \<or>
        inc = [] \<and> \<not> col_Generated c \<and> toLower (col_Name c) \<notin> lowerNames exc)"
proof -
  note f = SelectColumns_filter [OF assms]
  from f have "subseq chosen (tm_Columns t)" by simp
  moreover from f(1) have "\<forall>c \<in> set chosen. inc \<noteq> [] \<and> toLower (col_Name c) \<in> lowerNames inc \<or>
        inc = [] \<and> \<not> col_Generated c \<and> toLower (col_Name c) \<notin> lowerNames exc"
    by (auto simp: selects_def split: if_splits)
  ultimately show ?thesis using f(2) SelectColumns_keeps_key [OF assms] by auto
qed

definition exampleColumn :: "string \<Rightarrow> nat \<Rightarrow> string \<Rightarrow> bool \<Rightarrow> column" where
  "exampleColumn name pos ty uns =
     \<lparr>col_Name = name, col_Position = pos, col_DataType = ty, col_ColumnType = ty,
      col_Unsigned = uns, col_Nullable = False, col_Generated = False,
      col_CharacterSet = [], col_Collation = [], col_NumericPrecision = 0,
      col_NumericScale = 0, col_DateTimePrecision = 0, col_EnumValues = [], col_SetValues = []\<rparr>"

definition exampleTable :: table_meta where
  "exampleTable = \<lparr>tm_Schema = ''shop'', tm_Table = ''orders'',
     tm_Columns = [exampleColumn ''id'' 0 ''bigint'' True,
                   exampleColumn ''name'' 1 ''varchar'' False,
                   exampleColumn ''note'' 2 ''text'' False],
     tm_PrimaryKey = [''id'']\<rparr>"

lemma exampleTable_wellFormed: "wellFormed exampleTable"
  by code_simp

theorem SelectColumns_sound_witness:
  "subseq [exampleColumn ''id'' 0 ''bigint'' True, exampleColumn ''name'' 1 ''varchar'' False]
     (tm_Columns exampleTable)"
proof -
  have "SelectColumns exampleTable [] [''NOTE''] [''id''] =
      Inr [exampleColumn ''id'' 0 ''bigint'' True, exampleColumn ''name'' 1 ''varchar'' False]"
    by code_simp
  from SelectColumns_sound [OF this] show ?thesis by simp
qed

text \<open>
  An integer never overflows its destination: for every MySQL integer type, signed or
  unsigned, the types that \<^verbatim>\<open>Map\<close> chooses for Elasticsearch and for ClickHouse (inside the
  \<^verbatim>\<open>Nullable\<close> of a nullable column) hold every value of the column.  The one exception is the
  type that MySQL clients use as a boolean, \<^verbatim>\<open>tinyint(1)\<close>.
\<close>

theorem Map_integers_fit:
  assumes "schemaMap c = Inr m" and "mysqlIntRange c \<noteq> None" and "m_Kind m \<noteq> KindBool"
  shows "rangeIn (mysqlIntRange c) (esIntRange (m_Elasticsearch m)) \<and>
     (\<exists>ch. m_ClickHouse m = (if col_Nullable c then ''Nullable('' @ ch @ '')'' else ch) \<and>
           rangeIn (mysqlIntRange c) (chIntRange ch))"
proof -
  from assms(1) obtain k es ch where mt: "mapType c = Inr (k, es, ch)"
    by (auto simp: schemaMap_def split: if_splits sum.splits)
  with assms(1,3) have "k \<noteq> KindBool" by (auto simp: schemaMap_def Let_def split: if_splits)
  note fits = mapType_fits [OF assms(2) mt this]
  with assms(1) mt show ?thesis by (auto simp: fitsBoth_def schemaMap_def Let_def split: if_splits)
qed

theorem Map_integers_fit_witness:
  "rangeIn (Some (0, 2 ^ 64 - 1)) (esIntRange ''unsigned_long'')"
proof -
  let ?c = "exampleColumn ''id'' 0 ''bigint'' True"
  let ?m = "\<lparr>m_Kind = KindUint, m_Elasticsearch = ''unsigned_long'', m_ClickHouse = ''UInt64''\<rparr>"
  have "schemaMap ?c = Inr ?m" by code_simp
  moreover have "mysqlIntRange ?c = Some (0, 2 ^ 64 - 1)" by code_simp
  ultimately show ?thesis using Map_integers_fit [of ?c ?m] by simp
qed

end
