(* ===== verification/Event.thy ===== *)
theory Event
  imports Schema GoTime
begin

text \<open>
  \<^verbatim>\<open>internal/cdc/event.go\<close> and \<^verbatim>\<open>internal/sink/sink.go\<close>: the change events the sources emit,
  the documents the pipeline writes, and the outcome a sink reports for a batch.

  A value of Go's \<^verbatim>\<open>any\<close> is its dynamic type and contents.  A float is its IEEE bit pattern.
  A \<^verbatim>\<open>decimal.Decimal\<close> of the shopspring package is a coefficient and an exponent.  A row that
  may be \<^verbatim>\<open>nil\<close> is an option.
\<close>

subsection \<open>Values and events (event.go)\<close>

datatype operation = OperationInsert | OperationUpdate | OperationDelete | OperationSnapshot

fun operationString :: "operation \<Rightarrow> string" where
  "operationString OperationInsert = ''insert''"
| "operationString OperationUpdate = ''update''"
| "operationString OperationDelete = ''delete''"
| "operationString OperationSnapshot = ''snapshot''"

definition IsUpsert :: "operation \<Rightarrow> bool" where
  "IsUpsert o' \<longleftrightarrow> o' = OperationInsert \<or> o' = OperationUpdate \<or> o' = OperationSnapshot"

datatype decimal = Decimal int int

datatype val =
    VNil
  | VString string
  | VBytes bytes
  | VInt64 "64 word"
  | VInt32 "32 word"
  | VInt16 "16 word"
  | VInt8 "8 word"
  | VInt "64 word"
  | VUint64 "64 word"
  | VUint32 "32 word"
  | VUint16 "16 word"
  | VUint8 "8 word"
  | VUint "64 word"
  | VFloat32 "32 word"
  | VFloat64 "64 word"
  | VDecimal decimal
  | VTime time

type_synonym row = "val list"

record change_event =
  ev_Meta :: "table_meta option"
  ev_Operation :: operation
  ev_Before :: "row option"
  ev_After :: "row option"
  ev_Timestamp :: time
  ev_GTID :: string
  ev_TxID :: u64
  ev_Seq :: u64
  ev_Cursor :: bytes
  ev_RowsScanned :: u64

definition Values :: "change_event \<Rightarrow> row option" where
  "Values e = (if ev_Operation e = OperationDelete then ev_Before e else ev_After e)"

record doc =
  doc_Key :: string
  doc_Body :: bytes
  doc_Version :: u64
  doc_Deleted :: bool

definition docSize :: "doc \<Rightarrow> nat" where
  "docSize d = length (doc_Key d) + length (doc_Body d)"

subsection \<open>Outcomes of a write (sink.go)\<close>

record rejection =
  rej_Doc :: doc
  rej_Status :: int
  rej_Reason :: string

record result =
  res_Applied :: nat
  res_Stale :: nat
  res_Rejected :: "rejection list"

definition emptyResult :: result where
  "emptyResult = \<lparr>res_Applied = 0, res_Stale = 0, res_Rejected = []\<rparr>"

definition Total :: "result \<Rightarrow> nat" where
  "Total r = res_Applied r + res_Stale r + length (res_Rejected r)"

definition rejectionString :: "rejection \<Rightarrow> string" where
  "rejectionString r =
     doc_Key (rej_Doc r) @ '': status '' @ showInt (rej_Status r) @ '': '' @ rej_Reason r"

lemma Total_emptyResult [simp]: "Total emptyResult = 0"
  by (simp add: Total_def emptyResult_def)

subsection \<open>The contract of a sink\<close>

definition rejectedDocs :: "rejection list \<Rightarrow> doc multiset" where
  "rejectedDocs rejs = mset (map rej_Doc rejs)"

lemma rejectedDocs_append [simp]: "rejectedDocs (xs @ ys) = rejectedDocs xs + rejectedDocs ys"
  by (simp add: rejectedDocs_def)

lemma rejectedDocs_Nil [simp]: "rejectedDocs [] = {#}"
  by (simp add: rejectedDocs_def)

text \<open>
  What the pipeline relies on: a write that reports no error accounts for every document of its
  batch, and refuses only documents of the batch.
\<close>

locale accounting_sink =
  fixes write_docs :: "doc list \<Rightarrow> 'w \<Rightarrow> (result \<times> 'e option) \<times> 'w"
  assumes accounts: "write_docs docs w = ((res, None), w') \<Longrightarrow> Total res = length docs"
    and refuses_own: "write_docs docs w = ((res, None), w') \<Longrightarrow>
      rejectedDocs (res_Rejected res) \<subseteq># mset docs"
begin

lemma settled_docs:
  assumes "write_docs docs w = ((res, None), w')"
  shows "res_Applied res + res_Stale res = size (mset docs - rejectedDocs (res_Rejected res))"
  using accounts [OF assms] refuses_own [OF assms]
  by (simp add: size_Diff_submset Total_def rejectedDocs_def)

end

end
