(* ===== verification/GoEncoding.thy ===== *)
theory GoEncoding
  imports Prelude
begin

unbundle bit_operations_syntax

text \<open>
  The encodings of Go's standard library that the sources call: \<^verbatim>\<open>encoding/hex\<close>,
  \<^verbatim>\<open>encoding/base64\<close> (standard alphabet, padded), \<^verbatim>\<open>unicode/utf8\<close> (validity, and the
  encoding of a rune below 256), \<^verbatim>\<open>encoding/json\<close>'s encoding of a string (with its HTML escaping
  and its replacement of invalid UTF-8) and \<^verbatim>\<open>crypto/sha256\<close>.  All of them compute on bytes.
\<close>

subsection \<open>Hexadecimal\<close>

definition hexLower :: "nat \<Rightarrow> char" where
  "hexLower n = ''0123456789abcdef'' ! n"

definition hexUpper :: "nat \<Rightarrow> char" where
  "hexUpper n = ''0123456789ABCDEF'' ! n"

definition hexEncode :: "bytes \<Rightarrow> string" where
  "hexEncode s = concat (map (\<lambda>c. [hexLower (byteVal c div 16), hexLower (byteVal c mod 16)]) s)"

lemma length_hexEncode [simp]: "length (hexEncode s) = 2 * length s"
  by (induction s) (auto simp: hexEncode_def)

text \<open>Reading a hexadecimal digit of either case back.\<close>

definition hexVal :: "char \<Rightarrow> nat" where
  "hexVal c =
     (if isDigit c then digitVal c
      else if 97 \<le> byteVal c then byteVal c - 87 else byteVal c - 55)"

lemma less_16_cases: "n < 16 \<Longrightarrow> n \<in> {0, 1, 2, 3, 4, 5, 6, 7, 8, 9, 10, 11, 12, 13, 14, 15::nat}"
  unfolding insert_iff empty_iff by arith

lemma hexVal_hexUpper [simp]: "n < 16 \<Longrightarrow> hexVal (hexUpper n) = n"
  by (drule less_16_cases)
    (auto simp: hexVal_def hexUpper_def isDigit_def digitVal_def byteVal_def)

lemma hexVal_hexLower [simp]: "n < 16 \<Longrightarrow> hexVal (hexLower n) = n"
  by (drule less_16_cases)
    (auto simp: hexVal_def hexLower_def isDigit_def digitVal_def byteVal_def)

lemma char_of_nibbles: "char_of (16 * (byteVal c div 16) + byteVal c mod 16) = c"
  by simp

lemma byteVal_div_16 [simp]: "byteVal c div 16 < 16"
  using byteVal_less [of c] by (simp add: less_mult_imp_div_less)

subsection \<open>Base64\<close>

definition b64Char :: "nat \<Rightarrow> char" where
  "b64Char n = ''ABCDEFGHIJKLMNOPQRSTUVWXYZabcdefghijklmnopqrstuvwxyz0123456789+/'' ! n"

fun base64Encode :: "bytes \<Rightarrow> string" where
  "base64Encode [] = []"
| "base64Encode [a] =
     [b64Char (byteVal a div 4), b64Char ((byteVal a mod 4) * 16), CHR ''='', CHR ''='']"
| "base64Encode [a, b] =
     [b64Char (byteVal a div 4), b64Char ((byteVal a mod 4) * 16 + byteVal b div 16),
      b64Char ((byteVal b mod 16) * 4), CHR ''='']"
| "base64Encode (a # b # c # s) =
     [b64Char (byteVal a div 4), b64Char ((byteVal a mod 4) * 16 + byteVal b div 16),
      b64Char ((byteVal b mod 16) * 4 + byteVal c div 64), b64Char (byteVal c mod 64)]
     @ base64Encode s"

subsection \<open>UTF-8\<close>

definition byteIn :: "nat \<Rightarrow> nat \<Rightarrow> char \<Rightarrow> bool" where
  "byteIn lo hi c \<longleftrightarrow> lo \<le> byteVal c \<and> byteVal c \<le> hi"

text \<open>
  The length of the well-formed encoding at the head of a byte sequence, or \<^term>\<open>0::nat\<close>
  when there is none: \<^verbatim>\<open>unicode/utf8\<close>'s acceptance ranges, which refuse overlong forms,
  surrogates and values above U+10FFFF.
\<close>

definition utf8Head :: "bytes \<Rightarrow> nat" where
  "utf8Head s = (case s of
      [] \<Rightarrow> 0
    | a # r \<Rightarrow>
       (if byteVal a < 128 then 1
        else if byteIn 194 223 a then
          (case r of b # _ \<Rightarrow> if byteIn 128 191 b then 2 else 0 | _ \<Rightarrow> 0)
        else if byteIn 224 239 a then
          (case r of b # c # _ \<Rightarrow>
             if byteIn (if byteVal a = 224 then 160 else 128) (if byteVal a = 237 then 159 else 191) b
                \<and> byteIn 128 191 c then 3 else 0
           | _ \<Rightarrow> 0)
        else if byteIn 240 244 a then
          (case r of b # c # d # _ \<Rightarrow>
             if byteIn (if byteVal a = 240 then 144 else 128) (if byteVal a = 244 then 143 else 191) b
                \<and> byteIn 128 191 c \<and> byteIn 128 191 d then 4 else 0
           | _ \<Rightarrow> 0)
        else 0))"

function utf8Valid :: "bytes \<Rightarrow> bool" where
  "utf8Valid s =
     (if s = [] then True
      else if utf8Head s = 0 then False
      else utf8Valid (drop (utf8Head s) s))"
  by pat_completeness auto
termination
  by (relation "measure length") auto

declare utf8Valid.simps [simp del]

text \<open>\<^verbatim>\<open>strings.Builder.WriteRune\<close> of a rune below 256.\<close>

definition runeBytes :: "char \<Rightarrow> bytes" where
  "runeBytes c =
     (if byteVal c < 128 then [c]
      else [char_of (192 + byteVal c div 64), char_of (128 + byteVal c mod 64)])"

lemma utf8Valid_Nil [simp]: "utf8Valid []"
  by (simp add: utf8Valid.simps)

lemma utf8Valid_step:
  "utf8Head s = n \<Longrightarrow> 0 < n \<Longrightarrow> utf8Valid s = utf8Valid (drop n s)"
  by (subst utf8Valid.simps) (auto simp: utf8Head_def)

lemma utf8Head_two:
  "byteIn 194 223 a \<Longrightarrow> byteIn 128 191 b \<Longrightarrow> utf8Head (a # b # s) = 2"
  by (simp add: utf8Head_def byteIn_def)

lemma utf8Head_runeBytes:
  "utf8Head (runeBytes c @ s) = length (runeBytes c)"
proof (cases "byteVal c < 128")
  case True
  then show ?thesis by (simp add: runeBytes_def utf8Head_def)
next
  case False
  define q m where "q = byteVal c div 64" and "m = byteVal c mod 64"
  have "byteVal c < 256" by simp
  with False have q: "2 \<le> q" "q \<le> 3" unfolding q_def by linarith+
  have m: "m < 64" by (simp add: m_def)
  have "byteIn 194 223 (char_of (192 + q))" using q by (simp add: byteIn_def)
  moreover have "byteIn 128 191 (char_of (128 + m))" using m by (simp add: byteIn_def)
  ultimately show ?thesis
    using False by (simp add: runeBytes_def utf8Head_two flip: q_def m_def)
qed

lemma utf8Valid_runeBytes_append [simp]: "utf8Valid (runeBytes c @ s) = utf8Valid s"
proof -
  have "0 < length (runeBytes c)" by (simp add: runeBytes_def)
  with utf8Valid_step [OF utf8Head_runeBytes, of c s] show ?thesis by simp
qed

text \<open>Bytes read as code points and written back as runes are valid UTF-8.\<close>

lemma utf8Valid_concat_runeBytes: "utf8Valid (concat (map runeBytes s))"
  by (induction s) auto

subsection \<open>JSON strings\<close>

definition uEscape :: "char \<Rightarrow> string" where
  "uEscape c = [CHR 0x5C] @ ''u00'' @ [hexLower (byteVal c div 16), hexLower (byteVal c mod 16)]"

definition jsonEscapeAscii :: "char \<Rightarrow> string" where
  "jsonEscapeAscii c =
     (if c = CHR 0x22 \<or> c = CHR 0x5C then [CHR 0x5C, c]
      else if c = CHR 0x08 then [CHR 0x5C, CHR ''b'']
      else if c = CHR 0x0C then [CHR 0x5C, CHR ''f'']
      else if c = CHR 0x0A then [CHR 0x5C, CHR ''n'']
      else if c = CHR 0x0D then [CHR 0x5C, CHR ''r'']
      else if c = CHR 0x09 then [CHR 0x5C, CHR ''t'']
      else if byteVal c < 32 \<or> c = CHR ''<'' \<or> c = CHR ''>'' \<or> c = CHR ''&'' then uEscape c
      else [c])"

text \<open>\<^verbatim>\<open>json.Marshal\<close> of a string: a byte that starts no valid rune becomes the escape of U+FFFD.\<close>

function jsonStringBody :: "bytes \<Rightarrow> string" where
  "jsonStringBody s =
     (if s = [] then []
      else if byteVal (hd s) < 128 then jsonEscapeAscii (hd s) @ jsonStringBody (tl s)
      else if utf8Head s = 0 then [CHR 0x5C] @ ''ufffd'' @ jsonStringBody (tl s)
      else if take 3 s = [CHR 0xE2, CHR 0x80, CHR 0xA8] then [CHR 0x5C] @ ''u2028'' @ jsonStringBody (drop 3 s)
      else if take 3 s = [CHR 0xE2, CHR 0x80, CHR 0xA9] then [CHR 0x5C] @ ''u2029'' @ jsonStringBody (drop 3 s)
      else take (utf8Head s) s @ jsonStringBody (drop (utf8Head s) s))"
  by pat_completeness auto
termination
  by (relation "measure length") auto

declare jsonStringBody.simps [simp del]

definition jsonMarshalString :: "bytes \<Rightarrow> string" where
  "jsonMarshalString s = [CHR 0x22] @ jsonStringBody s @ [CHR 0x22]"

lemma uEscape_printable: "list_all (\<lambda>c'. 32 \<le> byteVal c') (uEscape c)"
proof -
  have "32 \<le> byteVal (hexLower n)" if "n < 16" for n
    using less_16_cases [OF that] by (auto simp: hexLower_def byteVal_def)
  then show ?thesis by (simp add: uEscape_def) (simp add: byteVal_def)
qed

lemma jsonEscapeAscii_printable: "list_all (\<lambda>c'. 32 \<le> byteVal c') (jsonEscapeAscii c)"
proof -
  have "32 \<le> byteVal (CHR 0x5C)" "32 \<le> byteVal (CHR 0x22)" "32 \<le> byteVal (CHR ''b'')"
    "32 \<le> byteVal (CHR ''f'')" "32 \<le> byteVal (CHR ''n'')" "32 \<le> byteVal (CHR ''r'')"
    "32 \<le> byteVal (CHR ''t'')"
    by (simp_all add: byteVal_def)
  then show ?thesis using uEscape_printable [of c] by (auto simp: jsonEscapeAscii_def)
qed

lemma utf8Head_multi:
  assumes "128 \<le> byteVal a"
  shows "utf8Head (a # r) = 0 \<or>
     (\<exists>b r'. r = b # r' \<and> utf8Head (a # r) = 2 \<and> 128 \<le> byteVal b) \<or>
     (\<exists>b c r'. r = b # c # r' \<and> utf8Head (a # r) = 3 \<and> 128 \<le> byteVal b \<and> 128 \<le> byteVal c) \<or>
     (\<exists>b c d r'. r = b # c # d # r' \<and> utf8Head (a # r) = 4 \<and> 128 \<le> byteVal b \<and>
        128 \<le> byteVal c \<and> 128 \<le> byteVal d)"
proof (cases r)
  case Nil
  with assms show ?thesis by (simp add: utf8Head_def)
next
  case (Cons b r1)
  with assms show ?thesis
    by (cases r1; cases "tl r1") (auto simp: utf8Head_def byteIn_def split: if_splits)
qed

lemma utf8Head_continuation:
  assumes "128 \<le> byteVal a"
  shows "list_all (\<lambda>c. 32 \<le> byteVal c) (take (utf8Head (a # r)) (a # r))"
  using utf8Head_multi [OF assms, of r] assms by (elim disjE exE conjE) auto

lemma jsonStringBody_printable: "list_all (\<lambda>c. 32 \<le> byteVal c) (jsonStringBody s)"
proof (induction s rule: jsonStringBody.induct)
  case (1 s)
  have lits: "32 \<le> byteVal (CHR 0x5C)" "32 \<le> byteVal (CHR ''u'')" "32 \<le> byteVal (CHR ''f'')"
    "32 \<le> byteVal (CHR ''d'')" "32 \<le> byteVal (CHR ''2'')" "32 \<le> byteVal (CHR ''0'')"
    "32 \<le> byteVal (CHR ''8'')" "32 \<le> byteVal (CHR ''9'')"
    by (simp_all add: byteVal_def)
  show ?case
  proof (cases s)
    case Nil
    then show ?thesis by (simp add: jsonStringBody.simps)
  next
    case (Cons a r)
    with 1 lits jsonEscapeAscii_printable [of a] utf8Head_continuation [of a r]
    show ?thesis by (subst jsonStringBody.simps) (simp add: not_less)
  qed
qed

text \<open>The UTF-8 encoding of a rune; a surrogate or a value out of range becomes U+FFFD.\<close>

definition utf8Encode :: "nat \<Rightarrow> bytes" where
  "utf8Encode n =
     (if n < 128 then [char_of n]
      else if n < 2048 then [char_of (192 + n div 64), char_of (128 + n mod 64)]
      else if (55296 \<le> n \<and> n < 57344) \<or> 1114112 \<le> n then [CHR 0xEF, CHR 0xBF, CHR 0xBD]
      else if n < 65536 then
        [char_of (224 + n div 4096), char_of (128 + n div 64 mod 64), char_of (128 + n mod 64)]
      else
        [char_of (240 + n div 262144), char_of (128 + n div 4096 mod 64),
         char_of (128 + n div 64 mod 64), char_of (128 + n mod 64)])"

definition isHex :: "char \<Rightarrow> bool" where
  "isHex c \<longleftrightarrow> isDigit c \<or> (97 \<le> byteVal c \<and> byteVal c \<le> 102) \<or> (65 \<le> byteVal c \<and> byteVal c \<le> 70)"

definition hex4 :: "bytes \<Rightarrow> nat option" where
  "hex4 s = (case s of
      a # b # c # d # _ \<Rightarrow>
        if isHex a \<and> isHex b \<and> isHex c \<and> isHex d
        then Some (((hexVal a * 16 + hexVal b) * 16 + hexVal c) * 16 + hexVal d) else None
    | _ \<Rightarrow> None)"

text \<open>
  The reader of \<^verbatim>\<open>encoding/json\<close> behind an opening quote: the decoded string and what follows the
  closing quote.  A high surrogate takes the low surrogate behind it, an unpaired one and an
  invalid byte read as U+FFFD.
\<close>

function jsonReadBody :: "bytes \<Rightarrow> (bytes \<times> bytes) option" where
  "jsonReadBody s = (case s of
      [] \<Rightarrow> None
    | c # r \<Rightarrow>
        if c = CHR 0x22 then Some ([], r)
        else if byteVal c < 32 then None
        else if c = CHR 0x5C then (case r of
            [] \<Rightarrow> None
          | e # t \<Rightarrow>
              if e = CHR 0x22 \<or> e = CHR 0x5C \<or> e = CHR ''/'' then map_option (apfst ((@) [e])) (jsonReadBody t)
              else if e = CHR ''b'' then map_option (apfst ((@) [CHR 0x08])) (jsonReadBody t)
              else if e = CHR ''f'' then map_option (apfst ((@) [CHR 0x0C])) (jsonReadBody t)
              else if e = CHR ''n'' then map_option (apfst ((@) [CHR 0x0A])) (jsonReadBody t)
              else if e = CHR ''r'' then map_option (apfst ((@) [CHR 0x0D])) (jsonReadBody t)
              else if e = CHR ''t'' then map_option (apfst ((@) [CHR 0x09])) (jsonReadBody t)
              else if e = CHR ''u'' then (case hex4 t of
                  None \<Rightarrow> None
                | Some n \<Rightarrow>
                    (case (if 55296 \<le> n \<and> n < 56320 \<and> take 2 (drop 4 t) = [CHR 0x5C, CHR ''u'']
                           then hex4 (drop 6 t) else None) of
                       Some m \<Rightarrow>
                         if 56320 \<le> m \<and> m < 57344
                         then map_option (apfst ((@) (utf8Encode (65536 + (n - 55296) * 1024 + (m - 56320)))))
                                (jsonReadBody (drop 10 t))
                         else map_option (apfst ((@) (utf8Encode n))) (jsonReadBody (drop 4 t))
                     | None \<Rightarrow> map_option (apfst ((@) (utf8Encode n))) (jsonReadBody (drop 4 t))))
              else None)
        else if byteVal c < 128 then map_option (apfst ((@) [c])) (jsonReadBody r)
        else if utf8Head s = 0
        then map_option (apfst ((@) [CHR 0xEF, CHR 0xBF, CHR 0xBD])) (jsonReadBody r)
        else map_option (apfst ((@) (take (utf8Head s) s))) (jsonReadBody (drop (utf8Head s) s)))"
  by pat_completeness auto
termination
  by (relation "measure length") auto

declare jsonReadBody.simps [simp del]

text \<open>The length of the encoding at the head depends only on its own bytes.\<close>

lemma utf8Head_local:
  assumes "128 \<le> byteVal a"
  shows "utf8Head (a # b # s) = 2 \<Longrightarrow> utf8Head (a # b # t) = 2"
    and "utf8Head (a # b # c # s) = 3 \<Longrightarrow> utf8Head (a # b # c # t) = 3"
    and "utf8Head (a # b # c # d # s) = 4 \<Longrightarrow> utf8Head (a # b # c # d # t) = 4"
proof -
  have na: "\<not> byteVal a < 128" using assms by simp
  consider "byteIn 194 223 a" | "\<not> byteIn 194 223 a" "byteIn 224 239 a"
    | "\<not> byteIn 194 223 a" "\<not> byteIn 224 239 a" "byteIn 240 244 a"
    | "\<not> byteIn 194 223 a" "\<not> byteIn 224 239 a" "\<not> byteIn 240 244 a" by blast
  then have "(utf8Head (a # b # s) = 2 \<longrightarrow> utf8Head (a # b # t) = 2) \<and>
      (utf8Head (a # b # c # s) = 3 \<longrightarrow> utf8Head (a # b # c # t) = 3) \<and>
      (utf8Head (a # b # c # d # s) = 4 \<longrightarrow> utf8Head (a # b # c # d # t) = 4)"
    by cases (use na in \<open>simp_all add: utf8Head_def split: list.split\<close>)
  then show "utf8Head (a # b # s) = 2 \<Longrightarrow> utf8Head (a # b # t) = 2"
    and "utf8Head (a # b # c # s) = 3 \<Longrightarrow> utf8Head (a # b # c # t) = 3"
    and "utf8Head (a # b # c # d # s) = 4 \<Longrightarrow> utf8Head (a # b # c # d # t) = 4" by auto
qed

lemma utf8Head_take:
  assumes "128 \<le> byteVal a" and "utf8Head (a # r) \<noteq> 0"
  shows "utf8Head (take (utf8Head (a # r)) (a # r) @ t) = utf8Head (a # r)"
    and "length (take (utf8Head (a # r)) (a # r)) = utf8Head (a # r)"
proof -
  have "utf8Head (take (utf8Head (a # r)) (a # r) @ t) = utf8Head (a # r) \<and>
      length (take (utf8Head (a # r)) (a # r)) = utf8Head (a # r)"
    using utf8Head_multi [OF assms(1), of r] assms(2)
  proof (elim disjE exE conjE)
    fix b r' assume "r = b # r'" "utf8Head (a # r) = 2"
    then show ?thesis using utf8Head_local(1) [OF assms(1), of b r' t] by simp
  next
    fix b c r' assume "r = b # c # r'" "utf8Head (a # r) = 3"
    then show ?thesis using utf8Head_local(2) [OF assms(1), of b c r' t] by simp
  next
    fix b c d r' assume "r = b # c # d # r'" "utf8Head (a # r) = 4"
    then show ?thesis using utf8Head_local(3) [OF assms(1), of b c d r' t] by simp
  qed simp
  then show "utf8Head (take (utf8Head (a # r)) (a # r) @ t) = utf8Head (a # r)"
    and "length (take (utf8Head (a # r)) (a # r)) = utf8Head (a # r)" by auto
qed

lemma isHex_hexLower: "n < 16 \<Longrightarrow> isHex (hexLower n)"
  by (drule less_16_cases) (auto simp: hexLower_def isHex_def isDigit_def byteVal_def)

lemma jsonReadBody_uEscape:
  assumes "byteVal c < 128"
  shows "jsonReadBody (uEscape c @ t) = map_option (apfst ((@) [c])) (jsonReadBody t)"
proof -
  have "isHex (CHR ''0'')" "hexVal (CHR ''0'') = 0" by (simp_all add: isHex_def isDigit_def hexVal_def digitVal_def byteVal_def)
  then have hex: "hex4 (CHR ''0'' # CHR ''0'' # hexLower (byteVal c div 16) # hexLower (byteVal c mod 16) # t)
      = Some (byteVal c)"
    by (simp add: hex4_def isHex_hexLower)
  have bs: "\<not> byteVal (CHR 0x5C) < 32" by (simp add: byteVal_def)
  have enc: "utf8Encode (byteVal c) = [c]" using assms by (simp add: utf8Encode_def)
  have low: "\<not> 55296 \<le> byteVal c" using assms by simp
  show ?thesis
    by (subst jsonReadBody.simps) (simp add: uEscape_def hex bs enc low)
qed

lemma jsonReadBody_ascii:
  assumes "byteVal c < 128"
  shows "jsonReadBody (jsonEscapeAscii c @ t) = map_option (apfst ((@) [c])) (jsonReadBody t)"
proof -
  let ?short = "{CHR 0x22, CHR 0x5C, CHR 0x08, CHR 0x0C, CHR 0x0A, CHR 0x0D, CHR 0x09}"
  have bs: "byteVal (CHR 0x5C) = 92" by (simp add: byteVal_def)
  consider (short) "c \<in> ?short"
    | (u) "c \<notin> ?short" "byteVal c < 32 \<or> c = CHR ''<'' \<or> c = CHR ''>'' \<or> c = CHR ''&''"
    | (plain) "c \<notin> ?short" "\<not> (byteVal c < 32 \<or> c = CHR ''<'' \<or> c = CHR ''>'' \<or> c = CHR ''&'')"
    by argo
  then show ?thesis
  proof cases
    case short
    then show ?thesis
      by (elim insertE emptyE) (subst jsonReadBody.simps; simp add: jsonEscapeAscii_def bs)+
  next
    case u
    then have "jsonEscapeAscii c = uEscape c" by (simp add: jsonEscapeAscii_def)
    with jsonReadBody_uEscape [OF assms] show ?thesis by simp
  next
    case plain
    then have "jsonEscapeAscii c = [c]" by (simp add: jsonEscapeAscii_def)
    with plain assms show ?thesis by (subst jsonReadBody.simps) simp
  qed
qed

lemma jsonReadBody_multi:
  assumes "128 \<le> byteVal a" and "utf8Head (a # r) \<noteq> 0"
  shows "jsonReadBody (take (utf8Head (a # r)) (a # r) @ t) =
     map_option (apfst ((@) (take (utf8Head (a # r)) (a # r)))) (jsonReadBody t)"
proof -
  let ?n = "utf8Head (a # r)" and ?x = "take (utf8Head (a # r)) (a # r) @ t"
  note head = utf8Head_take [OF assms]
  obtain y where x: "?x = a # y" using assms(2) by (cases ?n) auto
  have "byteVal (CHR 0x22) = 34" "byteVal (CHR 0x5C) = 92" by (simp_all add: byteVal_def)
  with assms(1) have not: "a \<noteq> CHR 0x22" "\<not> byteVal a < 32" "a \<noteq> CHR 0x5C" "\<not> byteVal a < 128" by auto
  have "utf8Head (a # y) = ?n" "take ?n (a # y) = take ?n (a # r)" "drop ?n (a # y) = t"
    using head x by (metis append_eq_conv_conj)+
  then show ?thesis unfolding x using not assms(2) by (subst jsonReadBody.simps) simp
qed

lemma jsonReadBody_separators:
  "jsonReadBody ([CHR 0x5C] @ ''u2028'' @ t) =
     map_option (apfst ((@) [CHR 0xE2, CHR 0x80, CHR 0xA8])) (jsonReadBody t)"
  "jsonReadBody ([CHR 0x5C] @ ''u2029'' @ t) =
     map_option (apfst ((@) [CHR 0xE2, CHR 0x80, CHR 0xA9])) (jsonReadBody t)"
proof -
  have "byteVal (CHR 0xE2) = 226" "byteVal (CHR 0x80) = 128" "byteVal (CHR 0xA8) = 168"
    "byteVal (CHR 0xA9) = 169"
    by (simp_all add: byteVal_def)
  then have "char_of (226::nat) = CHR 0xE2" "char_of (128::nat) = CHR 0x80" "char_of (168::nat) = CHR 0xA8"
    "char_of (169::nat) = CHR 0xA9"
    by (metis char_of_byteVal)+
  then have u: "utf8Encode 8232 = [CHR 0xE2, CHR 0x80, CHR 0xA8]"
    "utf8Encode 8233 = [CHR 0xE2, CHR 0x80, CHR 0xA9]"
    by (simp_all add: utf8Encode_def)
  show "jsonReadBody ([CHR 0x5C] @ ''u2028'' @ t) =
     map_option (apfst ((@) [CHR 0xE2, CHR 0x80, CHR 0xA8])) (jsonReadBody t)"
    by (subst jsonReadBody.simps)
      (simp add: hex4_def isHex_def isDigit_def hexVal_def digitVal_def byteVal_def u)
  show "jsonReadBody ([CHR 0x5C] @ ''u2029'' @ t) =
     map_option (apfst ((@) [CHR 0xE2, CHR 0x80, CHR 0xA9])) (jsonReadBody t)"
    by (subst jsonReadBody.simps)
      (simp add: hex4_def isHex_def isDigit_def hexVal_def digitVal_def byteVal_def u)
qed

text \<open>What \<^verbatim>\<open>json.Marshal\<close> writes for a valid string, the reader reads back.\<close>

lemma jsonReadBody_jsonStringBody:
  "utf8Valid s \<Longrightarrow> jsonReadBody (jsonStringBody s @ CHR 0x22 # t) = Some (s, t)"
proof (induction s rule: jsonStringBody.induct)
  case (1 s)
  show ?case
  proof (cases s)
    case Nil
    then show ?thesis by (simp add: jsonStringBody.simps) (subst jsonReadBody.simps, simp)
  next
    case (Cons a r)
    show ?thesis
    proof (cases "byteVal a < 128")
      case True
      have "utf8Head (a # r) = 1" using True by (simp add: utf8Head_def)
      with 1(6) Cons have "utf8Valid r" using utf8Valid_step [of s 1] by simp
      with 1(1) Cons True have "jsonReadBody (jsonStringBody r @ CHR 0x22 # t) = Some (r, t)" by simp
      with Cons True jsonReadBody_ascii [of a "jsonStringBody r @ CHR 0x22 # t"] show ?thesis
        by (simp add: jsonStringBody.simps [of "_ # _"])
    next
      case False
      let ?n = "utf8Head s"
      from 1(6) Cons have n: "?n \<noteq> 0" by (subst (asm) utf8Valid.simps) (auto split: if_splits)
      have valid: "utf8Valid (drop ?n s)" using 1(6) n utf8Valid_step [of s ?n] by simp
      consider (a) "take 3 s = [CHR 0xE2, CHR 0x80, CHR 0xA8]"
        | (b) "take 3 s = [CHR 0xE2, CHR 0x80, CHR 0xA9]"
        | (other) "take 3 s \<noteq> [CHR 0xE2, CHR 0x80, CHR 0xA8]" "take 3 s \<noteq> [CHR 0xE2, CHR 0x80, CHR 0xA9]"
        by blast
      then show ?thesis
      proof cases
        case a
        then obtain q where q: "s = CHR 0xE2 # CHR 0x80 # CHR 0xA8 # q"
          by (cases s; cases "tl s"; cases "tl (tl s)"; auto)
        then have "?n = 3" by (simp add: utf8Head_def byteIn_def byteVal_def)
        with valid 1(3) Cons False n a have "jsonReadBody (jsonStringBody (drop 3 s) @ CHR 0x22 # t) = Some (drop 3 s, t)"
          by simp
        with Cons False n a q jsonReadBody_separators(1) [of "jsonStringBody (drop 3 s) @ CHR 0x22 # t"]
        show ?thesis by (auto simp: jsonStringBody.simps [of "_ # _"])
      next
        case b
        then obtain q where q: "s = CHR 0xE2 # CHR 0x80 # CHR 0xA9 # q"
          by (cases s; cases "tl s"; cases "tl (tl s)"; auto)
        then have "?n = 3" by (simp add: utf8Head_def byteIn_def byteVal_def)
        with valid 1(4) Cons False n b have "jsonReadBody (jsonStringBody (drop 3 s) @ CHR 0x22 # t) = Some (drop 3 s, t)"
          by simp
        with Cons False n b q jsonReadBody_separators(2) [of "jsonStringBody (drop 3 s) @ CHR 0x22 # t"]
        show ?thesis by (auto simp: jsonStringBody.simps [of "_ # _"])
      next
        case other
        with valid 1(5) Cons False n have
          "jsonReadBody (jsonStringBody (drop ?n s) @ CHR 0x22 # t) = Some (drop ?n s, t)" by simp
        with jsonReadBody_multi [of a r "jsonStringBody (drop ?n s) @ CHR 0x22 # t"] Cons False n
        have "jsonReadBody (take ?n s @ jsonStringBody (drop ?n s) @ CHR 0x22 # t) = Some (s, t)"
          by simp
        with Cons False n other show ?thesis by (auto simp: jsonStringBody.simps [of "_ # _"])
      qed
    qed
  qed
qed

subsection \<open>SHA-256\<close>

type_synonym u32 = "32 word"

definition sha256K :: "u32 list" where
  "sha256K =
    [1116352408, 1899447441, 3049323471, 3921009573, 961987163, 1508970993, 2453635748, 2870763221,
     3624381080, 310598401, 607225278, 1426881987, 1925078388, 2162078206, 2614888103, 3248222580,
     3835390401, 4022224774, 264347078, 604807628, 770255983, 1249150122, 1555081692, 1996064986,
     2554220882, 2821834349, 2952996808, 3210313671, 3336571891, 3584528711, 113926993, 338241895,
     666307205, 773529912, 1294757372, 1396182291, 1695183700, 1986661051, 2177026350, 2456956037,
     2730485921, 2820302411, 3259730800, 3345764771, 3516065817, 3600352804, 4094571909, 275423344,
     430227734, 506948616, 659060556, 883997877, 958139571, 1322822218, 1537002063, 1747873779,
     1955562222, 2024104815, 2227730452, 2361852424, 2428436474, 2756734187, 3204031479, 3329325298]"

definition rotr32 :: "nat \<Rightarrow> u32 \<Rightarrow> u32" where
  "rotr32 n x = drop_bit n x OR push_bit (32 - n) x"

fun sha256Schedule :: "nat \<Rightarrow> u32 list \<Rightarrow> u32 list" where
  "sha256Schedule 0 ws = ws"
| "sha256Schedule (Suc n) ws =
     (let t = length ws; a = ws ! (t - 15); b = ws ! (t - 2);
          s0 = rotr32 7 a XOR rotr32 18 a XOR drop_bit 3 a;
          s1 = rotr32 17 b XOR rotr32 19 b XOR drop_bit 10 b
      in sha256Schedule n (ws @ [ws ! (t - 16) + s0 + ws ! (t - 7) + s1]))"

type_synonym sha_state = "u32 \<times> u32 \<times> u32 \<times> u32 \<times> u32 \<times> u32 \<times> u32 \<times> u32"

fun sha256Round :: "u32 \<times> u32 \<Rightarrow> sha_state \<Rightarrow> sha_state" where
  "sha256Round (k, w) (a, b, c, d, e, f, g, h) =
     (let t1 = h + (rotr32 6 e XOR rotr32 11 e XOR rotr32 25 e)
                 + ((e AND f) XOR (NOT e AND g)) + k + w;
          t2 = (rotr32 2 a XOR rotr32 13 a XOR rotr32 22 a)
                 + ((a AND b) XOR (a AND c) XOR (b AND c))
      in (t1 + t2, a, b, c, d + t1, e, f, g))"

fun addState :: "sha_state \<Rightarrow> sha_state \<Rightarrow> sha_state" where
  "addState (a, b, c, d, e, f, g, h) (a', b', c', d', e', f', g', h') =
     (a + a', b + b', c + c', d + d', e + e', f + f', g + g', h + h')"

fun bytesToWords :: "nat list \<Rightarrow> u32 list" where
  "bytesToWords (a # b # c # d # r) =
     of_nat (((a * 256 + b) * 256 + c) * 256 + d) # bytesToWords r"
| "bytesToWords _ = []"

definition sha256Block :: "sha_state \<Rightarrow> nat list \<Rightarrow> sha_state" where
  "sha256Block st blk =
     addState st (fold sha256Round (zip sha256K (sha256Schedule 48 (bytesToWords blk))) st)"

definition bigEndian :: "nat \<Rightarrow> nat \<Rightarrow> nat list" where
  "bigEndian k n = map (\<lambda>i. (n div 256 ^ (k - 1 - i)) mod 256) [0..<k]"

definition sha256Pad :: "nat list \<Rightarrow> nat list" where
  "sha256Pad m =
     m @ [128] @ replicate ((119 - length m mod 64) mod 64) 0 @ bigEndian 8 (8 * length m)"

fun sha256Blocks :: "sha_state \<Rightarrow> nat \<Rightarrow> nat list \<Rightarrow> sha_state" where
  "sha256Blocks st 0 m = st"
| "sha256Blocks st (Suc n) m = sha256Blocks (sha256Block st (take 64 m)) n (drop 64 m)"

definition sha256 :: "bytes \<Rightarrow> bytes" where
  "sha256 s =
     (let m = sha256Pad (map byteVal s);
          (a, b, c, d, e, f, g, h) = sha256Blocks
            (0x6a09e667, 0xbb67ae85, 0x3c6ef372, 0xa54ff53a, 0x510e527f, 0x9b05688c, 0x1f83d9ab, 0x5be0cd19)
            (length m div 64) m
      in map char_of (concat (map (\<lambda>w. bigEndian 4 (unat w)) [a, b, c, d, e, f, g, h])))"

lemma length_sha256 [simp]: "length (sha256 s) = 32"
  by (simp add: sha256_def Let_def bigEndian_def split: prod.split)

end
