(* ===== verification/Transform.thy ===== *)
theory Transform
  imports Event Config GoEncoding
begin

unbundle bit_operations_syntax

text \<open>
  \<^verbatim>\<open>internal/pipeline/transform.go\<close>: the compiled mapping of a stream and the encoding of a row
  into a document.

  What the file takes from outside the repository and the part of the library that computes
  with floats is an argument, the record \<open>go_env\<close>: the shortest decimal text of a float and the
  text of a decimal of the shopspring package.  No property relies on what they return.

  \<open>IndexPanic\<close> stands for the run-time panic of an index out of range.
\<close>

record go_env =
  fmtFloat32g :: "32 word \<Rightarrow> string"
  fmtFloat64g :: "64 word \<Rightarrow> string"
  fmtFloat64f :: "64 word \<Rightarrow> string"
  sprintFloat32 :: "32 word \<Rightarrow> string"
  sprintFloat64 :: "64 word \<Rightarrow> string"
  sprintTime :: "time \<Rightarrow> string"
  decString :: "decimal \<Rightarrow> string"
  decStringFixed :: "decimal \<Rightarrow> int \<Rightarrow> string"

datatype dialect = DialectElasticsearch | DialectClickHouse

definition maxKeyBytes :: nat where
  "maxKeyBytes = 512"

abbreviation (input) zeroDateNull :: string where
  "zeroDateNull \<equiv> ''null''"

abbreviation (input) zeroDateEpoch :: string where
  "zeroDateEpoch \<equiv> ''epoch''"

abbreviation (input) zeroDateError :: string where
  "zeroDateError \<equiv> ''error''"

record field =
  f_position :: nat
  f_name :: string
  f_kind :: kind
  f_jsonKey :: bytes
  f_enumLabels :: "string list"
  f_setLabels :: "string list"
  f_needsCharsetConversion :: bool
  f_timePrecision :: int

record plan =
  p_meta :: table_meta
  p_dialect :: dialect
  p_sourceZone :: location
  p_zeroDate :: string
  p_fields :: "field list"
  p_keyPositions :: "nat list"
  p_keyNames :: "string list"
  p_keyFields :: "field list"

subsection \<open>Compilation\<close>

datatype compile_error =
    NoTableDefinition
  | UnknownZeroDatePolicy string
  | KeyError schema_error
  | SelectError schema_error
  | MapError schema_error
  | CharsetUnsupported string string
  | KeyColumnMissing string string
  | ClickHouseKeyNotWritten string

definition charsetNeedsConversion :: "column \<Rightarrow> compile_error + bool" where
  "charsetNeedsConversion c =
     (let cs = toLower (col_CharacterSet c) in
      if cs \<in> {'''', ''utf8'', ''utf8mb3'', ''utf8mb4'', ''ascii'', ''binary''} then Inr False
      else if cs = ''latin1'' then Inr True
      else Inl (CharsetUnsupported (col_Name c) (col_CharacterSet c)))"

definition destinationName :: "mapping \<Rightarrow> column \<Rightarrow> string" where
  "destinationName mp c = (case map_of (mp_Rename mp) (col_Name c) of
      Some renamed \<Rightarrow> if renamed \<noteq> '''' then renamed else col_Name c
    | None \<Rightarrow> col_Name c)"

definition compileField :: "mapping \<Rightarrow> column \<Rightarrow> compile_error + field" where
  "compileField mp c = (case schemaMap c of
      Inl e \<Rightarrow> Inl (MapError e)
    | Inr m \<Rightarrow> (case charsetNeedsConversion c of
        Inl e \<Rightarrow> Inl e
      | Inr needsConversion \<Rightarrow>
          Inr \<lparr>f_position = col_Position c, f_name = destinationName mp c, f_kind = m_Kind m,
               f_jsonKey = jsonMarshalString (destinationName mp c) @ '':'',
               f_enumLabels = col_EnumValues c, f_setLabels = col_SetValues c,
               f_needsCharsetConversion = needsConversion,
               f_timePrecision = col_DateTimePrecision c\<rparr>))"

fun compileKeys ::
    "table_meta \<Rightarrow> field list \<Rightarrow> string list \<Rightarrow> compile_error + nat list \<times> field list" where
  "compileKeys t flds [] = Inr ([], [])"
| "compileKeys t flds (name # names) = (case Column t name of
      None \<Rightarrow> Inl (KeyColumnMissing name (Name t))
    | Some c \<Rightarrow> (case compileKeys t flds names of
        Inl e \<Rightarrow> Inl e
      | Inr (positions, keyFields) \<Rightarrow>
          Inr (col_Position c # positions,
               (case find (\<lambda>f. f_position f = col_Position c) flds of
                  Some f \<Rightarrow> f # keyFields
                | None \<Rightarrow> keyFields))))"

definition Compile ::
    "table_meta option \<Rightarrow> mapping \<Rightarrow> dialect \<Rightarrow> location option \<Rightarrow> string \<Rightarrow> compile_error + plan" where
  "Compile meta mp dialect sourceZone zeroDate = (case meta of
      None \<Rightarrow> Inl NoTableDefinition
    | Some t \<Rightarrow>
       (let zone = (case sourceZone of None \<Rightarrow> UTC | Some z \<Rightarrow> z);
            policy = (if zeroDate = '''' then zeroDateNull else zeroDate)
        in if policy \<notin> {zeroDateNull, zeroDateEpoch, zeroDateError}
           then Inl (UnknownZeroDatePolicy zeroDate)
           else (case ResolveKey t (mp_Key mp) of
             Inl e \<Rightarrow> Inl (KeyError e)
           | Inr key \<Rightarrow> (case SelectColumns t (mp_Include mp) (mp_Exclude mp) key of
               Inl e \<Rightarrow> Inl (SelectError e)
             | Inr selected \<Rightarrow> (case mapResult (compileField mp) selected of
                 Inl e \<Rightarrow> Inl e
               | Inr flds \<Rightarrow> (case compileKeys t flds key of
                   Inl e \<Rightarrow> Inl e
                 | Inr (positions, keyFields) \<Rightarrow>
                     if dialect = DialectClickHouse \<and> length keyFields \<noteq> length key
                     then Inl (ClickHouseKeyNotWritten (Name t))
                     else Inr \<lparr>p_meta = t, p_dialect = dialect, p_sourceZone = zone,
                               p_zeroDate = policy, p_fields = flds,
                               p_keyPositions = positions, p_keyNames = key,
                               p_keyFields = keyFields\<rparr>))))))"

definition Fields :: "plan \<Rightarrow> string list" where
  "Fields p = map f_name (p_fields p)"

definition KeyNames :: "plan \<Rightarrow> string list" where
  "KeyNames p = p_keyNames p"

subsection \<open>Errors of a row\<close>

datatype transform_error =
    NilEvent
  | NoValues string
  | RowTooShort string nat nat
  | KeyBeyondRow string
  | KeyNull string
  | UnhandledKind string kind
  | BoolExpected string val
  | IntExpected string val
  | NegativeUnsigned string int
  | UintExpected string val
  | FloatExpected string val
  | DecimalExpected string val
  | EnumExpected string val
  | EnumOutOfRange string int nat
  | SetExpected string val
  | JSONExpected string val
  | BytesExpected string val
  | TextExpected string val
  | NotUTF8 string string
  | ZeroDate string string
  | UnparsableTime string string
  | TimeExpected string val
  | IndexPanic

subsection \<open>Document keys\<close>

definition keyString :: "go_env \<Rightarrow> val \<Rightarrow> string" where
  "keyString env v = (case v of
      VString s \<Rightarrow> s
    | VBytes b \<Rightarrow> b
    | VUint64 w \<Rightarrow> formatUint w
    | VInt64 w \<Rightarrow> formatInt w
    | VDecimal d \<Rightarrow> decString env d
    | VNil \<Rightarrow> ''<nil>''
    | VInt32 w \<Rightarrow> showInt (sint w)
    | VInt16 w \<Rightarrow> showInt (sint w)
    | VInt8 w \<Rightarrow> showInt (sint w)
    | VInt w \<Rightarrow> showInt (sint w)
    | VUint32 w \<Rightarrow> showInt (uint w)
    | VUint16 w \<Rightarrow> showInt (uint w)
    | VUint8 w \<Rightarrow> showInt (uint w)
    | VUint w \<Rightarrow> showInt (uint w)
    | VFloat32 w \<Rightarrow> sprintFloat32 env w
    | VFloat64 w \<Rightarrow> sprintFloat64 env w
    | VTime t \<Rightarrow> sprintTime env t)"

definition unreserved :: "char \<Rightarrow> bool" where
  "unreserved c \<longleftrightarrow>
     (97 \<le> byteVal c \<and> byteVal c \<le> 122) \<or> (65 \<le> byteVal c \<and> byteVal c \<le> 90) \<or>
     (48 \<le> byteVal c \<and> byteVal c \<le> 57) \<or>
     c = CHR ''-'' \<or> c = CHR ''_'' \<or> c = CHR ''.'' \<or> c = CHR ''~''"

fun escapeKeyPart :: "string \<Rightarrow> string" where
  "escapeKeyPart [] = []"
| "escapeKeyPart (c # s) =
     (if unreserved c then c # escapeKeyPart s
      else CHR 0x25 # hexUpper (byteVal c div 16) # hexUpper (byteVal c mod 16) # escapeKeyPart s)"

text \<open>The loop of \<^verbatim>\<open>key\<close>: the escaped parts, one per key column.\<close>

fun keyParts :: "go_env \<Rightarrow> (nat \<times> string) list \<Rightarrow> row \<Rightarrow> transform_error + string list" where
  "keyParts env [] row = Inr []"
| "keyParts env ((pos, name) # rest) row =
     (if length row \<le> pos then Inl (KeyBeyondRow name)
      else if row ! pos = VNil then Inl (KeyNull name)
      else (case keyParts env rest row of
              Inl e \<Rightarrow> Inl e
            | Inr parts \<Rightarrow> Inr (escapeKeyPart (keyString env (row ! pos)) # parts)))"

definition key :: "go_env \<Rightarrow> plan \<Rightarrow> row \<Rightarrow> transform_error + string" where
  "key env p row = (case keyParts env (zip (p_keyPositions p) (p_keyNames p)) row of
      Inl e \<Rightarrow> Inl e
    | Inr parts \<Rightarrow>
        let k = joinWith '':'' parts in
        if maxKeyBytes < length k then Inr (''h'' @ hexEncode (sha256 k)) else Inr k)"

subsection \<open>Encoding values\<close>

definition asInt :: "val \<Rightarrow> u64 option" where
  "asInt v = (case v of
      VInt64 x \<Rightarrow> Some x
    | VInt32 x \<Rightarrow> Some (scast x)
    | VInt16 x \<Rightarrow> Some (scast x)
    | VInt8 x \<Rightarrow> Some (scast x)
    | VInt x \<Rightarrow> Some x
    | VUint64 x \<Rightarrow> Some x
    | VUint32 x \<Rightarrow> Some (ucast x)
    | VUint16 x \<Rightarrow> Some (ucast x)
    | VUint8 x \<Rightarrow> Some (ucast x)
    | VUint x \<Rightarrow> Some x
    | _ \<Rightarrow> None)"

definition jsonByte :: "char \<Rightarrow> string" where
  "jsonByte c =
     (if c = CHR 0x22 then [CHR 0x5C, CHR 0x22]
      else if c = CHR 0x5C then [CHR 0x5C, CHR 0x5C]
      else if c = CHR 0x0A then [CHR 0x5C, CHR ''n'']
      else if c = CHR 0x0D then [CHR 0x5C, CHR ''r'']
      else if c = CHR 0x09 then [CHR 0x5C, CHR ''t'']
      else if byteVal c < 32 then uEscape c
      else [c])"

definition appendJSONString :: "bytes \<Rightarrow> string \<Rightarrow> bytes" where
  "appendJSONString buf s = buf @ [CHR 0x22] @ concat (map jsonByte s) @ [CHR 0x22]"

definition appendBool :: "bytes \<Rightarrow> field \<Rightarrow> val \<Rightarrow> transform_error + bytes" where
  "appendBool buf f v = (case asInt v of
      None \<Rightarrow> Inl (BoolExpected (f_name f) v)
    | Some n \<Rightarrow> Inr (buf @ (if n \<noteq> 0 then ''true'' else ''false'')))"

definition appendInt :: "bytes \<Rightarrow> field \<Rightarrow> val \<Rightarrow> transform_error + bytes" where
  "appendInt buf f v = (case v of
      VUint64 x \<Rightarrow> Inr (buf @ formatUint x)
    | _ \<Rightarrow> (case asInt v of
        None \<Rightarrow> Inl (IntExpected (f_name f) v)
      | Some n \<Rightarrow> Inr (buf @ formatInt n)))"

definition appendUint :: "bytes \<Rightarrow> field \<Rightarrow> val \<Rightarrow> transform_error + bytes" where
  "appendUint buf f v = (case v of
      VUint64 x \<Rightarrow> Inr (buf @ formatUint x)
    | VInt64 x \<Rightarrow>
        if sint x < 0 then Inl (NegativeUnsigned (f_name f) (sint x)) else Inr (buf @ formatInt x)
    | _ \<Rightarrow> (case asInt v of
        None \<Rightarrow> Inl (UintExpected (f_name f) v)
      | Some n \<Rightarrow> Inr (buf @ formatInt n)))"

definition appendFloat :: "go_env \<Rightarrow> bytes \<Rightarrow> field \<Rightarrow> val \<Rightarrow> transform_error + bytes" where
  "appendFloat env buf f v = (case v of
      VFloat32 x \<Rightarrow> Inr (buf @ fmtFloat32g env x)
    | VFloat64 x \<Rightarrow> Inr (buf @ fmtFloat64g env x)
    | _ \<Rightarrow> Inl (FloatExpected (f_name f) v))"

definition decimalText :: "go_env \<Rightarrow> val \<Rightarrow> string option" where
  "decimalText env v = (case v of
      VDecimal (Decimal c e) \<Rightarrow> Some (decStringFixed env (Decimal c e) (if - e < 0 then 0 else - e))
    | VString s \<Rightarrow> Some s
    | VBytes b \<Rightarrow> Some b
    | VFloat64 x \<Rightarrow> Some (fmtFloat64f env x)
    | _ \<Rightarrow> None)"

definition appendDecimal ::
    "go_env \<Rightarrow> plan \<Rightarrow> bytes \<Rightarrow> field \<Rightarrow> val \<Rightarrow> transform_error + bytes" where
  "appendDecimal env p buf f v = (case decimalText env v of
      None \<Rightarrow> Inl (DecimalExpected (f_name f) v)
    | Some text \<Rightarrow>
        if p_dialect p = DialectElasticsearch then Inr (appendJSONString buf text)
        else Inr (buf @ text))"

definition appendEnum :: "bytes \<Rightarrow> field \<Rightarrow> val \<Rightarrow> transform_error + bytes" where
  "appendEnum buf f v = (case asInt v of
      None \<Rightarrow> Inl (EnumExpected (f_name f) v)
    | Some w \<Rightarrow>
        (let n = sint w in
         if n = 0 then Inr (appendJSONString buf '''')
         else if 1 \<le> n \<and> n \<le> int (length (f_enumLabels f))
         then Inr (appendJSONString buf (f_enumLabels f ! nat (n - 1)))
         else Inl (EnumOutOfRange (f_name f) n (length (f_enumLabels f)))))"

text \<open>The labels whose bit is set, in declaration order, from position \<^term>\<open>i::nat\<close> on.\<close>

fun setMembers :: "u64 \<Rightarrow> nat \<Rightarrow> string list \<Rightarrow> string list" where
  "setMembers bits i [] = []"
| "setMembers bits i (label # labels) =
     (if bits AND push_bit i 1 = 0 then setMembers bits (Suc i) labels
      else label # setMembers bits (Suc i) labels)"

text \<open>The loop of \<^verbatim>\<open>appendSet\<close>, with its \<^verbatim>\<open>first\<close> flag.\<close>

fun appendMembers :: "bytes \<Rightarrow> bool \<Rightarrow> string list \<Rightarrow> bytes" where
  "appendMembers buf first [] = buf"
| "appendMembers buf first (label # labels) =
     appendMembers (appendJSONString (if first then buf else buf @ '','') label) False labels"

definition appendSet :: "bytes \<Rightarrow> field \<Rightarrow> val \<Rightarrow> transform_error + bytes" where
  "appendSet buf f v = (case asInt v of
      None \<Rightarrow> Inl (SetExpected (f_name f) v)
    | Some bits \<Rightarrow>
        Inr (appendMembers (buf @ ''['') True (setMembers bits 0 (f_setLabels f)) @ '']''))"

definition appendRawJSON :: "bytes \<Rightarrow> field \<Rightarrow> val \<Rightarrow> transform_error + bytes" where
  "appendRawJSON buf f v =
     (let raw = (case v of VBytes b \<Rightarrow> Some b | VString s \<Rightarrow> Some s | _ \<Rightarrow> None)
      in case raw of
           None \<Rightarrow> Inl (JSONExpected (f_name f) v)
         | Some b \<Rightarrow> if b = [] then Inr (buf @ ''null'') else Inr (buf @ b))"

definition appendBase64 :: "bytes \<Rightarrow> field \<Rightarrow> val \<Rightarrow> transform_error + bytes" where
  "appendBase64 buf f v = (case v of
      VBytes b \<Rightarrow> Inr (appendJSONString buf (base64Encode b))
    | VString s \<Rightarrow> Inr (appendJSONString buf (base64Encode s))
    | _ \<Rightarrow> Inl (BytesExpected (f_name f) v))"

definition stringValue :: "field \<Rightarrow> val \<Rightarrow> transform_error + string" where
  "stringValue f v =
     (let raw = (case v of VString s \<Rightarrow> Some s | VBytes b \<Rightarrow> Some b | _ \<Rightarrow> None)
      in case raw of
           None \<Rightarrow> Inl (TextExpected (f_name f) v)
         | Some s \<Rightarrow>
             if f_needsCharsetConversion f then Inr (concat (map runeBytes s))
             else if \<not> utf8Valid s then Inl (NotUTF8 (f_name f) (hexEncode s))
             else Inr s)"

definition appendString :: "bytes \<Rightarrow> field \<Rightarrow> val \<Rightarrow> transform_error + bytes" where
  "appendString buf f v = (case stringValue f v of
      Inl e \<Rightarrow> Inl e
    | Inr text \<Rightarrow> Inr (appendJSONString buf text))"

definition isZeroDate :: "string \<Rightarrow> bool" where
  "isZeroDate s = hasPrefix s ''0000-00-00''"

definition mysqlLayouts :: "chunk list list" where
  "mysqlLayouts =
     [dateLayout @ [Lit CHR '' ''] @ clockLayout @ [FracSecond9],
      dateLayout @ [Lit CHR '' ''] @ clockLayout,
      dateLayout,
      clockLayout @ [FracSecond9]]"

fun firstParse :: "chunk list list \<Rightarrow> string \<Rightarrow> location \<Rightarrow> time option" where
  "firstParse [] s zone = None"
| "firstParse (layout # layouts) s zone = (case parseInLocation layout s zone of
      Some t \<Rightarrow> Some t
    | None \<Rightarrow> firstParse layouts s zone)"

definition parseMySQLTime :: "string \<Rightarrow> location \<Rightarrow> time option" where
  "parseMySQLTime s zone = firstParse mysqlLayouts s zone"

definition appendTime :: "plan \<Rightarrow> bytes \<Rightarrow> field \<Rightarrow> val \<Rightarrow> transform_error + bytes" where
  "appendTime p buf f v = (case v of
      VTime x \<Rightarrow> Inr (appendJSONString buf (formatRFC3339Nano x))
    | VString x \<Rightarrow>
        (if isZeroDate x then
           (if p_zeroDate p = zeroDateNull then Inr (buf @ ''null'')
            else if p_zeroDate p = zeroDateEpoch
            then Inr (appendJSONString buf (formatRFC3339 (ofUnix 0)))
            else Inl (ZeroDate (f_name f) x))
         else
           (let zone = (if f_kind f = KindTimestamp then UTC else p_sourceZone p)
            in case parseMySQLTime x zone of
                 None \<Rightarrow> Inl (UnparsableTime (f_name f) x)
               | Some parsed \<Rightarrow> Inr (appendJSONString buf (formatRFC3339Nano parsed))))
    | _ \<Rightarrow> Inl (TimeExpected (f_name f) v))"

definition encodeValue ::
    "go_env \<Rightarrow> plan \<Rightarrow> bytes \<Rightarrow> field \<Rightarrow> val \<Rightarrow> transform_error + bytes" where
  "encodeValue env p buf f v =
     (if v = VNil then Inr (buf @ ''null'')
      else (case f_kind f of
          KindBool \<Rightarrow> appendBool buf f v
        | KindInt \<Rightarrow> appendInt buf f v
        | KindYear \<Rightarrow> appendInt buf f v
        | KindTime \<Rightarrow> appendInt buf f v
        | KindBit \<Rightarrow> appendInt buf f v
        | KindUint \<Rightarrow> appendUint buf f v
        | KindFloat \<Rightarrow> appendFloat env buf f v
        | KindDecimal \<Rightarrow> appendDecimal env p buf f v
        | KindEnum \<Rightarrow> appendEnum buf f v
        | KindSet \<Rightarrow> appendSet buf f v
        | KindJSON \<Rightarrow> appendRawJSON buf f v
        | KindBytes \<Rightarrow> appendBase64 buf f v
        | KindString \<Rightarrow> appendString buf f v
        | KindDate \<Rightarrow> appendTime p buf f v
        | KindDateTime \<Rightarrow> appendTime p buf f v
        | KindTimestamp \<Rightarrow> appendTime p buf f v
        | KindInvalid \<Rightarrow> Inl (UnhandledKind (f_name f) (f_kind f))))"

text \<open>The loop of \<^verbatim>\<open>encodeFields\<close>; the flag is its test \<^verbatim>\<open>i > 0\<close>.\<close>

fun encodeLoop ::
    "go_env \<Rightarrow> plan \<Rightarrow> bytes \<Rightarrow> bool \<Rightarrow> field list \<Rightarrow> row \<Rightarrow> transform_error + bytes" where
  "encodeLoop env p buf later [] row = Inr buf"
| "encodeLoop env p buf later (f # fs) row =
     (if length row \<le> f_position f then Inl IndexPanic
      else (case encodeValue env p ((if later then buf @ '','' else buf) @ f_jsonKey f) f
                   (row ! f_position f) of
              Inl e \<Rightarrow> Inl e
            | Inr buf' \<Rightarrow> encodeLoop env p buf' True fs row))"

definition encodeFields :: "go_env \<Rightarrow> plan \<Rightarrow> field list \<Rightarrow> row \<Rightarrow> transform_error + bytes" where
  "encodeFields env p flds row = (case encodeLoop env p ''{'' False flds row of
      Inl e \<Rightarrow> Inl e
    | Inr buf \<Rightarrow> Inr (buf @ ''}''))"

definition encode :: "go_env \<Rightarrow> plan \<Rightarrow> row \<Rightarrow> transform_error + bytes" where
  "encode env p row = encodeFields env p (p_fields p) row"

subsection \<open>Events to documents\<close>

definition checkWidth :: "plan \<Rightarrow> row option \<Rightarrow> transform_error option" where
  "checkWidth p row = (case row of
      None \<Rightarrow> Some (NoValues (Name (p_meta p)))
    | Some r \<Rightarrow>
        if length r < length (tm_Columns (p_meta p))
        then Some (RowTooShort (Name (p_meta p)) (length r) (length (tm_Columns (p_meta p))))
        else None)"

definition applyDelete ::
    "go_env \<Rightarrow> plan \<Rightarrow> change_event \<Rightarrow> row \<Rightarrow> transform_error + doc list" where
  "applyDelete env p ev row = (case key env p row of
      Inl e \<Rightarrow> Inl e
    | Inr k \<Rightarrow>
        (let d = \<lparr>doc_Key = k, doc_Body = [], doc_Version = ev_Seq ev, doc_Deleted = True\<rparr>
         in if p_dialect p = DialectClickHouse then
              (case encodeFields env p (p_keyFields p) row of
                 Inl e \<Rightarrow> Inl e
               | Inr body \<Rightarrow> Inr [d\<lparr>doc_Body := body\<rparr>])
            else Inr [d]))"

definition applyUpsert ::
    "go_env \<Rightarrow> plan \<Rightarrow> change_event \<Rightarrow> row \<Rightarrow> transform_error + doc list" where
  "applyUpsert env p ev row = (case key env p row of
      Inl e \<Rightarrow> Inl e
    | Inr newKey \<Rightarrow> (case encode env p row of
        Inl e \<Rightarrow> Inl e
      | Inr body \<Rightarrow>
          (let write = \<lparr>doc_Key = newKey, doc_Body = body, doc_Version = ev_Seq ev,
                        doc_Deleted = False\<rparr>
           in case (if ev_Operation ev = OperationUpdate then ev_Before ev else None) of
                None \<Rightarrow> Inr [write]
              | Some before \<Rightarrow> (case checkWidth p (Some before) of
                  Some e \<Rightarrow> Inl e
                | None \<Rightarrow> (case key env p before of
                    Inl e \<Rightarrow> Inl e
                  | Inr oldKey \<Rightarrow>
                      if oldKey \<noteq> newKey
                      then Inr [\<lparr>doc_Key = oldKey, doc_Body = [], doc_Version = ev_Seq ev,
                                 doc_Deleted = True\<rparr>, write]
                      else Inr [write])))))"

definition Apply :: "go_env \<Rightarrow> plan \<Rightarrow> change_event option \<Rightarrow> transform_error + doc list" where
  "Apply env p ev = (case ev of
      None \<Rightarrow> Inl NilEvent
    | Some e \<Rightarrow> (case checkWidth p (Values e) of
        Some err \<Rightarrow> Inl err
      | None \<Rightarrow>
          (let row = the (Values e)
           in if ev_Operation e = OperationDelete then applyDelete env p e row
              else applyUpsert env p e row)))"

subsection \<open>Keys identify rows\<close>

text \<open>Percent-decoding, which undoes \<^verbatim>\<open>escapeKeyPart\<close>.\<close>

fun unescapeKeyPart :: "string \<Rightarrow> string" where
  "unescapeKeyPart (c # a # b # s) =
     (if c = CHR 0x25 then char_of (16 * hexVal a + hexVal b) # unescapeKeyPart s
      else c # unescapeKeyPart (a # b # s))"
| "unescapeKeyPart s = s"

lemma unescapeKeyPart_plain [simp]:
  "c \<noteq> CHR 0x25 \<Longrightarrow> unescapeKeyPart (c # s) = c # unescapeKeyPart s"
  by (cases s rule: unescapeKeyPart.cases) auto

lemma unreserved_not_percent: "unreserved c \<Longrightarrow> c \<noteq> CHR 0x25"
  by (auto simp: unreserved_def byteVal_def)

lemma unescapeKeyPart_escapeKeyPart [simp]: "unescapeKeyPart (escapeKeyPart s) = s"
  by (induction s) (simp_all add: unreserved_not_percent)

lemma hexUpper_not_colon [simp]: "n < 16 \<Longrightarrow> hexUpper n \<noteq> CHR '':''"
  by (drule less_16_cases) (auto simp: hexUpper_def)

lemma escapeKeyPart_no_colon: "CHR '':'' \<notin> set (escapeKeyPart s)"
proof (induction s)
  case (Cons c s)
  have "unreserved c \<Longrightarrow> c \<noteq> CHR '':''" by (auto simp: unreserved_def byteVal_def)
  with Cons show ?case
    using hexUpper_not_colon [of "byteVal c div 16", THEN not_sym]
      hexUpper_not_colon [of "byteVal c mod 16", THEN not_sym]
    by auto
qed simp

lemma keyParts_Inr:
  "keyParts env kps row = Inr parts \<longleftrightarrow>
     list_all (\<lambda>(pos, _). pos < length row \<and> row ! pos \<noteq> VNil) kps \<and>
     parts = map (\<lambda>(pos, _). escapeKeyPart (keyString env (row ! pos))) kps"
proof (induction kps arbitrary: parts)
  case (Cons kp kps)
  obtain pos name where "kp = (pos, name)" by (cases kp)
  with Cons.IH show ?case
    by (cases "length row \<le> pos"; cases "row ! pos = VNil"; cases "keyParts env kps row") auto
qed auto

text \<open>The key of a row before the limit on its length is applied.\<close>

definition plainKey :: "go_env \<Rightarrow> plan \<Rightarrow> row \<Rightarrow> string" where
  "plainKey env p row =
     joinWith '':'' (map (\<lambda>pos. escapeKeyPart (keyString env (row ! pos))) (p_keyPositions p))"

lemma key_Inr:
  assumes "length (p_keyNames p) = length (p_keyPositions p)" and "key env p row = Inr k"
  shows "k = (if maxKeyBytes < length (plainKey env p row)
              then ''h'' @ hexEncode (sha256 (plainKey env p row)) else plainKey env p row)"
    and "list_all (\<lambda>pos. pos < length row \<and> row ! pos \<noteq> VNil) (p_keyPositions p)"
proof -
  let ?kps = "zip (p_keyPositions p) (p_keyNames p)"
  have positions: "map fst ?kps = p_keyPositions p" using assms(1) by simp
  have parts: "map (\<lambda>(pos, _). escapeKeyPart (keyString env (row ! pos))) ?kps =
      map (\<lambda>pos. escapeKeyPart (keyString env (row ! pos))) (p_keyPositions p)"
    by (subst (2) positions [symmetric]) (simp add: case_prod_unfold)
  from assms(2) parts show "k = (if maxKeyBytes < length (plainKey env p row)
      then ''h'' @ hexEncode (sha256 (plainKey env p row)) else plainKey env p row)"
    by (auto simp: key_def plainKey_def keyParts_Inr Let_def split: sum.splits if_splits)
  from assms(2) have "list_all (\<lambda>(pos, _). pos < length row \<and> row ! pos \<noteq> VNil) ?kps"
    by (auto simp: key_def keyParts_Inr split: sum.splits)
  then have "list_all (\<lambda>pos. pos < length row \<and> row ! pos \<noteq> VNil) (map fst ?kps)"
    by (simp add: list.pred_map comp_def case_prod_unfold)
  then show "list_all (\<lambda>pos. pos < length row \<and> row ! pos \<noteq> VNil) (p_keyPositions p)"
    by (simp only: positions)
qed

lemma plainKey_inject:
  assumes "plainKey env p row = plainKey env p row'" and "pos \<in> set (p_keyPositions p)"
  shows "keyString env (row ! pos) = keyString env (row' ! pos)"
proof -
  from assms(1) have "map (\<lambda>pos. escapeKeyPart (keyString env (row ! pos))) (p_keyPositions p) =
      map (\<lambda>pos. escapeKeyPart (keyString env (row' ! pos))) (p_keyPositions p)"
    unfolding plainKey_def by (rule joinWith_inject [rotated 3]) (auto simp: escapeKeyPart_no_colon)
  with assms(2) have "escapeKeyPart (keyString env (row ! pos)) =
      escapeKeyPart (keyString env (row' ! pos))"
    by simp
  then show ?thesis by (metis unescapeKeyPart_escapeKeyPart)
qed

lemma length_key:
  assumes "key env p row = Inr k"
  shows "length k \<le> maxKeyBytes"
  using assms by (auto simp: key_def maxKeyBytes_def Let_def split: sum.splits if_splits)

subsection \<open>JSON strings\<close>

text \<open>
  The reader of a JSON string: it undoes the escapes of RFC 8259 (of the \<^verbatim>\<open>\u\<close> escapes, those
  of a byte), refuses an unescaped quote inside, an unknown escape and a raw control character.
\<close>

fun jsonUnescape :: "string \<Rightarrow> string option" where
  "jsonUnescape [] = None"
| "jsonUnescape (c # s) =
     (if c = CHR 0x22 then (if s = [] then Some [] else None)
      else if byteVal c < 32 then None
      else if c \<noteq> CHR 0x5C then map_option ((#) c) (jsonUnescape s)
      else (case s of
          [] \<Rightarrow> None
        | e # r \<Rightarrow>
            if e = CHR 0x22 \<or> e = CHR 0x5C \<or> e = CHR ''/'' then map_option ((#) e) (jsonUnescape r)
            else if e = CHR ''n'' then map_option ((#) (CHR 0x0A)) (jsonUnescape r)
            else if e = CHR ''r'' then map_option ((#) (CHR 0x0D)) (jsonUnescape r)
            else if e = CHR ''t'' then map_option ((#) (CHR 0x09)) (jsonUnescape r)
            else if e = CHR ''u'' then (case r of
                z # z' # a # b # r' \<Rightarrow>
                  if z = CHR ''0'' \<and> z' = CHR ''0''
                  then map_option ((#) (char_of (16 * hexVal a + hexVal b))) (jsonUnescape r')
                  else None
              | _ \<Rightarrow> None)
            else None))"

definition jsonUnquote :: "string \<Rightarrow> string option" where
  "jsonUnquote s = (case s of c # r \<Rightarrow> if c = CHR 0x22 then jsonUnescape r else None | [] \<Rightarrow> None)"

lemma jsonUnescape_jsonByte:
  "jsonUnescape (jsonByte c @ s) = map_option ((#) c) (jsonUnescape s)"
proof -
  consider "c \<in> {CHR 0x22, CHR 0x5C, CHR 0x0A, CHR 0x0D, CHR 0x09}"
    | (control) "c \<notin> {CHR 0x22, CHR 0x5C, CHR 0x0A, CHR 0x0D, CHR 0x09}" "byteVal c < 32"
    | (plain) "c \<notin> {CHR 0x22, CHR 0x5C, CHR 0x0A, CHR 0x0D, CHR 0x09}" "\<not> byteVal c < 32"
    by blast
  then show ?thesis
  proof cases
    case 1
    then show ?thesis by (elim insertE emptyE) (simp_all add: jsonByte_def byteVal_def)
  next
    case control
    then have "jsonByte c = uEscape c" by (simp add: jsonByte_def)
    then show ?thesis
      by (simp add: uEscape_def byteVal_def [of "CHR 0x5C"])
  next
    case plain
    then have "jsonByte c = [c]" by (simp add: jsonByte_def)
    with plain show ?thesis by simp
  qed
qed

lemma jsonUnescape_body:
  "jsonUnescape (concat (map jsonByte s) @ [CHR 0x22]) = Some s"
  by (induction s) (simp_all add: jsonUnescape_jsonByte)

lemma appendJSONString_buf: "appendJSONString buf s = buf @ appendJSONString [] s"
  by (simp add: appendJSONString_def)

subsection \<open>The body of a document\<close>

lemma appendMembers_buf: "appendMembers buf first ls = buf @ appendMembers [] first ls"
proof (induction ls arbitrary: buf first)
  case (Cons l ls)
  let ?q = "appendJSONString [] l"
  have "appendMembers buf first (l # ls) =
      appendMembers (buf @ (if first then [] else '','') @ ?q) False ls"
    by (simp add: appendJSONString_def)
  also have "\<dots> = buf @ (if first then [] else '','') @ ?q @ appendMembers [] False ls"
    using Cons.IH [of "buf @ (if first then [] else '','') @ ?q" False] by simp
  also have "\<dots> = buf @ appendMembers ((if first then [] else '','') @ ?q) False ls"
    using Cons.IH [of "(if first then [] else '','') @ ?q" False] by simp
  also have "\<dots> = buf @ appendMembers [] first (l # ls)"
    by (simp add: appendJSONString_def)
  finally show ?case .
qed simp

lemma encodeValue_buf:
  "encodeValue env p buf f v = map_sum id ((@) buf) (encodeValue env p [] f v)"
proof -
  have set: "appendSet buf f v = map_sum id ((@) buf) (appendSet [] f v)"
    using appendMembers_buf [of "buf @ ''[''"] appendMembers_buf [of "''[''"]
    by (auto simp: appendSet_def split: option.splits)
  have time: "appendTime p buf f v = map_sum id ((@) buf) (appendTime p [] f v)"
    by (auto simp: appendTime_def appendJSONString_buf [of buf] Let_def
        split: val.splits option.splits)
  show ?thesis
    by (cases "f_kind f")
      (auto simp: encodeValue_def appendBool_def appendInt_def appendUint_def appendFloat_def
        appendDecimal_def appendEnum_def appendRawJSON_def appendBase64_def appendString_def
        appendJSONString_buf [of buf] set time Let_def split: option.splits val.splits sum.splits)
qed

text \<open>One member of the object: the field's name and its value, or the error.\<close>

definition encodeMember :: "go_env \<Rightarrow> plan \<Rightarrow> row \<Rightarrow> field \<Rightarrow> transform_error + bytes" where
  "encodeMember env p row f =
     (if length row \<le> f_position f then Inl IndexPanic
      else map_sum id ((@) (f_jsonKey f)) (encodeValue env p [] f (row ! f_position f)))"

lemma encodeLoop_members:
  "encodeLoop env p buf later fs row = (case mapResult (encodeMember env p row) fs of
      Inl e \<Rightarrow> Inl e
    | Inr ms \<Rightarrow> Inr (buf @ (if later \<and> ms \<noteq> [] then '','' else []) @ joinWith '','' ms))"
proof (induction fs arbitrary: buf later)
  case (Cons f fs)
  show ?case
  proof (cases "length row \<le> f_position f")
    case False
    show ?thesis
    proof (cases "encodeValue env p [] f (row ! f_position f)")
      case (Inl e)
      with False show ?thesis
        by (simp add: encodeMember_def encodeValue_buf [of env p "_ @ _"])
    next
      case (Inr b)
      with False Cons.IH show ?thesis
        by (auto simp: encodeMember_def encodeValue_buf [of env p "_ @ _"] joinWith_Cons
            split: sum.splits)
    qed
  qed (simp add: encodeMember_def)
qed simp

lemma encodeFields_members:
  "encodeFields env p fs row =
     map_sum id (\<lambda>ms. ''{'' @ joinWith '','' ms @ ''}'') (mapResult (encodeMember env p row) fs)"
  by (simp add: encodeFields_def encodeLoop_members split: sum.splits)

subsection \<open>No index out of range\<close>

lemma encodeValue_no_panic: "encodeValue env p buf f v \<noteq> Inl IndexPanic"
  by (cases "f_kind f")
    (auto simp: encodeValue_def appendBool_def appendInt_def appendUint_def appendFloat_def
      appendDecimal_def appendEnum_def appendSet_def appendRawJSON_def appendBase64_def
      appendString_def stringValue_def appendTime_def Let_def split: option.splits val.splits if_splits)

lemma encodeLoop_no_panic:
  "(\<And>f. f \<in> set fs \<Longrightarrow> f_position f < length row) \<Longrightarrow>
     encodeLoop env p buf later fs row \<noteq> Inl IndexPanic"
proof (induction fs arbitrary: buf later)
  case (Cons f fs)
  have "f_position f < length row" by (rule Cons.prems) simp
  moreover have "encodeLoop env p b l fs row \<noteq> Inl IndexPanic" for b l
    by (rule Cons.IH) (simp add: Cons.prems)
  ultimately show ?case using encodeValue_no_panic [of env p] by (auto split: sum.splits)
qed simp

lemma encodeFields_no_panic:
  "(\<And>f. f \<in> set fs \<Longrightarrow> f_position f < length row) \<Longrightarrow> encodeFields env p fs row \<noteq> Inl IndexPanic"
  using encodeLoop_no_panic [of fs row env p "''{''" False]
  by (auto simp: encodeFields_def split: sum.splits)

lemma keyParts_no_panic: "keyParts env kps row \<noteq> Inl IndexPanic"
  by (induction kps) (auto split: sum.splits if_splits)

lemma key_no_panic: "key env p row \<noteq> Inl IndexPanic"
  using keyParts_no_panic by (auto simp: key_def Let_def split: sum.splits)

subsection \<open>What a compiled plan holds\<close>

lemma compileKeys_Inr:
  "compileKeys t flds names = Inr (positions, keyFields) \<Longrightarrow>
     length positions = length names \<and> set keyFields \<subseteq> set flds \<and>
     (\<forall>pos \<in> set positions. \<exists>name \<in> set names. \<exists>c. Column t name = Some c \<and> col_Position c = pos)"
proof (induction names arbitrary: positions keyFields)
  case (Cons name names)
  from Cons.prems obtain c ps kfs where c: "Column t name = Some c"
    and rec: "compileKeys t flds names = Inr (ps, kfs)"
    and eq: "positions = col_Position c # ps"
      "keyFields = (case find (\<lambda>f. f_position f = col_Position c) flds of
                      Some f \<Rightarrow> f # kfs | None \<Rightarrow> kfs)"
    by (auto split: option.splits sum.splits)
  from Cons.IH [OF rec] c eq show ?case
    by (auto split: option.splits simp: find_Some_iff)
qed simp

lemma compileField_position: "compileField mp c = Inr f \<Longrightarrow> f_position f = col_Position c"
  by (auto simp: compileField_def split: sum.splits)

lemma Compile_Inr:
  assumes "Compile (Some t) mp d z zd = Inr p"
  obtains names selected where "ResolveKey t (mp_Key mp) = Inr names"
    and "SelectColumns t (mp_Include mp) (mp_Exclude mp) names = Inr selected"
    and "mapResult (compileField mp) selected = Inr (p_fields p)"
    and "compileKeys t (p_fields p) names = Inr (p_keyPositions p, p_keyFields p)"
    and "p_keyNames p = names" and "p_meta p = t" and "p_dialect p = d"
    and "d = DialectClickHouse \<Longrightarrow> length (p_keyFields p) = length names"
  using assms by (auto simp: Compile_def Let_def split: if_splits sum.splits)

lemma Compile_positions:
  assumes "Compile (Some t) mp d z zd = Inr p" and "wellFormed t"
    and "f \<in> set (p_fields p) \<union> set (p_keyFields p)"
  shows "f_position f < length (tm_Columns (p_meta p))"
proof -
  from assms(1) obtain names selected
    where sel: "SelectColumns t (mp_Include mp) (mp_Exclude mp) names = Inr selected"
      and flds: "mapResult (compileField mp) selected = Inr (p_fields p)"
      and keys: "compileKeys t (p_fields p) names = Inr (p_keyPositions p, p_keyFields p)"
      and "p_meta p = t"
    by (elim Compile_Inr)
  from assms(3) compileKeys_Inr [OF keys] have "f \<in> set (p_fields p)" by auto
  from mapResult_set [OF flds this] obtain c where "c \<in> set selected" "compileField mp c = Inr f"
    by auto
  with SelectColumns_filter(1) [OF sel] have "c \<in> set (tm_Columns t)" "f_position f = col_Position c"
    by (auto dest: compileField_position)
  with assms(2) \<open>p_meta p = t\<close> show ?thesis by (simp add: wellFormed_position(1))
qed

lemma Compile_keyNames:
  assumes "Compile (Some t) mp d z zd = Inr p"
  shows "length (p_keyNames p) = length (p_keyPositions p)" and "p_keyNames p \<noteq> []"
  using assms
  by (auto elim!: Compile_Inr dest!: compileKeys_Inr ResolveKey_not_Nil)

subsection \<open>Events and the destination's contents\<close>

text \<open>
  The specification that \<^verbatim>\<open>Apply\<close> implements.  A table is its rows by key; an event changes the
  table; a destination is its documents' bodies by key; a document changes the destination; and
  a destination mirrors a table when it holds the encoding of every row and nothing else.
\<close>

type_synonym table = "string \<rightharpoonup> row"
type_synonym destination = "string \<rightharpoonup> bytes"

definition rowKey :: "go_env \<Rightarrow> plan \<Rightarrow> row \<Rightarrow> string" where
  "rowKey env p row = (case key env p row of Inl _ \<Rightarrow> [] | Inr k \<Rightarrow> k)"

definition tableStep :: "go_env \<Rightarrow> plan \<Rightarrow> change_event \<Rightarrow> table \<Rightarrow> table" where
  "tableStep env p e T =
     (let removed = (case ev_Operation e of
            OperationDelete \<Rightarrow> ev_Before e
          | OperationUpdate \<Rightarrow> ev_Before e
          | _ \<Rightarrow> None);
          added = (if ev_Operation e = OperationDelete then None else ev_After e);
          T1 = (case removed of None \<Rightarrow> T | Some row \<Rightarrow> T(rowKey env p row := None))
      in case added of None \<Rightarrow> T1 | Some row \<Rightarrow> T1(rowKey env p row \<mapsto> row))"

definition applyDoc :: "doc \<Rightarrow> destination \<Rightarrow> destination" where
  "applyDoc d D = D(doc_Key d := (if doc_Deleted d then None else Some (doc_Body d)))"

definition mirror :: "go_env \<Rightarrow> plan \<Rightarrow> table \<Rightarrow> destination" where
  "mirror env p T k = (case T k of
      None \<Rightarrow> None
    | Some row \<Rightarrow> (case encode env p row of Inl _ \<Rightarrow> None | Inr body \<Rightarrow> Some body))"

lemma mirror_remove: "mirror env p (T(k := None)) = (mirror env p T)(k := None)"
  by (auto simp: mirror_def)

lemma mirror_add:
  "encode env p row = Inr body \<Longrightarrow> mirror env p (T(k \<mapsto> row)) = (mirror env p T)(k \<mapsto> body)"
  by (auto simp: mirror_def)

lemma applyDelete_Inr:
  assumes "applyDelete env p e row = Inr docs"
  obtains k body where "key env p row = Inr k"
    and "docs = [\<lparr>doc_Key = k, doc_Body = body, doc_Version = ev_Seq e, doc_Deleted = True\<rparr>]"
  using assms by (auto simp: applyDelete_def Let_def split: sum.splits if_splits)

definition writeDoc :: "string \<Rightarrow> bytes \<Rightarrow> u64 \<Rightarrow> doc" where
  "writeDoc k body v = \<lparr>doc_Key = k, doc_Body = body, doc_Version = v, doc_Deleted = False\<rparr>"

definition removeDoc :: "string \<Rightarrow> u64 \<Rightarrow> doc" where
  "removeDoc k v = \<lparr>doc_Key = k, doc_Body = [], doc_Version = v, doc_Deleted = True\<rparr>"

lemma applyUpsert_Inr:
  assumes "applyUpsert env p e row = Inr docs"
  obtains (same) k body where "key env p row = Inr k" and "encode env p row = Inr body"
      and "docs = [writeDoc k body (ev_Seq e)]"
      and "ev_Operation e \<noteq> OperationUpdate \<or> ev_Before e = None \<or>
           (\<exists>before. ev_Before e = Some before \<and> key env p before = Inr k)"
  | (move) k body before old where "key env p row = Inr k" and "encode env p row = Inr body"
      and "ev_Operation e = OperationUpdate" and "ev_Before e = Some before"
      and "key env p before = Inr old" and "old \<noteq> k"
      and "docs = [removeDoc old (ev_Seq e), writeDoc k body (ev_Seq e)]"
proof -
  from assms obtain k body where k: "key env p row = Inr k" and body: "encode env p row = Inr body"
    by (auto simp: applyUpsert_def split: sum.splits)
  show thesis
  proof (cases "ev_Operation e = OperationUpdate \<and> ev_Before e \<noteq> None")
    case False
    with assms k body have "docs = [writeDoc k body (ev_Seq e)]"
      by (auto simp: applyUpsert_def writeDoc_def Let_def split: option.splits if_splits)
    with False k body show thesis by (intro same) auto
  next
    case True
    then obtain before where before: "ev_Before e = Some before" by auto
    with True assms k body obtain old where old: "key env p before = Inr old"
      by (auto simp: applyUpsert_def Let_def split: option.splits sum.splits)
    from True before old k body assms have docs: "docs =
        (if old \<noteq> k then [removeDoc old (ev_Seq e), writeDoc k body (ev_Seq e)]
         else [writeDoc k body (ev_Seq e)])"
      by (auto simp: applyUpsert_def writeDoc_def removeDoc_def Let_def split: option.splits if_splits)
    show thesis
    proof (cases "old = k")
      case True
      with docs before old k body show thesis by (intro same) auto
    next
      case False
      with docs True before old k body show thesis by (intro move) auto
    qed
  qed
qed

lemma Apply_Inr:
  assumes "Apply env p (Some e) = Inr docs"
  obtains row where "Values e = Some row" and "length (tm_Columns (p_meta p)) \<le> length row"
    and "(if ev_Operation e = OperationDelete then applyDelete env p e row
          else applyUpsert env p e row) = Inr docs"
  using assms by (auto simp: Apply_def checkWidth_def split: option.splits if_splits)

lemma Apply_mirror:
  assumes "Apply env p (Some e) = Inr docs"
  shows "mirror env p (tableStep env p e T) = fold applyDoc docs (mirror env p T)"
proof -
  from assms obtain row where row: "Values e = Some row"
    and docs: "(if ev_Operation e = OperationDelete then applyDelete env p e row
                else applyUpsert env p e row) = Inr docs"
    by (rule Apply_Inr)
  show ?thesis
  proof (cases "ev_Operation e = OperationDelete")
    case True
    with docs have "applyDelete env p e row = Inr docs" by simp
    then show ?thesis
      by (rule applyDelete_Inr)
        (use True row in \<open>simp add: tableStep_def Values_def rowKey_def applyDoc_def mirror_remove\<close>)
  next
    case False
    with docs have "applyUpsert env p e row = Inr docs" by simp
    then show ?thesis
    proof (cases rule: applyUpsert_Inr)
      case (same k body)
      with False row show ?thesis
        by (cases "ev_Operation e"; cases "ev_Before e")
          (auto simp: tableStep_def Values_def rowKey_def applyDoc_def writeDoc_def mirror_add
            mirror_remove)
    next
      case (move k body before old)
      with row show ?thesis
        by (simp add: tableStep_def Values_def rowKey_def applyDoc_def writeDoc_def removeDoc_def
            mirror_add mirror_remove)
    qed
  qed
qed

lemma Apply_mirror_sequence:
  "mapResult (\<lambda>e. Apply env p (Some e)) es = Inr docss \<Longrightarrow>
     mirror env p (fold (tableStep env p) es T) = fold applyDoc (concat docss) (mirror env p T)"
proof (induction es arbitrary: docss T)
  case (Cons e es)
  from Cons.prems obtain docs rest where "Apply env p (Some e) = Inr docs"
    and "mapResult (\<lambda>e. Apply env p (Some e)) es = Inr rest" and "docss = docs # rest"
    by (auto split: sum.splits)
  with Cons.IH [of rest "tableStep env p e T"] show ?case by (simp add: Apply_mirror)
qed simp

lemma key_length_of:
  assumes "Apply env p (Some e) = Inr docs" and "d \<in> set docs"
  shows "length (doc_Key d) \<le> maxKeyBytes"
proof -
  from assms(1) obtain row where "(if ev_Operation e = OperationDelete then applyDelete env p e row
      else applyUpsert env p e row) = Inr docs"
    by (rule Apply_Inr)
  then show ?thesis using assms(2) length_key
    by (auto split: if_splits elim!: applyDelete_Inr applyUpsert_Inr simp: writeDoc_def removeDoc_def)
qed

text \<open>A stream of the example table, for the properties' instances.\<close>

definition exampleEnv :: go_env where
  "exampleEnv = \<lparr>fmtFloat32g = (\<lambda>_. ''0''), fmtFloat64g = (\<lambda>_. ''0''), fmtFloat64f = (\<lambda>_. ''0''),
     sprintFloat32 = (\<lambda>_. ''0''), sprintFloat64 = (\<lambda>_. ''0''), sprintTime = (\<lambda>_. ''0''),
     decString = (\<lambda>_. ''0''), decStringFixed = (\<lambda>_ _. ''0'')\<rparr>"

definition exampleMapping :: mapping where
  "exampleMapping = \<lparr>mp_Key = [], mp_Include = [], mp_Exclude = [''note''],
     mp_Rename = [(''name'', ''title'')], mp_OnZeroDate = []\<rparr>"

definition examplePlan :: plan where
  "examplePlan = projr (Compile (Some exampleTable) exampleMapping DialectElasticsearch None [])"

definition exampleRow :: "u64 \<Rightarrow> string \<Rightarrow> row" where
  "exampleRow i name = [VUint64 i, VString name, VString ''note'']"

definition exampleEvent :: "operation \<Rightarrow> row option \<Rightarrow> row option \<Rightarrow> u64 \<Rightarrow> change_event" where
  "exampleEvent op before after seq =
     \<lparr>ev_Meta = Some exampleTable, ev_Operation = op, ev_Before = before, ev_After = after,
      ev_Timestamp = 0, ev_GTID = ''a:1-2'', ev_TxID = 1, ev_Seq = seq, ev_Cursor = [],
      ev_RowsScanned = 0\<rparr>"

lemma examplePlan_compiled:
  "Compile (Some exampleTable) exampleMapping DialectElasticsearch None [] = Inr examplePlan"
proof -
  have "\<not> isl (Compile (Some exampleTable) exampleMapping DialectElasticsearch None [])"
    by code_simp
  then show ?thesis by (simp add: examplePlan_def)
qed

subsection \<open>Properties\<close>

text \<open>
  C3: The documents of a stream's events keep the destination a mirror of the table.  For every
  sequence of events that \<^verbatim>\<open>Apply\<close> accepts, writing the documents in order to a destination that
  mirrors the table gives a destination that mirrors the table after those events: upserts write
  the encoding of the new row, deletes remove it, and an update that changes the key removes the
  document of the old key.
\<close>

theorem Apply_refines_table:
  assumes "mapResult (\<lambda>e. Apply env p (Some e)) events = Inr docss"
  shows "fold applyDoc (concat docss) (mirror env p T) =
         mirror env p (fold (tableStep env p) events T)"
  using Apply_mirror_sequence [OF assms] by simp

theorem Apply_refines_table_witness:
  "let events = [exampleEvent OperationInsert None (Some (exampleRow 7 ''a'')) 1,
                 exampleEvent OperationUpdate (Some (exampleRow 7 ''a'')) (Some (exampleRow 8 ''b'')) 2]
   in fold applyDoc
        [writeDoc ''7'' (concat [''{'', [CHR 0x22], ''id'', [CHR 0x22], '':7,'', [CHR 0x22], ''title'',
           [CHR 0x22], '':'', [CHR 0x22], ''a'', [CHR 0x22], ''}'']) 1,
         removeDoc ''7'' 2,
         writeDoc ''8'' (concat [''{'', [CHR 0x22], ''id'', [CHR 0x22], '':8,'', [CHR 0x22], ''title'',
           [CHR 0x22], '':'', [CHR 0x22], ''b'', [CHR 0x22], ''}'']) 2]
        (mirror exampleEnv examplePlan Map.empty) =
      mirror exampleEnv examplePlan (fold (tableStep exampleEnv examplePlan) events Map.empty)"
proof -
  let ?events = "[exampleEvent OperationInsert None (Some (exampleRow 7 ''a'')) 1,
    exampleEvent OperationUpdate (Some (exampleRow 7 ''a'')) (Some (exampleRow 8 ''b'')) 2]"
  have "mapResult (\<lambda>e. Apply exampleEnv examplePlan (Some e)) ?events =
    Inr [[writeDoc ''7'' (concat [''{'', [CHR 0x22], ''id'', [CHR 0x22], '':7,'', [CHR 0x22], ''title'',
           [CHR 0x22], '':'', [CHR 0x22], ''a'', [CHR 0x22], ''}'']) 1],
         [removeDoc ''7'' 2,
          writeDoc ''8'' (concat [''{'', [CHR 0x22], ''id'', [CHR 0x22], '':8,'', [CHR 0x22], ''title'',
           [CHR 0x22], '':'', [CHR 0x22], ''b'', [CHR 0x22], ''}'']) 2]]"
    by code_simp
  from Apply_refines_table [OF this, of Map.empty] show ?thesis by (simp add: Let_def)
qed

text \<open>
  C24: Every document of an event carries the event's sequence number as its version and a key of
  at most 512 bytes, and no two documents of an event have the same key, so neither is discarded
  as stale because of the other.  A delete gives exactly one document, a deletion; any other
  event ends with exactly one write.
\<close>

theorem Apply_documents:
  assumes "Apply env p (Some e) = Inr docs"
  shows "(\<forall>d \<in> set docs. doc_Version d = ev_Seq e \<and> length (doc_Key d) \<le> maxKeyBytes) \<and>
     distinct (map doc_Key docs) \<and>
     (if ev_Operation e = OperationDelete then map doc_Deleted docs = [True]
      else map doc_Deleted docs = [False] \<or> map doc_Deleted docs = [True, False])"
proof -
  from assms obtain row where row: "(if ev_Operation e = OperationDelete then applyDelete env p e row
      else applyUpsert env p e row) = Inr docs"
    by (rule Apply_Inr)
  then have "(\<forall>d \<in> set docs. doc_Version d = ev_Seq e) \<and> distinct (map doc_Key docs) \<and>
     (if ev_Operation e = OperationDelete then map doc_Deleted docs = [True]
      else map doc_Deleted docs = [False] \<or> map doc_Deleted docs = [True, False])"
    by (auto split: if_splits elim!: applyDelete_Inr applyUpsert_Inr simp: writeDoc_def removeDoc_def)
  with key_length_of [OF assms] show ?thesis by simp
qed

theorem Apply_documents_witness:
  "distinct (map doc_Key [removeDoc ''7'' 2, writeDoc ''8'' ''{}'' 2])"
proof -
  let ?p = "examplePlan\<lparr>p_fields := []\<rparr>"
  have "Apply exampleEnv ?p (Some (exampleEvent OperationUpdate (Some (exampleRow 7 ''a''))
      (Some (exampleRow 8 ''b'')) 2)) = Inr [removeDoc ''7'' 2, writeDoc ''8'' ''{}'' 2]"
    by code_simp
  from Apply_documents [OF this] show ?thesis by simp
qed

text \<open>
  C25: Rows with the same key agree on every key column.  For two rows that a compiled plan gives
  the same key, neither of which was long enough to be hashed, the text of every key column is the
  same in both: escaping the parts keeps the separator between them unambiguous.
\<close>

theorem key_identifies_row:
  assumes "Compile (Some t) mp d z zd = Inr p"
    and "key env p row = Inr k" and "key env p row' = Inr k"
    and "length (plainKey env p row) \<le> maxKeyBytes" and "length (plainKey env p row') \<le> maxKeyBytes"
  shows "map (\<lambda>pos. keyString env (row ! pos)) (p_keyPositions p) =
         map (\<lambda>pos. keyString env (row' ! pos)) (p_keyPositions p)"
proof -
  note len = Compile_keyNames(1) [OF assms(1)]
  from key_Inr(1) [OF len assms(2)] key_Inr(1) [OF len assms(3)] assms(4,5)
  have "plainKey env p row = plainKey env p row'" by simp
  from plainKey_inject [OF this] show ?thesis by (intro map_cong refl)
qed

theorem key_identifies_row_witness:
  "keyString exampleEnv (exampleRow 7 ''a'' ! 0) = keyString exampleEnv (exampleRow 7 ''b'' ! 0)"
proof -
  have "key exampleEnv examplePlan (exampleRow 7 ''a'') = Inr ''7''" by code_simp
  moreover have "key exampleEnv examplePlan (exampleRow 7 ''b'') = Inr ''7''" by code_simp
  moreover have "plainKey exampleEnv examplePlan (exampleRow 7 ''a'') = ''7''" by code_simp
  moreover have "plainKey exampleEnv examplePlan (exampleRow 7 ''b'') = ''7''" by code_simp
  moreover have "p_keyPositions examplePlan = [0]" by code_simp
  ultimately show ?thesis
    using key_identifies_row [OF examplePlan_compiled, of exampleEnv "exampleRow 7 ''a''" "''7''"
        "exampleRow 7 ''b''"] by (simp add: maxKeyBytes_def)
qed

text \<open>
  C28: A JSON reader gets back the string that \<^verbatim>\<open>appendJSONString\<close> wrote, whatever bytes it holds,
  and the buffer before it is kept.
\<close>

theorem appendJSONString_roundtrip:
  "\<exists>quoted. appendJSONString buf s = buf @ quoted \<and> jsonUnquote quoted = Some s"
  using jsonUnescape_body [of s] by (simp add: appendJSONString_def jsonUnquote_def)

text \<open>
  C27: The body of a document is the JSON object of its members: the buffer that
  \<^verbatim>\<open>encodeFields\<close> grows field by field ends as an opening brace, the members (each the field's
  encoded name and the encoding of its own value, which no other field changes) joined by commas,
  and a closing brace; and the first field that cannot be encoded is the error returned.
\<close>

theorem encode_is_object:
  "encode env p row =
     map_sum id (\<lambda>members. ''{'' @ joinWith '','' members @ ''}'')
       (mapResult (encodeMember env p row) (p_fields p))"
  by (simp add: encode_def encodeFields_members)

text \<open>
  C26: A compiled plan never indexes past the end of a row.  Whatever the event, its operation and
  the widths of its row images, \<^verbatim>\<open>Apply\<close> returns documents or an error and does not panic.
\<close>

theorem Apply_no_panic:
  assumes "Compile (Some t) mp d z zd = Inr p" and "wellFormed t"
  shows "Apply env p ev \<noteq> Inl IndexPanic"
proof (cases ev)
  case None
  then show ?thesis by (simp add: Apply_def)
next
  case (Some e)
  have wide: "encodeFields env p fs row \<noteq> Inl IndexPanic"
    if "length (tm_Columns (p_meta p)) \<le> length row" and "set fs \<subseteq> set (p_fields p) \<union> set (p_keyFields p)"
    for fs row
    using that Compile_positions [OF assms] by (intro encodeFields_no_panic) force
  show ?thesis
  proof (cases "checkWidth p (Values e)")
    case None
    then obtain row where row: "Values e = Some row" "length (tm_Columns (p_meta p)) \<le> length row"
      by (auto simp: checkWidth_def split: option.splits if_splits)
    have "applyDelete env p e row \<noteq> Inl IndexPanic"
      using wide [OF row(2), of "p_keyFields p"] key_no_panic [of env p]
      by (auto simp: applyDelete_def Let_def split: sum.splits if_splits)
    moreover have "applyUpsert env p e row \<noteq> Inl IndexPanic"
      using wide [OF row(2), of "p_fields p"] key_no_panic [of env p]
      by (auto simp: applyUpsert_def encode_def checkWidth_def Let_def
          split: sum.splits option.splits if_splits)
    ultimately show ?thesis using Some None row by (simp add: Apply_def)
  qed (use Some in \<open>auto simp: Apply_def checkWidth_def split: option.splits if_splits\<close>)
qed

theorem Apply_no_panic_witness:
  "Apply exampleEnv examplePlan (Some (exampleEvent OperationInsert None (Some []) 1)) \<noteq> Inl IndexPanic"
  using Apply_no_panic [OF examplePlan_compiled exampleTable_wellFormed] .

text \<open>
  Text reaches a destination only as valid UTF-8: what \<^verbatim>\<open>stringValue\<close> returns is valid, either
  because it was and is unchanged, or because every byte of a latin1 column was rewritten as the
  rune it stands for; anything else is an error.
\<close>

theorem stringValue_valid:
  assumes "stringValue f v = Inr text"
  shows "utf8Valid text"
  using assms by (auto simp: stringValue_def utf8Valid_concat_runeBytes Let_def
      split: option.splits if_splits)

theorem stringValue_valid_witness: "utf8Valid [CHR 0xC3, CHR 0xA9]"
proof -
  let ?f = "\<lparr>f_position = 0, f_name = ''n'', f_kind = KindString, f_jsonKey = [], f_enumLabels = [],
     f_setLabels = [], f_needsCharsetConversion = True, f_timePrecision = 0\<rparr>"
  have "stringValue ?f (VBytes [CHR 0xE9]) = Inr [CHR 0xC3, CHR 0xA9]"
    by code_simp
  from stringValue_valid [OF this] show ?thesis .
qed

end
