(* ===== verification/Batcher.thy ===== *)
theory Batcher
  imports Event
begin

text \<open>
  \<^verbatim>\<open>internal/pipeline/batcher.go\<close>: documents are grouped until a batch reaches a limit.  The clock
  \<^verbatim>\<open>now\<close> is read at most once by each operation, so its reading is an argument.  A batch that Go
  returns as \<^verbatim>\<open>nil\<close> is the empty list; no operation returns an empty batch that is not \<^verbatim>\<open>nil\<close>.

  The interface that the rest of the pipeline relies on is the locale \<open>doc_queue\<close>: documents come
  out in the order they went in, none is lost and none is doubled.
\<close>

record limits =
  lim_MaxRows :: int
  lim_MaxBytes :: u64
  lim_FlushInterval :: int

record batcher =
  b_limits :: limits
  b_pending :: "doc list"
  b_bytes :: u64
  b_startedAt :: time

datatype batcher_error = MaxRowsTooSmall | MaxBytesZero | FlushIntervalZero

definition NewBatcher :: "limits \<Rightarrow> batcher_error + batcher" where
  "NewBatcher limits =
     (if lim_MaxRows limits < 1 then Inl MaxRowsTooSmall
      else if lim_MaxBytes limits = 0 then Inl MaxBytesZero
      else if lim_FlushInterval limits \<le> 0 then Inl FlushIntervalZero
      else Inr \<lparr>b_limits = limits, b_pending = [], b_bytes = 0, b_startedAt = zeroTime\<rparr>)"

definition Flush :: "batcher \<Rightarrow> doc list \<times> batcher" where
  "Flush b =
     (if b_pending b = [] then ([], b)
      else (b_pending b, b\<lparr>b_pending := [], b_bytes := 0, b_startedAt := zeroTime\<rparr>))"

definition append_doc :: "time \<Rightarrow> doc \<Rightarrow> u64 \<Rightarrow> batcher \<Rightarrow> batcher" where
  "append_doc now d n b =
     (let b1 = (if b_pending b = [] then b\<lparr>b_startedAt := now\<rparr> else b)
      in b1\<lparr>b_pending := b_pending b @ [d], b_bytes := b_bytes b + n\<rparr>)"

definition Add :: "time \<Rightarrow> doc \<Rightarrow> batcher \<Rightarrow> doc list \<times> batcher" where
  "Add now d b =
     (let n = (of_nat (docSize d) :: u64)
      in if lim_MaxBytes (b_limits b) \<le> n \<and> b_pending b \<noteq> [] then
           (let (flushed, b1) = Flush b;
                (last, b2) = Flush (append_doc now d n b1)
            in (flushed @ last, b2))
         else if b_pending b \<noteq> [] \<and> lim_MaxBytes (b_limits b) < b_bytes b + n then
           (let (flushed, b1) = Flush b in (flushed, append_doc now d n b1))
         else
           (let b1 = append_doc now d n b
            in if lim_MaxRows (b_limits b1) \<le> int (length (b_pending b1)) \<or>
                  lim_MaxBytes (b_limits b1) \<le> b_bytes b1
               then Flush b1 else ([], b1)))"

definition DueForFlush :: "time \<Rightarrow> batcher \<Rightarrow> bool" where
  "DueForFlush now b \<longleftrightarrow>
     b_pending b \<noteq> [] \<and> \<not> now < b_startedAt b + lim_FlushInterval (b_limits b)"

definition NextDeadline :: "batcher \<Rightarrow> time option" where
  "NextDeadline b =
     (if b_pending b = [] then None else Some (b_startedAt b + lim_FlushInterval (b_limits b)))"

definition Len :: "batcher \<Rightarrow> nat" where
  "Len b = length (b_pending b)"

definition Bytes :: "batcher \<Rightarrow> u64" where
  "Bytes b = b_bytes b"

subsection \<open>The interface\<close>

locale doc_queue =
  fixes add :: "'t \<Rightarrow> 'd \<Rightarrow> 'b \<Rightarrow> 'd list \<times> 'b"
    and flush :: "'b \<Rightarrow> 'd list \<times> 'b"
    and pend :: "'b \<Rightarrow> 'd list"
  assumes add_conserves: "add t d b = (out, b') \<Longrightarrow> out @ pend b' = pend b @ [d]"
    and add_rest: "add t d b = (out, b') \<Longrightarrow> out \<noteq> [] \<Longrightarrow> pend b' = [] \<or> pend b' = [d]"
    and flush_all: "flush b = (out, b') \<Longrightarrow> out = pend b \<and> pend b' = []"
begin

text \<open>A run of additions: the batches that came out, and the queue at the end.\<close>

primrec addAll :: "('t \<times> 'd) list \<Rightarrow> 'b \<Rightarrow> 'd list list \<times> 'b" where
  "addAll [] b = ([], b)"
| "addAll (td # tds) b =
     (let (out, b1) = add (fst td) (snd td) b; (outs, b2) = addAll tds b1 in (out # outs, b2))"

lemma addAll_conserves:
  "addAll tds b = (outs, b') \<Longrightarrow> concat outs @ pend b' = pend b @ map snd tds"
proof (induction tds arbitrary: b outs)
  case (Cons td tds)
  obtain out b1 where a: "add (fst td) (snd td) b = (out, b1)" by force
  obtain os where r: "addAll tds b1 = (os, b')" and "outs = out # os"
    using Cons.prems a by (auto split: prod.splits)
  with Cons.IH [OF r] add_conserves [OF a] show ?case by simp
qed simp

text \<open>What is out before an addition that gives a batch: everything queued before it.\<close>

lemma add_flushes_old:
  assumes "add t d b = (out, b')" and "out \<noteq> []"
  shows "\<exists>rest. out = pend b @ rest \<and> rest @ pend b' = [d]"
proof -
  from add_conserves [OF assms(1)] add_rest [OF assms]
  have "(pend b' = [] \<and> out = pend b @ [d]) \<or> (pend b' = [d] \<and> out = pend b)" by auto
  then show ?thesis by auto
qed

end

lemma Flush_simps [simp]:
  "fst (Flush b) = b_pending b" "b_pending (snd (Flush b)) = []"
  "b_limits (snd (Flush b)) = b_limits b"
  by (auto simp: Flush_def)

lemma append_doc_simps [simp]:
  "b_pending (append_doc now d n b) = b_pending b @ [d]"
  "b_bytes (append_doc now d n b) = b_bytes b + n"
  "b_limits (append_doc now d n b) = b_limits b"
  "b_startedAt (append_doc now d n b) = (if b_pending b = [] then now else b_startedAt b)"
  by (simp_all add: append_doc_def Let_def)

text \<open>The four ways through \<^verbatim>\<open>Add\<close>.\<close>

lemma Add_cases:
  assumes "Add now d b = (out, b')"
  obtains (oversized) "b_pending b \<noteq> []" "lim_MaxBytes (b_limits b) \<le> of_nat (docSize d)"
      "out = b_pending b @ [d]" "b_pending b' = []" "b_limits b' = b_limits b" "b_bytes b' = 0"
  | (overflow) "b_pending b \<noteq> []" "of_nat (docSize d) < lim_MaxBytes (b_limits b)"
      "lim_MaxBytes (b_limits b) < b_bytes b + of_nat (docSize d)"
      "out = b_pending b" "b_pending b' = [d]" "b_limits b' = b_limits b"
      "b_bytes b' = of_nat (docSize d)" "b_startedAt b' = now"
  | (full) "out = b_pending b @ [d]" "b_pending b' = []" "b_limits b' = b_limits b" "b_bytes b' = 0"
  | (kept) "out = []" "b' = append_doc now d (of_nat (docSize d)) b"
      "int (length (b_pending b')) < lim_MaxRows (b_limits b)"
      "b_bytes b' < lim_MaxBytes (b_limits b)"
      "b_pending b = [] \<or> \<not> lim_MaxBytes (b_limits b) < b_bytes b + of_nat (docSize d)"
      "b_pending b = [] \<or> of_nat (docSize d) < lim_MaxBytes (b_limits b)"
proof -
  let ?size = "of_nat (docSize d) :: u64"
  let ?max = "lim_MaxBytes (b_limits b)"
  consider (a) "?max \<le> ?size" "b_pending b \<noteq> []"
    | (b) "?size < ?max" "b_pending b \<noteq> []" "?max < b_bytes b + ?size"
    | (c) "b_pending b = [] \<or> ?size < ?max" "b_pending b = [] \<or> \<not> ?max < b_bytes b + ?size"
    by (meson not_le)
  then show thesis
  proof cases
    case a
    then have "Add now d b = (let (flushed, b1) = Flush b;
        (last, b2) = Flush (append_doc now d ?size b1) in (flushed @ last, b2))"
      by (simp add: Add_def)
    with a assms show thesis by (intro oversized) (auto simp: Flush_def)
  next
    case b
    then have "Add now d b = (b_pending b, append_doc now d ?size (snd (Flush b)))"
      by (simp add: Add_def Flush_def Let_def leD)
    with b assms show thesis by (intro overflow) (auto simp: Flush_def)
  next
    case c
    let ?b1 = "append_doc now d ?size b"
    from c have c1: "\<not> (?max \<le> ?size \<and> b_pending b \<noteq> [])"
      and c2: "\<not> (b_pending b \<noteq> [] \<and> ?max < b_bytes b + ?size)"
      by (auto dest: leD)
    have add: "Add now d b =
        (if lim_MaxRows (b_limits b) \<le> int (length (b_pending ?b1)) \<or> ?max \<le> b_bytes ?b1
         then Flush ?b1 else ([], ?b1))"
      unfolding Add_def Let_def if_not_P [OF c1] if_not_P [OF c2] by simp
    show thesis
    proof (cases "lim_MaxRows (b_limits b) \<le> int (length (b_pending ?b1)) \<or> ?max \<le> b_bytes ?b1")
      case True
      with add assms show thesis by (intro full) (auto simp: Flush_def)
    next
      case False
      with add assms c show thesis by (intro kept) auto
    qed
  qed
qed

interpretation bq: doc_queue Add Flush b_pending
proof unfold_locales
  fix t d b out b'
  show "Add t d b = (out, b') \<Longrightarrow> out @ b_pending b' = b_pending b @ [d]"
    by (erule Add_cases) auto
  show "Add t d b = (out, b') \<Longrightarrow> out \<noteq> [] \<Longrightarrow> b_pending b' = [] \<or> b_pending b' = [d]"
    by (erule Add_cases) auto
  show "Flush b = (out, b') \<Longrightarrow> out = b_pending b \<and> b_pending b' = []"
    by (auto simp: Flush_def split: if_splits)
qed

subsection \<open>The invariant\<close>

definition totalBytes :: "doc list \<Rightarrow> nat" where
  "totalBytes ds = sum_list (map docSize ds)"

lemma totalBytes_simps [simp]:
  "totalBytes [] = 0" "totalBytes (xs @ ys) = totalBytes xs + totalBytes ys"
  "totalBytes [d] = docSize d"
  by (simp_all add: totalBytes_def)

definition belowLimits :: "limits \<Rightarrow> doc list \<Rightarrow> bool" where
  "belowLimits lim ds \<longleftrightarrow>
     int (length ds) < lim_MaxRows lim \<and> totalBytes ds < unat (lim_MaxBytes lim)"

text \<open>The byte counter is the size of what is pending, which is below both limits.\<close>

definition batcherOK :: "batcher \<Rightarrow> bool" where
  "batcherOK b \<longleftrightarrow> unat (b_bytes b) = totalBytes (b_pending b) \<and> belowLimits (b_limits b) (b_pending b)"

lemma NewBatcher_OK:
  assumes "NewBatcher lim = Inr b"
  shows "batcherOK b" and "b_limits b = lim" and "b_pending b = []"
  using assms by (auto simp: NewBatcher_def batcherOK_def belowLimits_def word_gt_0 unat_gt_0
      split: if_splits)

lemma Flush_OK: "batcherOK b \<Longrightarrow> batcherOK (snd (Flush b))"
  by (auto simp: Flush_def batcherOK_def belowLimits_def)

lemma unat_plus_small:
  "unat (x::u64) < 2 ^ 63 \<Longrightarrow> n < 2 ^ 63 \<Longrightarrow> unat (x + of_nat n) = unat x + n"
  by (simp add: unat_plus_if' unat_of_nat)

lemma Add_OK:
  assumes "batcherOK b" and "lim_MaxBytes (b_limits b) \<le> 2 ^ 63" and "docSize d < 2 ^ 63"
    and "Add now d b = (out, b')"
  shows "batcherOK b'" and "b_limits b' = b_limits b" and "belowLimits (b_limits b) (butlast out)"
proof -
  let ?lim = "b_limits b"
  have n: "unat (of_nat (docSize d) :: u64) = docSize d"
    using assms(3) by (simp add: unat_of_nat)
  have max: "unat (lim_MaxBytes ?lim) \<le> 2 ^ 63"
    using assms(2) by (simp add: word_le_nat_alt)
  note inv = assms(1) [unfolded batcherOK_def belowLimits_def]
  have plus: "unat (b_bytes b + of_nat (docSize d)) = totalBytes (b_pending b) + docSize d"
    using unat_plus_small [of "b_bytes b" "docSize d"] inv max assms(3) by simp
  have "batcherOK b' \<and> b_limits b' = b_limits b \<and> belowLimits (b_limits b) (butlast out)"
    using assms(4)
  proof (cases rule: Add_cases)
    case oversized
    with inv show ?thesis by (auto simp: batcherOK_def belowLimits_def)
  next
    case overflow
    have "b_pending b = butlast (b_pending b) @ [last (b_pending b)]" using overflow(1) by simp
    then have "totalBytes (butlast (b_pending b)) \<le> totalBytes (b_pending b)"
      by (metis le_add1 totalBytes_simps(2))
    moreover from overflow(1) inv have "1 < lim_MaxRows ?lim"
      by (cases "b_pending b") auto
    moreover from overflow(2) n have "docSize d < unat (lim_MaxBytes ?lim)"
      by (simp add: word_less_nat_alt)
    ultimately show ?thesis using overflow inv n by (auto simp: batcherOK_def belowLimits_def)
  next
    case full
    with inv show ?thesis by (auto simp: batcherOK_def belowLimits_def)
  next
    case kept
    with inv plus show ?thesis by (auto simp: batcherOK_def belowLimits_def word_less_nat_alt)
  qed
  then show "batcherOK b'" and "b_limits b' = b_limits b"
    and "belowLimits (b_limits b) (butlast out)" by simp_all
qed

lemma addAll_OK:
  assumes "batcherOK b" and "lim_MaxBytes (b_limits b) \<le> 2 ^ 63"
    and "\<forall>td \<in> set tds. docSize (snd td) < 2 ^ 63" and "bq.addAll tds b = (outs, b')"
  shows "batcherOK b' \<and> b_limits b' = b_limits b \<and>
    (\<forall>out \<in> set outs. belowLimits (b_limits b) (butlast out))"
  using assms
proof (induction tds arbitrary: b outs)
  case (Cons td tds)
  obtain out b1 where a: "Add (fst td) (snd td) b = (out, b1)" by force
  obtain os where r: "bq.addAll tds b1 = (os, b')" and outs: "outs = out # os"
    using Cons.prems(4) a by (auto split: prod.splits)
  from Cons.prems(3) have "docSize (snd td) < 2 ^ 63" by simp
  note step = Add_OK [OF Cons.prems(1,2) this a]
  from Cons.IH [OF step(1) _ _ r] step(2,3) Cons.prems(2,3) outs show ?case by simp
qed simp

text \<open>What is pending is the tail of what was added, and the clock read at its first document.\<close>

definition startedWith :: "(time \<times> doc) list \<Rightarrow> batcher \<Rightarrow> bool" where
  "startedWith added b \<longleftrightarrow> b_pending b = [] \<or>
     (\<exists>pre t d rest. added = pre @ (t, d) # rest \<and> b_pending b = d # map snd rest \<and> b_startedAt b = t)"

lemma Add_startedWith:
  assumes "startedWith added b" and "Add t d b = (out, b')"
  shows "startedWith (added @ [(t, d)]) b'"
  using assms(2)
proof (cases rule: Add_cases)
  case overflow
  then show ?thesis by (auto simp: startedWith_def)
next
  case kept
  show ?thesis
  proof (cases "b_pending b = []")
    case True
    with kept show ?thesis by (auto simp: startedWith_def)
  next
    case False
    with assms(1) obtain pre t0 d0 rest where "added = pre @ (t0, d0) # rest"
      and "b_pending b = d0 # map snd rest" and "b_startedAt b = t0"
      by (auto simp: startedWith_def)
    with kept(2) have "added @ [(t, d)] = pre @ (t0, d0) # (rest @ [(t, d)])"
      and "b_pending b' = d0 # map snd (rest @ [(t, d)])" and "b_startedAt b' = t0"
      by auto
    then show ?thesis unfolding startedWith_def by blast
  qed
qed (simp_all add: startedWith_def)

lemma addAll_startedWith:
  "bq.addAll tds b = (outs, b') \<Longrightarrow> startedWith added b \<Longrightarrow> startedWith (added @ tds) b'"
proof (induction tds arbitrary: b outs added)
  case (Cons td tds)
  obtain t d where td: "td = (t, d)" by (cases td)
  obtain out b1 where a: "Add t d b = (out, b1)" by force
  obtain os where r: "bq.addAll tds b1 = (os, b')"
    using Cons.prems(1) a td by (auto split: prod.splits)
  from Cons.IH [OF r Add_startedWith [OF Cons.prems(2) a]] td show ?case by simp
qed simp

subsection \<open>Properties\<close>

text \<open>
  C16: No document is lost, doubled or reordered.  Whatever is added to a new batcher and whenever,
  the batches it returned followed by what is still pending are exactly the documents added, in
  the order they were added.
\<close>

theorem batches_keep_order:
  assumes "NewBatcher lim = Inr b" and "bq.addAll tds b = (batches, b')"
  shows "concat batches @ b_pending b' = map snd tds"
  using bq.addAll_conserves [OF assms(2)] NewBatcher_OK(3) [OF assms(1)] by simp

definition exampleLimits :: limits where
  "exampleLimits = \<lparr>lim_MaxRows = 2, lim_MaxBytes = 10, lim_FlushInterval = 1000\<rparr>"

definition exampleDoc :: "string \<Rightarrow> doc" where
  "exampleDoc k = \<lparr>doc_Key = k, doc_Body = ''{}'', doc_Version = 1, doc_Deleted = False\<rparr>"

definition exampleBatcher :: batcher where
  "exampleBatcher = \<lparr>b_limits = exampleLimits, b_pending = [], b_bytes = 0, b_startedAt = zeroTime\<rparr>"

lemma exampleBatcher_new: "NewBatcher exampleLimits = Inr exampleBatcher"
  by code_simp

lemma exampleBatcher_run:
  "bq.addAll [(5, exampleDoc ''a''), (6, exampleDoc ''b''), (7, exampleDoc ''c'')] exampleBatcher =
     ([[], [exampleDoc ''a'', exampleDoc ''b''], []],
      \<lparr>b_limits = exampleLimits, b_pending = [exampleDoc ''c''], b_bytes = 3, b_startedAt = 7\<rparr>)"
  by (simp add: exampleBatcher_def exampleLimits_def exampleDoc_def Add_def Flush_def append_doc_def
      docSize_def Let_def)

theorem batches_keep_order_witness:
  "concat [[], [exampleDoc ''a'', exampleDoc ''b''], []] @ [exampleDoc ''c''] =
     map snd [(5::time, exampleDoc ''a''), (6, exampleDoc ''b''), (7, exampleDoc ''c'')]"
  using batches_keep_order [OF exampleBatcher_new exampleBatcher_run] by simp



text \<open>
  No document waits past the flush interval unnoticed.  When documents are pending, the deadline
  that \<^verbatim>\<open>NextDeadline\<close> reports is the time at which the oldest of them was added plus the interval,
  and \<^verbatim>\<open>DueForFlush\<close> holds from that moment on; when none is pending there is no deadline.
\<close>

theorem deadline_of_oldest:
  assumes "NewBatcher lim = Inr b" and "lim_MaxBytes lim \<le> 2 ^ 63"
    and "\<forall>td \<in> set tds. docSize (snd td) < 2 ^ 63" and "bq.addAll tds b = (batches, b')"
  shows "b_pending b' = [] \<and> NextDeadline b' = None \<or>
     (\<exists>earlier t d rest. tds = earlier @ (t, d) # rest \<and> b_pending b' = d # map snd rest \<and>
        NextDeadline b' = Some (t + lim_FlushInterval lim) \<and>
        (\<forall>now. DueForFlush now b' \<longleftrightarrow> t + lim_FlushInterval lim \<le> now))"
proof -
  note new = NewBatcher_OK [OF assms(1)]
  have "startedWith ([] @ tds) b'"
    by (rule addAll_startedWith [OF assms(4)]) (simp add: startedWith_def new(3))
  moreover have "b_limits b' = lim"
    using addAll_OK [OF new(1) _ assms(3,4)] assms(2) new(2) by simp
  ultimately show ?thesis
    by (auto simp: startedWith_def NextDeadline_def DueForFlush_def not_less)
qed

theorem deadline_of_oldest_witness:
  "NextDeadline \<lparr>b_limits = exampleLimits, b_pending = [exampleDoc ''c''], b_bytes = 3, b_startedAt = 7\<rparr>
     = Some 1007"
proof -
  have "lim_MaxBytes exampleLimits \<le> 2 ^ 63" by (simp add: exampleLimits_def)
  moreover have "\<forall>td \<in> set [(5, exampleDoc ''a''), (6, exampleDoc ''b''), (7, exampleDoc ''c'')].
      docSize (snd td) < 2 ^ 63"
    by (simp add: exampleDoc_def docSize_def)
  ultimately show ?thesis
    using deadline_of_oldest [OF exampleBatcher_new _ _ exampleBatcher_run]
    by (auto simp: NextDeadline_def exampleLimits_def)
qed

end
