(* ===== verification/Checkpoint.thy ===== *)
theory Checkpoint
  imports Event
begin

unbundle bit_operations_syntax

text \<open>
  \<^verbatim>\<open>internal/checkpoint\<close>: the durable position of a stream (checkpoint.go), the store that keeps
  positions in memory (memory.go), and the allocator of version numbers (seq.go).

  A \<^verbatim>\<open>Store\<close> acts on a world \<^typ>\<open>'w\<close>, which stands for whatever is behind it.  Its contract is the
  locale \<open>checkpoint_store\<close>: what is durable is a map from streams to checkpoints; a load reports
  it and leaves it alone; a save that succeeds replaces the entry of its stream, and one that fails
  replaces it or changes nothing (the save is atomic per stream).  The allocator is proved against
  that contract and \<^verbatim>\<open>MemoryStore\<close> is shown to satisfy it.  The clock readings are arguments.
\<close>

subsection \<open>Positions (checkpoint.go)\<close>

definition SchemaVersion :: int where
  "SchemaVersion = 1"

record checkpoint =
  cp_Stream :: string
  cp_GTIDSet :: string
  cp_SnapshotDone :: bool
  cp_SnapshotStartGTID :: string
  cp_SnapshotCursor :: bytes
  cp_SnapshotBaseSeq :: u64
  cp_SnapshotRowsDone :: u64
  cp_SnapshotRowsTotal :: u64
  cp_SeqWatermark :: u64
  cp_LastEventTsMs :: int
  cp_LastError :: string
  cp_SchemaVersion :: int
  cp_UpdatedAt :: time

definition zeroCheckpoint :: checkpoint where
  "zeroCheckpoint = \<lparr>cp_Stream = [], cp_GTIDSet = [], cp_SnapshotDone = False,
     cp_SnapshotStartGTID = [], cp_SnapshotCursor = [], cp_SnapshotBaseSeq = 0,
     cp_SnapshotRowsDone = 0, cp_SnapshotRowsTotal = 0, cp_SeqWatermark = 0, cp_LastEventTsMs = 0,
     cp_LastError = [], cp_SchemaVersion = 0, cp_UpdatedAt = zeroTime\<rparr>"

text \<open>\<^verbatim>\<open>Time.Sub\<close>: a difference outside the range of a duration is the nearest duration.\<close>

definition timeSub :: "time \<Rightarrow> time \<Rightarrow> int" where
  "timeSub t u = max (- (2 ^ 63)) (min (2 ^ 63 - 1) (t - u))"

definition LagAt :: "checkpoint \<Rightarrow> time \<Rightarrow> int \<times> bool" where
  "LagAt c now =
     (if cp_LastEventTsMs c = 0 then (0, False)
      else (let lag = timeSub now (ofUnixMilli (cp_LastEventTsMs c))
            in if lag < 0 then (0, True) else (lag, True)))"

definition ClearSnapshot :: "checkpoint \<Rightarrow> checkpoint" where
  "ClearSnapshot c = c\<lparr>cp_SnapshotDone := False, cp_SnapshotStartGTID := [],
     cp_SnapshotCursor := [], cp_SnapshotBaseSeq := 0, cp_SnapshotRowsDone := 0,
     cp_SnapshotRowsTotal := 0\<rparr>"

text \<open>What else can go wrong with a store: the reasons of mysql.go.\<close>

datatype store_failure =
    DatabaseFailed string string string
  | NotInitialized
  | UnreadableUpdatedAt string
  | SchemaTooNew string int
  | StreamNameEmpty
  | StreamNameLong string

datatype store_error = ErrNotFound | StoreFailed store_failure

type_synonym 'w store_Load = "string \<Rightarrow> 'w \<Rightarrow> (store_error + checkpoint) \<times> 'w"
type_synonym 'w store_Save = "checkpoint \<Rightarrow> 'w \<Rightarrow> store_error option \<times> 'w"

subsection \<open>The store in memory (memory.go)\<close>

record memory_store =
  ms_data :: "string \<rightharpoonup> checkpoint"
  ms_saves :: nat

definition NewMemoryStore :: memory_store where
  "NewMemoryStore = \<lparr>ms_data = Map.empty, ms_saves = 0\<rparr>"

definition ms_Load :: "memory_store store_Load" where
  "ms_Load stream s = (case ms_data s stream of
      None \<Rightarrow> (Inl ErrNotFound, s)
    | Some cp \<Rightarrow> (Inr cp, s))"

definition ms_Save :: "time \<Rightarrow> memory_store store_Save" where
  "ms_Save now cp s =
     (None, s\<lparr>ms_data := (ms_data s)(cp_Stream cp \<mapsto> cp\<lparr>cp_UpdatedAt := now\<rparr>),
              ms_saves := ms_saves s + 1\<rparr>)"

definition Saves :: "memory_store \<Rightarrow> nat" where
  "Saves s = ms_saves s"

subsection \<open>Version numbers (seq.go)\<close>

definition floorShift :: nat where
  "floorShift = 10"

definition seqFloor :: "time \<Rightarrow> u64" where
  "seqFloor now =
     (let ms = unixMilli now in if ms < 0 then 0 else push_bit floorShift (of_int ms))"

record allocator =
  a_stream :: string
  a_blockSize :: u64
  a_next :: u64
  a_end :: u64

datatype alloc_error =
    StreamRequired
  | BlockSizeRequired
  | LoadFailed string store_error
  | SpaceExhausted string
  | ReserveFailed string store_error

definition NewAllocator :: "string \<Rightarrow> u64 \<Rightarrow> alloc_error + allocator" where
  "NewAllocator stream blockSize =
     (if stream = [] then Inl StreamRequired
      else if blockSize = 0 then Inl BlockSizeRequired
      else Inr \<lparr>a_stream = stream, a_blockSize = blockSize, a_next = 1, a_end = 0\<rparr>)"

definition reserve ::
    "'w store_Load \<Rightarrow> 'w store_Save \<Rightarrow> time \<Rightarrow> allocator \<Rightarrow> 'w \<Rightarrow>
     (alloc_error + unit) \<times> allocator \<times> 'w" where
  "reserve load save now a w = (case load (a_stream a) w of (loaded, w1) \<Rightarrow>
     (case (case loaded of
              Inl ErrNotFound \<Rightarrow>
                Inr (zeroCheckpoint\<lparr>cp_Stream := a_stream a, cp_SchemaVersion := SchemaVersion\<rparr>)
            | Inl e \<Rightarrow> Inl (LoadFailed (a_stream a) e)
            | Inr cp \<Rightarrow> Inr cp) of
        Inl e \<Rightarrow> (Inl e, a, w1)
      | Inr cp \<Rightarrow>
          (let start0 = cp_SeqWatermark cp + 1;
               start1 = (if start0 < seqFloor now then seqFloor now else start0);
               start = (if start1 \<le> a_end a then a_end a + 1 else start1);
               end' = start + a_blockSize a - 1
           in if end' < start then (Inl (SpaceExhausted (a_stream a)), a, w1)
              else
                (let cp' = cp\<lparr>cp_Stream := a_stream a, cp_SeqWatermark := end',
                     cp_SchemaVersion := (if cp_SchemaVersion cp = 0 then SchemaVersion
                                          else cp_SchemaVersion cp)\<rparr>
                 in case save cp' w1 of
                      (Some e, w2) \<Rightarrow> (Inl (ReserveFailed (a_stream a) e), a, w2)
                    | (None, w2) \<Rightarrow> (Inr (), a\<lparr>a_next := start, a_end := end'\<rparr>, w2)))))"

definition Next ::
    "'w store_Load \<Rightarrow> 'w store_Save \<Rightarrow> time \<Rightarrow> allocator \<Rightarrow> 'w \<Rightarrow>
     (alloc_error + u64) \<times> allocator \<times> 'w" where
  "Next load save now a w =
     (case (if a_end a < a_next a then reserve load save now a w else (Inr (), a, w)) of
        (Inl e, a1, w1) \<Rightarrow> (Inl e, a1, w1)
      | (Inr _, a1, w1) \<Rightarrow> (Inr (a_next a1), a1\<lparr>a_next := a_next a1 + 1\<rparr>, w1))"

subsection \<open>The contract of a store\<close>

text \<open>What a save makes durable: the checkpoint, with a time of its own and its layout's version filled in.\<close>

definition settled :: "checkpoint \<Rightarrow> checkpoint" where
  "settled cp = cp\<lparr>cp_UpdatedAt := 0, cp_SchemaVersion :=
     (if cp_SchemaVersion cp = 0 then SchemaVersion else cp_SchemaVersion cp)\<rparr>"

definition sameCheckpoint :: "checkpoint \<Rightarrow> checkpoint \<Rightarrow> bool" where
  "sameCheckpoint cp cp' \<longleftrightarrow> settled cp = settled cp'"

definition savedAs :: "checkpoint \<Rightarrow> (string \<rightharpoonup> checkpoint) \<Rightarrow> (string \<rightharpoonup> checkpoint) \<Rightarrow> bool" where
  "savedAs cp m m' \<longleftrightarrow> (\<exists>cp'. sameCheckpoint cp cp' \<and> m' = m(cp_Stream cp \<mapsto> cp'))"

lemma sameCheckpoint_watermark: "sameCheckpoint cp cp' \<Longrightarrow> cp_SeqWatermark cp' = cp_SeqWatermark cp"
proof -
  have "cp_SeqWatermark (settled c) = cp_SeqWatermark c" for c by (simp add: settled_def)
  then show "sameCheckpoint cp cp' \<Longrightarrow> cp_SeqWatermark cp' = cp_SeqWatermark cp"
    unfolding sameCheckpoint_def by metis
qed

locale checkpoint_store =
  fixes load :: "'w store_Load" and save :: "'w store_Save"
    and view :: "'w \<Rightarrow> (string \<rightharpoonup> checkpoint)"
  assumes load_view: "load stream w = (r, w') \<Longrightarrow> view w' = view w"
    and load_found: "load stream w = (Inr cp, w') \<Longrightarrow> view w stream = Some cp"
    and load_missing: "load stream w = (Inl ErrNotFound, w') \<Longrightarrow> view w stream = None"
    and save_done: "save cp w = (None, w') \<Longrightarrow> savedAs cp (view w) (view w')"
    and save_failed: "save cp w = (Some e, w') \<Longrightarrow> view w' = view w \<or> savedAs cp (view w) (view w')"

text \<open>The durable watermark of a stream.\<close>

definition watermark :: "(string \<rightharpoonup> checkpoint) \<Rightarrow> string \<Rightarrow> nat" where
  "watermark m stream = (case m stream of None \<Rightarrow> 0 | Some cp \<Rightarrow> unat (cp_SeqWatermark cp))"

lemma watermark_savedAs:
  "savedAs cp m m' \<Longrightarrow> watermark m' (cp_Stream cp) = unat (cp_SeqWatermark cp)"
  by (auto simp: savedAs_def watermark_def sameCheckpoint_watermark)

lemma savedAs_touch: "savedAs cp m (m(cp_Stream cp \<mapsto> cp\<lparr>cp_UpdatedAt := t\<rparr>))"
  unfolding savedAs_def by (intro exI [of _ "cp\<lparr>cp_UpdatedAt := t\<rparr>"]) (simp add: sameCheckpoint_def settled_def)

lemma ms_contract: "checkpoint_store ms_Load (ms_Save now) ms_data"
  by unfold_locales (auto simp: ms_Load_def ms_Save_def savedAs_touch split: option.splits)

interpretation ms: checkpoint_store ms_Load "ms_Save now" ms_data for now
  by (rule ms_contract)

subsection \<open>The allocator over any store\<close>

lemma unat_Suc64: "unat (x::u64) < 2 ^ 64 - 1 \<Longrightarrow> unat (x + 1) = unat x + 1"
  by (simp add: unat_plus_if')

lemma unat_plus_le: "unat (x + y) \<le> unat x + unat (y::u64)"
  by (simp add: unat_plus_if' le_diff_conv)

text \<open>
  What the allocator keeps, with the version numbers issued so far (newest first): they are
  durable, and the rest of its block is durable and above them.
\<close>

definition allocOK :: "string \<Rightarrow> (string \<rightharpoonup> checkpoint) \<Rightarrow> allocator \<Rightarrow> u64 list \<Rightarrow> bool" where
  "allocOK stream m a issued \<longleftrightarrow> a_stream a = stream \<and>
     unat (a_end a) \<le> watermark m stream \<and>
     (\<forall>v \<in> set issued. unat v \<le> watermark m stream) \<and>
     (a_next a \<le> a_end a \<longrightarrow> (\<forall>v \<in> set issued. v < a_next a))"

context checkpoint_store
begin

text \<open>What is durable after a reservation is a watermark at least as high as before.\<close>

lemma reserve_full:
  assumes "reserve load save now a w = (r, a', w')"
    and "watermark (view w) (a_stream a) < 2 ^ 64 - 1"
    and "unat (a_end a) \<le> watermark (view w) (a_stream a)"
  shows "((\<exists>e. r = Inl e) \<and> a' = a \<and> watermark (view w) (a_stream a) \<le> watermark (view w') (a_stream a)
    \<or> r = Inr () \<and> a_stream a' = a_stream a \<and> watermark (view w) (a_stream a) < unat (a_next a')
      \<and> a_next a' \<le> a_end a' \<and> watermark (view w') (a_stream a) = unat (a_end a'))
    \<and> a_blockSize a' = a_blockSize a
    \<and> watermark (view w') (a_stream a) \<le>
        max (watermark (view w) (a_stream a) + 1) (unat (seqFloor now)) + unat (a_blockSize a)"
proof -
  let ?s = "a_stream a"
  let ?wm = "watermark (view w) ?s"
  obtain loaded w1 where l: "load ?s w = (loaded, w1)" by force
  have v1: "view w1 = view w" by (rule load_view [OF l])
  show ?thesis
  proof (cases "\<exists>e. loaded = Inl e \<and> e \<noteq> ErrNotFound")
    case True
    with assms(1) l v1 show ?thesis
      by (auto simp: reserve_def split: store_error.splits)
  next
    case False
    define cp where "cp = (case loaded of Inr c \<Rightarrow> c | Inl _ \<Rightarrow>
        zeroCheckpoint\<lparr>cp_Stream := ?s, cp_SchemaVersion := SchemaVersion\<rparr>)"
    have wm: "unat (cp_SeqWatermark cp) = ?wm"
      using False l load_found [of ?s w _ w1] load_missing [of ?s w w1]
      by (auto simp: cp_def watermark_def zeroCheckpoint_def split: sum.splits)
    define start1 where "start1 = (if cp_SeqWatermark cp + 1 < seqFloor now then seqFloor now
        else cp_SeqWatermark cp + 1)"
    have "unat (cp_SeqWatermark cp + 1) = ?wm + 1"
      using unat_Suc64 [of "cp_SeqWatermark cp"] wm assms(2) by simp
    then have start1: "?wm < unat start1"
      by (auto simp: start1_def word_less_nat_alt)
    have start1_le: "unat start1 \<le> max (?wm + 1) (unat (seqFloor now))"
      using \<open>unat (cp_SeqWatermark cp + 1) = ?wm + 1\<close> by (auto simp: start1_def)
    from start1 assms(3) have notend: "\<not> start1 \<le> a_end a" by (simp add: word_le_nat_alt)
    define end' where "end' = start1 + a_blockSize a - 1"
    have "unat end' \<le> unat (start1 - 1) + unat (a_blockSize a)"
      using unat_plus_le [of "start1 - 1" "a_blockSize a"] by (simp add: end'_def algebra_simps)
    also have "\<dots> \<le> max (?wm + 1) (unat (seqFloor now)) + unat (a_blockSize a)"
    proof -
      have "start1 \<noteq> 0" using start1 by auto
      then have "unat (start1 - 1) \<le> unat start1" by (simp add: unat_minus_one)
      then show ?thesis using start1_le by linarith
    qed
    finally have end_le: "unat end' \<le> max (?wm + 1) (unat (seqFloor now)) + unat (a_blockSize a)" .
    define cp' where "cp' = cp\<lparr>cp_Stream := ?s, cp_SeqWatermark := end',
      cp_SchemaVersion := (if cp_SchemaVersion cp = 0 then SchemaVersion else cp_SchemaVersion cp)\<rparr>"
    have res: "reserve load save now a w =
        (if end' < start1 then (Inl (SpaceExhausted ?s), a, w1)
         else (case save cp' w1 of
             (Some e, w2) \<Rightarrow> (Inl (ReserveFailed ?s e), a, w2)
           | (None, w2) \<Rightarrow> (Inr (), a\<lparr>a_next := start1, a_end := end'\<rparr>, w2)))"
    proof -
      have "(case loaded of
              Inl ErrNotFound \<Rightarrow>
                Inr (zeroCheckpoint\<lparr>cp_Stream := ?s, cp_SchemaVersion := SchemaVersion\<rparr>)
            | Inl e \<Rightarrow> Inl (LoadFailed ?s e)
            | Inr cp \<Rightarrow> Inr cp) = (Inr cp :: alloc_error + checkpoint)"
        using False by (auto simp: cp_def split: sum.splits store_error.splits)
      then show ?thesis
        unfolding reserve_def l prod.case Let_def
        by (simp only: sum.case start1_def [symmetric] if_not_P [OF notend] end'_def [symmetric]
            cp'_def [symmetric])
    qed
    have stored: "watermark m ?s = unat end'" if "savedAs cp' (view w) m" for m
      using watermark_savedAs [OF that] by (simp add: cp'_def)
    obtain e w2 where s: "save cp' w1 = (e, w2)" by force
    from assms(1) res s v1 start1 show ?thesis
      using save_done [of cp' w1 w2] save_failed [of cp' w1 _ w2] stored end_le
      by (auto simp: not_less word_le_nat_alt split: if_splits option.splits)
  qed
qed

lemma reserve_spec:
  assumes "reserve load save now a w = (r, a', w')"
    and "watermark (view w) (a_stream a) < 2 ^ 64 - 1"
    and "unat (a_end a) \<le> watermark (view w) (a_stream a)"
  shows "(\<exists>e. r = Inl e) \<and> a' = a \<and> watermark (view w) (a_stream a) \<le> watermark (view w') (a_stream a)
    \<or> r = Inr () \<and> a_stream a' = a_stream a \<and> watermark (view w) (a_stream a) < unat (a_next a')
      \<and> a_next a' \<le> a_end a' \<and> watermark (view w') (a_stream a) = unat (a_end a')"
  using reserve_full [OF assms] by blast

lemma Next_spec:
  assumes "allocOK stream (view w) a issued" and "Next load save now a w = (r, a', w')"
    and "watermark (view w) stream < 2 ^ 64 - 1" and "watermark (view w') stream < 2 ^ 64 - 1"
  shows "case r of
      Inl _ \<Rightarrow> allocOK stream (view w') a' issued
    | Inr v \<Rightarrow> allocOK stream (view w') a' (v # issued) \<and> (\<forall>u \<in> set issued. u < v)"
proof (cases "a_end a < a_next a")
  case False
  with assms(2) have eqs: "r = Inr (a_next a)" "a' = a\<lparr>a_next := a_next a + 1\<rparr>" "w' = w"
    by (auto simp: Next_def)
  have "unat (a_next a) \<le> watermark (view w) stream" and "\<forall>v \<in> set issued. v < a_next a"
    using assms(1) False by (auto simp: allocOK_def word_le_nat_alt not_less)
  moreover from this assms(3) have "unat (a_next a + 1) = unat (a_next a) + 1"
    by (simp add: unat_Suc64)
  ultimately show ?thesis using assms(1) eqs
    by (fastforce simp: allocOK_def word_less_nat_alt)
next
  case True
  obtain q a1 w1 where res: "reserve load save now a w = (q, a1, w1)" by (metis prod_cases3)
  from assms(1) have a: "a_stream a = stream" "unat (a_end a) \<le> watermark (view w) stream"
    by (auto simp: allocOK_def)
  note spec = reserve_spec [OF res, unfolded a(1), OF assms(3) a(2)]
  show ?thesis
  proof (cases q)
    case (Inl e)
    with True res assms(2) have "r = Inl e" "a' = a1" "w' = w1" by (auto simp: Next_def)
    with spec Inl assms(1) True show ?thesis by (fastforce simp: allocOK_def)
  next
    case (Inr u)
    with True res assms(2) have eqs: "r = Inr (a_next a1)" "a' = a1\<lparr>a_next := a_next a1 + 1\<rparr>" "w' = w1"
      by (auto simp: Next_def)
    from spec Inr have new: "a_stream a1 = stream" "watermark (view w) stream < unat (a_next a1)"
      "unat (a_next a1) \<le> unat (a_end a1)" "watermark (view w1) stream = unat (a_end a1)"
      by (auto simp: word_le_nat_alt)
    with assms(4) eqs have "unat (a_next a1 + 1) = unat (a_next a1) + 1" by (simp add: unat_Suc64)
    moreover from new assms(1) have "\<forall>v \<in> set issued. unat v < unat (a_next a1)"
      by (fastforce simp: allocOK_def)
    ultimately show ?thesis using new eqs by (fastforce simp: allocOK_def word_less_nat_alt)
  qed
qed

text \<open>A request raises the watermark by at most a block above itself or the clock's floor.\<close>

lemma Next_budget:
  assumes "allocOK stream (view w) a issued" and "Next load save now a w = (r, a', w')"
    and "watermark (view w) stream < 2 ^ 64 - 1"
  shows "a_blockSize a' = a_blockSize a \<and> watermark (view w') stream \<le>
     max (watermark (view w) stream + 1) (unat (seqFloor now)) + unat (a_blockSize a)"
proof (cases "a_end a < a_next a")
  case False
  with assms(2) show ?thesis by (auto simp: Next_def)
next
  case True
  obtain q a1 w1 where res: "reserve load save now a w = (q, a1, w1)" by (metis prod_cases3)
  from assms(1) have a: "a_stream a = stream" "unat (a_end a) \<le> watermark (view w) stream"
    by (auto simp: allocOK_def)
  from True res assms(2) have "a_blockSize a' = a_blockSize a1" "w' = w1" by (auto simp: Next_def split: sum.splits)
  with reserve_full [OF res, unfolded a(1), OF assms(3) a(2)] show ?thesis by simp
qed
end

text \<open>
  The life of a stream's version numbers: numbers are asked for at any times, a request may fail,
  the process may stop and start again at any point, and other parts of the program may write the
  stream's checkpoint as long as they do not lower its watermark.  The run stops before the
  watermark reaches the largest number of 64 bits.
\<close>

inductive alloc_run ::
    "'w store_Load \<Rightarrow> 'w store_Save \<Rightarrow> ('w \<Rightarrow> (string \<rightharpoonup> checkpoint)) \<Rightarrow> string \<Rightarrow>
     allocator \<Rightarrow> 'w \<Rightarrow> u64 list \<Rightarrow> bool"
  for load save view stream where
  begin_run: "NewAllocator stream blockSize = Inr a \<Longrightarrow>
     watermark (view w) stream < 2 ^ 64 - 1 \<Longrightarrow> alloc_run load save view stream a w []"
| issue: "alloc_run load save view stream a w issued \<Longrightarrow>
     Next load save now a w = (Inr v, a', w') \<Longrightarrow> watermark (view w') stream < 2 ^ 64 - 1 \<Longrightarrow>
     alloc_run load save view stream a' w' (v # issued)"
| refuse: "alloc_run load save view stream a w issued \<Longrightarrow>
     Next load save now a w = (Inl e, a', w') \<Longrightarrow> watermark (view w') stream < 2 ^ 64 - 1 \<Longrightarrow>
     alloc_run load save view stream a' w' issued"
| restart: "alloc_run load save view stream a w issued \<Longrightarrow>
     NewAllocator stream blockSize = Inr a' \<Longrightarrow> alloc_run load save view stream a' w issued"
| other_write: "alloc_run load save view stream a w issued \<Longrightarrow>
     watermark (view w) stream \<le> watermark (view w') stream \<Longrightarrow>
     watermark (view w') stream < 2 ^ 64 - 1 \<Longrightarrow> alloc_run load save view stream a w' issued"

lemma NewAllocator_OK:
  "NewAllocator stream blockSize = Inr a \<Longrightarrow> \<forall>v \<in> set issued. unat v \<le> watermark m stream \<Longrightarrow>
     allocOK stream m a issued"
  by (auto simp: NewAllocator_def allocOK_def split: if_splits)

lemma alloc_run_invariant:
  assumes "checkpoint_store load save view" and "alloc_run load save view stream a w issued"
  shows "allocOK stream (view w) a issued \<and> sorted_wrt (>) issued \<and>
     watermark (view w) stream < 2 ^ 64 - 1"
  using assms(2)
proof induction
  case (begin_run blockSize a w)
  then show ?case using NewAllocator_OK [OF begin_run(1), of "[]"] by simp
next
  case (issue a w issued now v a' w')
  with checkpoint_store.Next_spec [OF assms(1) _ issue(2)] show ?case by auto
next
  case (refuse a w issued now e a' w')
  with checkpoint_store.Next_spec [OF assms(1) _ refuse(2)] show ?case by auto
next
  case (restart a w issued blockSize a')
  then have "\<forall>v \<in> set issued. unat v \<le> watermark (view w) stream" by (simp add: allocOK_def)
  from NewAllocator_OK [OF restart(2) this] restart show ?case by simp
next
  case (other_write a w issued w')
  then show ?case by (fastforce simp: allocOK_def)
qed

subsection \<open>The contract of a sequencer\<close>

text \<open>
  What a reader relies on (\<^verbatim>\<open>Sequencer\<close> of streamer.go): with \<^verbatim>\<open>n\<close> more requests covered, a number that
  is handed out is above all before it, and a refusal loses nothing.
\<close>

locale sequencer =
  fixes next_version :: "'q \<Rightarrow> (alloc_error + u64) \<times> 'q"
    and covered :: "nat \<Rightarrow> u64 list \<Rightarrow> 'q \<Rightarrow> bool"
  assumes next_grows: "covered (Suc n) issued q \<Longrightarrow> next_version q = (Inr v, q') \<Longrightarrow>
      covered n (v # issued) q' \<and> (\<forall>u \<in> set issued. u < v)"
    and next_refused: "covered (Suc n) issued q \<Longrightarrow> next_version q = (Inl e, q') \<Longrightarrow> covered n issued q'"
    and covered_less: "covered (Suc n) issued q \<Longrightarrow> covered n issued q"

text \<open>
  The allocator as a sequencer: its state, the number of requests so far (which picks the reading of
  the clock), and the world behind the store.  It covers as many requests as blocks fit between the
  watermark, or the highest floor of the clock, and the largest number.
\<close>

definition allocNext ::
    "'w store_Load \<Rightarrow> 'w store_Save \<Rightarrow> (nat \<Rightarrow> time) \<Rightarrow> nat \<times> allocator \<times> 'w \<Rightarrow>
     (alloc_error + u64) \<times> nat \<times> allocator \<times> 'w" where
  "allocNext load save clock q = (case q of (k, a, w) \<Rightarrow> (case Next load save (clock k) a w of
     (r, a', w') \<Rightarrow> (r, Suc k, a', w')))"

definition allocCovered ::
    "('w \<Rightarrow> (string \<rightharpoonup> checkpoint)) \<Rightarrow> nat \<Rightarrow> string \<Rightarrow> nat \<Rightarrow> u64 list \<Rightarrow> nat \<times> allocator \<times> 'w \<Rightarrow> bool" where
  "allocCovered view roof stream n issued q = (case q of (k, a, w) \<Rightarrow>
     allocOK stream (view w) a issued \<and>
     max (watermark (view w) stream) roof + n * (unat (a_blockSize a) + 1) < 2 ^ 64 - 1)"

lemma allocCovered_step:
  assumes "checkpoint_store load save view" and "\<And>k. unat (seqFloor (clock k)) \<le> roof"
    and "allocCovered view roof stream (Suc n) issued (k, a, w)"
    and "Next load save (clock k) a w = (r, a', w')"
  shows "watermark (view w) stream < 2 ^ 64 - 1"
    and "max (watermark (view w') stream) roof + n * (unat (a_blockSize a') + 1) < 2 ^ 64 - 1"
proof -
  from assms(3) have ok: "allocOK stream (view w) a issued"
    and room: "max (watermark (view w) stream) roof + Suc n * (unat (a_blockSize a) + 1) < 2 ^ 64 - 1"
    by (auto simp: allocCovered_def)
  from room show less: "watermark (view w) stream < 2 ^ 64 - 1" by (simp add: max_def split: if_splits)
  note budget = checkpoint_store.Next_budget [OF assms(1) ok assms(4) less]
  have "max (watermark (view w') stream) roof \<le> max (watermark (view w) stream) roof + (unat (a_blockSize a) + 1)"
    using budget assms(2) [of k] by linarith
  moreover have "max (watermark (view w) stream) roof + (unat (a_blockSize a) + 1) + n * (unat (a_blockSize a) + 1)
      < 2 ^ 64 - 1" using room by simp
  ultimately show "max (watermark (view w') stream) roof + n * (unat (a_blockSize a') + 1) < 2 ^ 64 - 1"
    by (simp only: conjunct1 [OF budget])
qed

lemma alloc_sequencer:
  assumes store: "checkpoint_store load save view" and le: "\<And>k. unat (seqFloor (clock k)) \<le> roof"
  shows "sequencer (allocNext load save clock) (allocCovered view roof stream)"
proof unfold_locales
  fix n issued q v q'
  assume cov: "allocCovered view roof stream (Suc n) issued q"
    and nxt: "allocNext load save clock q = (Inr v, q')"
  obtain k a w where q: "q = (k, a, w)" by (metis prod_cases3)
  obtain a' w' where N: "Next load save (clock k) a w = (Inr v, a', w')" and q': "q' = (Suc k, a', w')"
    using nxt by (auto simp: allocNext_def q split: prod.splits)
  note step = allocCovered_step [where clock = clock, OF store le cov [unfolded q] N]
  have "watermark (view w') stream < 2 ^ 64 - 1" using step(2) by (simp add: max_def split: if_splits)
  moreover have ok: "allocOK stream (view w) a issued" using cov by (simp add: allocCovered_def q)
  ultimately show "allocCovered view roof stream n (v # issued) q' \<and> (\<forall>u \<in> set issued. u < v)"
    using checkpoint_store.Next_spec [OF store ok N step(1)] step(2) by (simp add: allocCovered_def q q')
next
  fix n issued q e q'
  assume cov: "allocCovered view roof stream (Suc n) issued q"
    and nxt: "allocNext load save clock q = (Inl e, q')"
  obtain k a w where q: "q = (k, a, w)" by (metis prod_cases3)
  obtain a' w' where N: "Next load save (clock k) a w = (Inl e, a', w')" and q': "q' = (Suc k, a', w')"
    using nxt by (auto simp: allocNext_def q split: prod.splits)
  note step = allocCovered_step [where clock = clock, OF store le cov [unfolded q] N]
  have "watermark (view w') stream < 2 ^ 64 - 1" using step(2) by (simp add: max_def split: if_splits)
  moreover have ok: "allocOK stream (view w) a issued" using cov by (simp add: allocCovered_def q)
  ultimately show "allocCovered view roof stream n issued q'"
    using checkpoint_store.Next_spec [OF store ok N step(1)] step(2) by (simp add: allocCovered_def q q')
next
  fix n issued q
  assume "allocCovered view roof stream (Suc n) issued q"
  then show "allocCovered view roof stream n issued q" by (auto simp: allocCovered_def)
qed

interpretation memory_seq: sequencer "allocNext ms_Load (ms_Save now) (\<lambda>_. t)"
    "allocCovered ms_data (unat (seqFloor t)) stream" for now t stream
  by (rule alloc_sequencer [OF ms_contract]) simp

subsection \<open>Properties\<close>


definition exampleAllocator :: allocator where
  "exampleAllocator = \<lparr>a_stream = ''s'', a_blockSize = 5, a_next = 1, a_end = 0\<rparr>"

definition exampleReserved :: memory_store where
  "exampleReserved = snd (ms_Save 0 (zeroCheckpoint\<lparr>cp_Stream := ''s'', cp_SeqWatermark := 5,
     cp_SchemaVersion := 1\<rparr>) NewMemoryStore)"

lemma exampleAllocator_issues:
  "Next ms_Load (ms_Save 0) 0 exampleAllocator NewMemoryStore =
     (Inr 1, exampleAllocator\<lparr>a_next := 2, a_end := 5\<rparr>, exampleReserved)"
  "Next ms_Load (ms_Save 0) 0 (exampleAllocator\<lparr>a_next := 2, a_end := 5\<rparr>) exampleReserved =
     (Inr 2, exampleAllocator\<lparr>a_next := 3, a_end := 5\<rparr>, exampleReserved)"
  by (simp_all add: Next_def reserve_def ms_Load_def ms_Save_def NewMemoryStore_def
      exampleAllocator_def exampleReserved_def seqFloor_def unixMilli_def SchemaVersion_def
      zeroCheckpoint_def Let_def)


text \<open>
  At the end of the 64-bit space the allocator starts over.  With a stored watermark of
  \<^verbatim>\<open>2^64-1\<close> the next start wraps around to 0, the test for exhaustion does not see it, and numbers
  far below the watermark are issued again (here the clock's floor, one second after the epoch).
\<close>

theorem watermark_wraps_around:
  "fst (Next ms_Load (ms_Save 0) 1000000000
      \<lparr>a_stream = ''s'', a_blockSize = 5, a_next = 1, a_end = 0\<rparr>
      (snd (ms_Save 0 (zeroCheckpoint\<lparr>cp_Stream := ''s'', cp_SeqWatermark := - 1\<rparr>) NewMemoryStore)))
   = Inr 1024000"
  by (simp add: Next_def reserve_def ms_Load_def ms_Save_def NewMemoryStore_def seqFloor_def
      unixMilli_def floorShift_def SchemaVersion_def zeroCheckpoint_def Let_def)

text \<open>
  A lag is reported only for a position with an event, and then it is never negative and never
  above the true distance: it is the time since the last event, up to the longest duration, or
  zero when the source's clock is ahead.
\<close>

theorem LagAt_bounds:
  "LagAt c now = (lag, known) \<longleftrightarrow>
     known = (cp_LastEventTsMs c \<noteq> 0) \<and>
     lag = (if known then max 0 (min (2 ^ 63 - 1) (now - ofUnixMilli (cp_LastEventTsMs c))) else 0)"
  by (auto simp: LagAt_def timeSub_def Let_def)

end
