(* ===== verification/Runner.thy ===== *)
theory Runner
  imports Transform Batcher Checkpoint
begin

text \<open>
  \<^verbatim>\<open>internal/pipeline/runner.go\<close>: one stream's loop, which transforms events, batches documents,
  writes batches, records refusals, and only then saves the position.

  The sink, the dead letter queue, the checkpoint store and the clock are the fields of \<open>deps\<close>;
  each acts on a world \<^typ>\<open>'w\<close> and may fail in any way, and nothing is assumed of them except
  where a property says so.  \<^verbatim>\<open>Run\<close>'s \<^verbatim>\<open>select\<close> is driven by a script of what it receives: an
  event, the end of the events, the timer, or the cancellation of its context.  The calls of the
  observer are collected in the state; log messages are not modelled.  The text of an error is
  what \<^verbatim>\<open>fmt\<close> makes of it, a field of \<open>deps\<close>.
\<close>

record 'w deps =
  d_env :: go_env
  d_plan :: plan
  d_errText :: "transform_error \<Rightarrow> string"
  d_sink :: "doc list \<Rightarrow> 'w \<Rightarrow> (result \<times> string option) \<times> 'w"
  d_dlq :: "(rejection list \<Rightarrow> 'w \<Rightarrow> string option \<times> 'w) option"
  d_load :: "'w store_Load"
  d_save :: "'w store_Save"
  d_now :: "'w \<Rightarrow> time \<times> 'w"

datatype observation =
    ObsEvent operation
  | ObsLag int
  | ObsBatch nat
  | ObsWrite nat nat nat int bool
  | ObsDeadLettered nat

record runner =
  r_stream :: string
  r_batcher :: batcher
  r_shutdownGrace :: int
  r_pendingGTID :: string
  r_pendingEventTsMs :: int
  r_pendingCursor :: bytes
  r_pendingRows :: u64
  r_observed :: "observation list"

datatype runner_error =
    StreamNameRequired
  | PlanRequired
  | SinkRequired
  | StoreRequired
  | BatcherError batcher_error
  | WriteFailed string nat string
  | OutcomeUnknown string nat nat
  | NoDeadLetterQueue string nat string
  | CannotRecord string nat string
  | LoadCheckpoint string store_error
  | SaveCheckpoint string store_error
  | ContextDone

definition observe :: "observation \<Rightarrow> runner \<Rightarrow> runner" where
  "observe x r = r\<lparr>r_observed := r_observed r @ [x]\<rparr>"

text \<open>The flags say which of the plan, the sink and the store were given.\<close>

definition NewRunner ::
    "string \<Rightarrow> bool \<Rightarrow> bool \<Rightarrow> bool \<Rightarrow> limits \<Rightarrow> int \<Rightarrow> runner_error + runner" where
  "NewRunner stream hasPlan hasSink hasStore limits shutdownGrace =
     (if stream = [] then Inl StreamNameRequired
      else if \<not> hasPlan then Inl PlanRequired
      else if \<not> hasSink then Inl SinkRequired
      else if \<not> hasStore then Inl StoreRequired
      else (case NewBatcher limits of
          Inl e \<Rightarrow> Inl (BatcherError e)
        | Inr b \<Rightarrow> Inr \<lparr>r_stream = stream, r_batcher = b,
            r_shutdownGrace = (if shutdownGrace \<le> 0 then 30 * 1000000000 else shutdownGrace),
            r_pendingGTID = [], r_pendingEventTsMs = 0, r_pendingCursor = [], r_pendingRows = 0,
            r_observed = []\<rparr>))"

type_synonym 'w outcome = "runner_error option \<times> runner \<times> 'w"

definition deadLetter :: "'w deps \<Rightarrow> rejection list \<Rightarrow> runner \<Rightarrow> 'w \<Rightarrow> 'w outcome" where
  "deadLetter d rejections r w = (case d_dlq d of
      None \<Rightarrow>
        (Some (NoDeadLetterQueue (r_stream r) (length rejections) (rejectionString (hd rejections))),
         r, w)
    | Some record \<Rightarrow> (case record rejections w of
          (Some e, w1) \<Rightarrow> (Some (CannotRecord (r_stream r) (length rejections) e), r, w1)
        | (None, w1) \<Rightarrow> (None, observe (ObsDeadLettered (length rejections)) r, w1)))"

text \<open>The checkpoint that \<^verbatim>\<open>advance\<close> saves, from the one it loaded.\<close>

definition advanced :: "runner \<Rightarrow> checkpoint \<Rightarrow> checkpoint" where
  "advanced r cp =
     (let cp1 = cp\<lparr>cp_Stream := r_stream r\<rparr>;
          cp2 = (if r_pendingGTID r \<noteq> [] then cp1\<lparr>cp_GTIDSet := r_pendingGTID r\<rparr> else cp1);
          cp3 = (if r_pendingCursor r \<noteq> []
                 then cp2\<lparr>cp_SnapshotCursor := r_pendingCursor r,
                          cp_SnapshotRowsDone := r_pendingRows r\<rparr>
                 else cp2);
          cp4 = (if 0 < r_pendingEventTsMs r
                 then cp3\<lparr>cp_LastEventTsMs := r_pendingEventTsMs r\<rparr> else cp3)
      in if cp_SchemaVersion cp4 = 0 then cp4\<lparr>cp_SchemaVersion := SchemaVersion\<rparr> else cp4)"

text \<open>On \<^verbatim>\<open>ErrNotFound\<close> the zero value that came with it is used.\<close>

definition loadedOrZero :: "store_error + checkpoint \<Rightarrow> checkpoint" where
  "loadedOrZero l = (case l of Inl _ \<Rightarrow> zeroCheckpoint | Inr cp \<Rightarrow> cp)"

definition advance :: "'w deps \<Rightarrow> runner \<Rightarrow> 'w \<Rightarrow> 'w outcome" where
  "advance d r w =
     (if r_pendingGTID r = [] \<and> r_pendingCursor r = [] then (None, r, w)
      else (case d_load d (r_stream r) w of
          (Inl (StoreFailed e), w1) \<Rightarrow>
            (Some (LoadCheckpoint (r_stream r) (StoreFailed e)), r, w1)
        | (loaded, w1) \<Rightarrow> (case d_save d (advanced r (loadedOrZero loaded)) w1 of
              (Some e, w2) \<Rightarrow> (Some (SaveCheckpoint (r_stream r) e), r, w2)
            | (None, w2) \<Rightarrow> (None, r, w2))))"

definition write_batch :: "'w deps \<Rightarrow> doc list \<Rightarrow> runner \<Rightarrow> 'w \<Rightarrow> 'w outcome" where
  "write_batch d batch r w =
     (let r1 = observe (ObsBatch (length batch)) r;
          (started, w1) = d_now d w;
          ((result, err), w2) = d_sink d batch w1;
          (finished, w3) = d_now d w2;
          r2 = observe (ObsWrite (res_Applied result) (res_Stale result)
                 (length (res_Rejected result)) (timeSub finished started) (err \<noteq> None)) r1
      in case err of
           Some e \<Rightarrow> (Some (WriteFailed (r_stream r) (length batch) e), r2, w3)
         | None \<Rightarrow>
             if Total result \<noteq> length batch
             then (Some (OutcomeUnknown (r_stream r) (Total result) (length batch)), r2, w3)
             else if res_Rejected result \<noteq> [] then
               (case deadLetter d (res_Rejected result) r2 w3 of
                  (Some e, r3, w4) \<Rightarrow> (Some e, r3, w4)
                | (None, r3, w4) \<Rightarrow> advance d r3 w4)
             else advance d r2 w3)"

definition flush_runner :: "'w deps \<Rightarrow> runner \<Rightarrow> 'w \<Rightarrow> 'w outcome" where
  "flush_runner d r w =
     (let (batch, b) = Flush (r_batcher r); r1 = r\<lparr>r_batcher := b\<rparr>
      in if batch = [] then (None, r1, w) else write_batch d batch r1 w)"

text \<open>\<^verbatim>\<open>Add\<close> reads the clock exactly when its document starts a batch.\<close>

definition readClock :: "'w deps \<Rightarrow> doc \<Rightarrow> batcher \<Rightarrow> 'w \<Rightarrow> time \<times> 'w" where
  "readClock d doc b w =
     (if b_pending b = [] \<or> lim_MaxBytes (b_limits b) \<le> of_nat (docSize doc) \<or>
         lim_MaxBytes (b_limits b) < b_bytes b + of_nat (docSize doc)
      then d_now d w else (zeroTime, w))"

text \<open>The loop of \<^verbatim>\<open>handle\<close> over an event's documents.\<close>

fun addDocs :: "'w deps \<Rightarrow> doc list \<Rightarrow> runner \<Rightarrow> 'w \<Rightarrow> 'w outcome" where
  "addDocs d [] r w = (None, r, w)"
| "addDocs d (doc # docs) r w =
     (let (now, w1) = readClock d doc (r_batcher r) w;
          (batch, b) = Add now doc (r_batcher r);
          r1 = r\<lparr>r_batcher := b\<rparr>
      in if batch \<noteq> [] then (case write_batch d batch r1 w1 of
             (Some e, r2, w2) \<Rightarrow> (Some e, r2, w2)
           | (None, r2, w2) \<Rightarrow> addDocs d docs r2 w2)
         else addDocs d docs r1 w1)"

definition transformRejection :: "'w deps \<Rightarrow> change_event \<Rightarrow> transform_error \<Rightarrow> rejection" where
  "transformRejection d ev e =
     \<lparr>rej_Doc = \<lparr>doc_Key = ev_GTID ev, doc_Body = [], doc_Version = 0, doc_Deleted = False\<rparr>,
      rej_Status = 0, rej_Reason = ''transform failed: '' @ d_errText d e\<rparr>"

text \<open>The position an event carries, noted before its documents are batched.\<close>

definition notePosition :: "change_event \<Rightarrow> runner \<Rightarrow> runner" where
  "notePosition ev r =
     (let r1 = (if ev_GTID ev \<noteq> [] then r\<lparr>r_pendingGTID := ev_GTID ev\<rparr> else r);
          ms = unixMilli (ev_Timestamp ev);
          r2 = (if \<not> isZeroTime (ev_Timestamp ev) \<and> r_pendingEventTsMs r1 < ms
                then r1\<lparr>r_pendingEventTsMs := ms\<rparr> else r1)
      in if ev_Cursor ev \<noteq> []
         then r2\<lparr>r_pendingCursor := ev_Cursor ev, r_pendingRows := ev_RowsScanned ev\<rparr> else r2)"

definition observeEvent :: "'w deps \<Rightarrow> change_event \<Rightarrow> runner \<Rightarrow> 'w \<Rightarrow> runner \<times> 'w" where
  "observeEvent d ev r w =
     (let r1 = observe (ObsEvent (ev_Operation ev)) r
      in if isZeroTime (ev_Timestamp ev) then (r1, w)
         else (let (now, w1) = d_now d w
               in (observe (ObsLag (timeSub now (ev_Timestamp ev))) r1, w1)))"

definition handle :: "'w deps \<Rightarrow> change_event \<Rightarrow> runner \<Rightarrow> 'w \<Rightarrow> 'w outcome" where
  "handle d ev r w = (case Apply (d_env d) (d_plan d) (Some ev) of
      Inl e \<Rightarrow> deadLetter d [transformRejection d ev e] r w
    | Inr docs \<Rightarrow>
        (let (r1, w1) = observeEvent d ev r w in addDocs d docs (notePosition ev r1) w1))"

definition drain :: "'w deps \<Rightarrow> runner \<Rightarrow> 'w \<Rightarrow> runner \<times> 'w" where
  "drain d r w =
     (if Len (r_batcher r) = 0 then (r, w) else snd (flush_runner d r w))"

datatype input = Recv change_event | Closed | Tick | Cancelled

datatype run_result = Running | Returned "runner_error option"

text \<open>
  The loop of \<^verbatim>\<open>Run\<close> on what its \<^verbatim>\<open>select\<close> receives.  When the script ends the loop is waiting.  A
  timer exists only while documents are pending.
\<close>

definition armTimer :: "'w deps \<Rightarrow> runner \<Rightarrow> 'w \<Rightarrow> int option \<times> 'w" where
  "armTimer d r w = (case NextDeadline (r_batcher r) of
      None \<Rightarrow> (None, w)
    | Some deadline \<Rightarrow>
        (let (now, w1) = d_now d w in (Some (max 0 (timeSub deadline now)), w1)))"

fun Run :: "'w deps \<Rightarrow> input list \<Rightarrow> runner \<Rightarrow> 'w \<Rightarrow> run_result \<times> runner \<times> 'w" where
  "Run d [] r w = (Running, r, w)"
| "Run d (i # is) r w =
     (let (timer, w1) = armTimer d r w
      in case i of
           Cancelled \<Rightarrow> (Returned (Some ContextDone), drain d r w1)
         | Tick \<Rightarrow>
             (if timer = None then Run d is r w1
              else (case flush_runner d r w1 of
                  (Some e, r2, w2) \<Rightarrow> (Returned (Some e), r2, w2)
                | (None, r2, w2) \<Rightarrow> Run d is r2 w2))
         | Closed \<Rightarrow> (case flush_runner d r w1 of (e, r2, w2) \<Rightarrow> (Returned e, r2, w2))
         | Recv ev \<Rightarrow> (case handle d ev r w1 of
               (Some e, r2, w2) \<Rightarrow> (Returned (Some e), r2, w2)
             | (None, r2, w2) \<Rightarrow> Run d is r2 w2))"

subsection \<open>The log of what the dependencies acknowledged\<close>

text \<open>
  The same dependencies, noting every acknowledged write and record, every load, and every save
  whether or not it was acknowledged: a save that reported a failure may be durable all the same.
\<close>

datatype entry =
    Wrote "doc list" result
  | Recorded "rejection list"
  | Loaded "store_error + checkpoint"
  | Saved checkpoint

definition logged :: "'w deps \<Rightarrow> ('w \<times> entry list) deps" where
  "logged d = \<lparr>d_env = d_env d, d_plan = d_plan d, d_errText = d_errText d,
     d_sink = (\<lambda>docs (w, l). case d_sink d docs w of ((res, err), w') \<Rightarrow>
        ((res, err), w', if err = None then l @ [Wrote docs res] else l)),
     d_dlq = map_option (\<lambda>record rejs (w, l). case record rejs w of (err, w') \<Rightarrow>
        (err, w', if err = None then l @ [Recorded rejs] else l)) (d_dlq d),
     d_load = (\<lambda>s (w, l). case d_load d s w of (r, w') \<Rightarrow> (r, w', l @ [Loaded r])),
     d_save = (\<lambda>cp (w, l). case d_save d cp w of (err, w') \<Rightarrow> (err, w', l @ [Saved cp])),
     d_now = (\<lambda>(w, l). case d_now d w of (t, w') \<Rightarrow> (t, w', l))\<rparr>"

lemma logged_simps [simp]:
  "d_env (logged d) = d_env d" "d_plan (logged d) = d_plan d" "d_errText (logged d) = d_errText d"
  by (simp_all add: logged_def)

lemma transformRejection_logged [simp]:
  "transformRejection (logged d) = transformRejection d"
  by (intro ext) (simp add: transformRejection_def)

fun written :: "entry list \<Rightarrow> doc list" where
  "written [] = []"
| "written (Wrote docs res # l) = docs @ written l"
| "written (_ # l) = written l"

lemma written_append [simp]: "written (l @ l') = written l @ written l'"
  by (induction l rule: written.induct) auto

text \<open>The documents of a sequence of events; an event that cannot be transformed has none.\<close>

definition docsOf :: "'w deps \<Rightarrow> change_event list \<Rightarrow> doc list" where
  "docsOf d evs = concat (map (\<lambda>e. case Apply (d_env d) (d_plan d) (Some e) of
      Inl _ \<Rightarrow> [] | Inr docs \<Rightarrow> docs) evs)"

lemma docsOf_append [simp]: "docsOf d (es @ es') = docsOf d es @ docsOf d es'"
  by (simp add: docsOf_def)

lemma docsOf_Nil [simp]: "docsOf d [] = []"
  by (simp add: docsOf_def)

lemma docsOf_take: "prefix (docsOf d (take k evs)) (docsOf d evs)"
  by (metis append_take_drop_id docsOf_append prefixI)

text \<open>Every acknowledged write was accounted for, and what it refused was recorded.\<close>

definition allSettled :: "entry list \<Rightarrow> bool" where
  "allSettled l \<longleftrightarrow> (\<forall>docs res. Wrote docs res \<in> set l \<longrightarrow>
     Total res = length docs \<and> (res_Rejected res \<noteq> [] \<longrightarrow> Recorded (res_Rejected res) \<in> set l))"

text \<open>Every event that could not be transformed was recorded.\<close>

definition failuresRecorded :: "'w deps \<Rightarrow> change_event list \<Rightarrow> entry list \<Rightarrow> bool" where
  "failuresRecorded d evs l \<longleftrightarrow> (\<forall>e \<in> set evs. \<forall>err.
     Apply (d_env d) (d_plan d) (Some e) = Inl err \<longrightarrow> Recorded [transformRejection d e err] \<in> set l)"

text \<open>
  A position \<^term>\<open>v\<close> read off some event (its GTID set or its cursor) is safe to save after the log
  \<^term>\<open>l\<close>: it is that of an event received, and every document of the events received before that
  one is among the documents written, in order, with every refusal and failure recorded.
\<close>

definition covered ::
    "'w deps \<Rightarrow> change_event list \<Rightarrow> entry list \<Rightarrow> (change_event \<Rightarrow> string) \<Rightarrow> string \<Rightarrow> bool" where
  "covered d evs l sel v \<longleftrightarrow> (\<exists>k < length evs. sel (evs ! k) = v \<and>
     prefix (docsOf d (take k evs)) (written l) \<and> allSettled l \<and> failuresRecorded d (take k evs) l)"

text \<open>What a save leaves as it was loaded: the scan's own record and the version watermark.\<close>

definition keepsRest :: "checkpoint \<Rightarrow> checkpoint \<Rightarrow> bool" where
  "keepsRest cp cp' \<longleftrightarrow> cp_SnapshotDone cp' = cp_SnapshotDone cp \<and>
     cp_SnapshotStartGTID cp' = cp_SnapshotStartGTID cp \<and>
     cp_SnapshotBaseSeq cp' = cp_SnapshotBaseSeq cp \<and>
     cp_SnapshotRowsTotal cp' = cp_SnapshotRowsTotal cp \<and>
     cp_SeqWatermark cp' = cp_SeqWatermark cp \<and> cp_LastError cp' = cp_LastError cp"

definition safeSave ::
    "'w deps \<Rightarrow> change_event list \<Rightarrow> entry list \<Rightarrow> store_error + checkpoint \<Rightarrow> checkpoint \<Rightarrow> bool" where
  "safeSave d evs l loaded cp \<longleftrightarrow>
     (cp_GTIDSet cp = cp_GTIDSet (loadedOrZero loaded) \<or> covered d evs l ev_GTID (cp_GTIDSet cp)) \<and>
     (cp_SnapshotCursor cp = cp_SnapshotCursor (loadedOrZero loaded) \<or>
      covered d evs l ev_Cursor (cp_SnapshotCursor cp)) \<and>
     keepsRest (loadedOrZero loaded) cp"

definition safeSaves :: "'w deps \<Rightarrow> change_event list \<Rightarrow> entry list \<Rightarrow> bool" where
  "safeSaves d evs l \<longleftrightarrow> (\<forall>before cp after. l = before @ Saved cp # after \<longrightarrow>
     (\<exists>earlier loaded. before = earlier @ [Loaded loaded] \<and> safeSave d evs earlier loaded cp))"

lemma covered_mono: "covered d evs l sel v \<Longrightarrow> covered d (evs @ evs2) l sel v"
  unfolding covered_def by (metis (no_types, lifting) length_append nth_append take_append
      append_Nil2 less_imp_le_nat diff_is_0_eq take0 trans_less_add1)

lemma safeSave_mono: "safeSave d evs l ld cp \<Longrightarrow> safeSave d (evs @ evs2) l ld cp"
  unfolding safeSave_def using covered_mono by blast

lemma safeSaves_mono: "safeSaves d evs l \<Longrightarrow> safeSaves d (evs @ evs2) l"
  unfolding safeSaves_def by (metis safeSave_mono)

lemma safeSaves_Nil [simp]: "safeSaves d evs []"
  by (simp add: safeSaves_def)

lemma snoc_split:
  "l @ [x] = before @ y # after \<Longrightarrow>
     (after = [] \<and> before = l \<and> x = y) \<or> (\<exists>rest. after = rest @ [x] \<and> l = before @ y # rest)"
  by (cases after rule: rev_cases) auto

lemma safeSaves_snoc:
  assumes "safeSaves d evs l" and "\<And>cp. x \<noteq> Saved cp"
  shows "safeSaves d evs (l @ [x])"
  using assms unfolding safeSaves_def by (metis snoc_split)

lemma safeSaves_save:
  assumes "safeSaves d evs l" and "safeSave d evs l loaded cp"
  shows "safeSaves d evs (l @ [Loaded loaded] @ [Saved cp])"
proof -
  have "safeSaves d evs (l @ [Loaded loaded])" by (rule safeSaves_snoc [OF assms(1)]) simp
  with assms(2) show ?thesis unfolding safeSaves_def
    by (metis (no_types, lifting) append_assoc snoc_split entry.inject(4))
qed

lemma allSettled_other:
  "allSettled l \<Longrightarrow> (\<And>docs res. x \<noteq> Wrote docs res) \<Longrightarrow> allSettled (l @ [x])"
  by (fastforce simp: allSettled_def)

lemma failuresRecorded_mono: "failuresRecorded d evs l \<Longrightarrow> failuresRecorded d evs (l @ l')"
  by (fastforce simp: failuresRecorded_def)

lemma failuresRecorded_take: "failuresRecorded d evs l \<Longrightarrow> failuresRecorded d (take k evs) l"
  by (auto simp: failuresRecorded_def dest: in_set_takeD)

subsection \<open>The invariant of the loop\<close>

text \<open>The position the runner holds is that of an event it received.\<close>

definition noted :: "change_event list \<Rightarrow> runner \<Rightarrow> bool" where
  "noted evs r \<longleftrightarrow>
     (r_pendingGTID r = [] \<or> (\<exists>k < length evs. ev_GTID (evs ! k) = r_pendingGTID r)) \<and>
     (r_pendingCursor r = [] \<or> (\<exists>k < length evs. ev_Cursor (evs ! k) = r_pendingCursor r))"

text \<open>A position may be saved after \<^term>\<open>l\<close> once the events before the last one are settled.\<close>

definition maySave :: "'w deps \<Rightarrow> change_event list \<Rightarrow> entry list \<Rightarrow> bool" where
  "maySave d evs l \<longleftrightarrow> prefix (docsOf d (butlast evs)) (written l) \<and> allSettled l \<and>
     failuresRecorded d (butlast evs) l"

lemma take_butlast_less: "k < length xs \<Longrightarrow> take k xs = take k (butlast xs)"
  by (simp add: butlast_conv_take)

lemma maySave_covered:
  assumes "maySave d evs l" and "k < length evs" and "sel (evs ! k) = v"
  shows "covered d evs l sel v"
proof -
  have "prefix (docsOf d (take k evs)) (docsOf d (butlast evs))"
    using docsOf_take [of d k "butlast evs"] take_butlast_less [OF assms(2)] by simp
  with assms failuresRecorded_take [of d "butlast evs" l k] take_butlast_less [OF assms(2)]
  show ?thesis unfolding covered_def maySave_def by (auto intro: prefix_order.trans)
qed

lemma advanced_simps:
  "cp_GTIDSet (advanced r cp) = (if r_pendingGTID r \<noteq> [] then r_pendingGTID r else cp_GTIDSet cp)"
  "cp_SnapshotCursor (advanced r cp) =
     (if r_pendingCursor r \<noteq> [] then r_pendingCursor r else cp_SnapshotCursor cp)"
  "cp_Stream (advanced r cp) = r_stream r"
  "keepsRest cp (advanced r cp)"
  by (simp_all add: advanced_def keepsRest_def Let_def)

lemma maySave_safeSave:
  assumes "maySave d evs l" and "noted evs r"
  shows "safeSave d evs l loaded (advanced r (loadedOrZero loaded))"
  using assms(2) maySave_covered [OF assms(1)]
  by (auto simp: safeSave_def noted_def advanced_simps)

text \<open>What a step of the loop leaves alone.\<close>

definition samePosition :: "runner \<Rightarrow> runner \<Rightarrow> bool" where
  "samePosition r r' \<longleftrightarrow> r_batcher r' = r_batcher r \<and> r_pendingGTID r' = r_pendingGTID r \<and>
     r_pendingCursor r' = r_pendingCursor r \<and> r_stream r' = r_stream r"

lemma noted_same: "samePosition r r' \<Longrightarrow> noted evs r \<Longrightarrow> noted evs r'"
  by (simp add: samePosition_def noted_def)

lemma observe_same [simp]: "samePosition r (observe x r)"
  by (simp add: samePosition_def observe_def)

lemma samePosition_refl [simp]: "samePosition r r"
  by (simp add: samePosition_def)

lemma samePosition_trans: "samePosition r1 r2 \<Longrightarrow> samePosition r2 r3 \<Longrightarrow> samePosition r1 r3"
  by (simp add: samePosition_def)

lemma logged_save [simp]:
  "d_save (logged d) cp (w, l) = (case d_save d cp w of (err, w') \<Rightarrow> (err, w', l @ [Saved cp]))"
  by (simp add: logged_def)

lemma logged_load [simp]:
  "d_load (logged d) s (w, l) = (case d_load d s w of (r, w') \<Rightarrow> (r, w', l @ [Loaded r]))"
  by (simp add: logged_def)

lemma logged_now [simp]:
  "d_now (logged d) (w, l) = (case d_now d w of (t, w') \<Rightarrow> (t, w', l))"
  by (simp add: logged_def)

lemma logged_sink [simp]:
  "d_sink (logged d) docs (w, l) = (case d_sink d docs w of ((res, err), w') \<Rightarrow>
     ((res, err), w', if err = None then l @ [Wrote docs res] else l))"
  by (simp add: logged_def)

lemma logged_dlq [simp]:
  "d_dlq (logged d) = map_option (\<lambda>record rejs (w, l). case record rejs w of (err, w') \<Rightarrow>
     (err, w', if err = None then l @ [Recorded rejs] else l)) (d_dlq d)"
  by (simp add: logged_def)

lemma advance_logged:
  assumes "advance (logged d) r (w, l) = (err, r', w', l')"
  shows "samePosition r r' \<and> (l' = l \<and> err = None \<or>
     (\<exists>ld. l' = l @ [Loaded ld] \<and> err \<noteq> None) \<or>
     (\<exists>ld. l' = l @ [Loaded ld] @ [Saved (advanced r (loadedOrZero ld))]))"
  using assms
  by (auto simp: advance_def split: if_splits prod.splits sum.splits store_error.splits option.splits)

lemma advance_step:
  assumes "advance (logged d) r (w, l) = (err, r', w', l')"
    and "maySave d evs l" and "noted evs r" and "safeSaves d evs l"
  shows "safeSaves d evs l' \<and> allSettled l' \<and> written l' = written l"
proof -
  have settled: "allSettled (l @ [Loaded ld])" "allSettled (l @ [Loaded ld] @ [Saved cp])" for ld cp
    using assms(2) allSettled_other [of l "Loaded ld"] allSettled_other [of "l @ [Loaded ld]" "Saved cp"]
    by (auto simp: maySave_def)
  from advance_logged [OF assms(1)] show ?thesis
  proof (elim conjE disjE exE)
    fix ld assume "l' = l @ [Loaded ld]"
    then show ?thesis using settled(1) safeSaves_snoc [OF assms(4), of "Loaded ld"] by simp
  next
    fix ld assume "l' = l @ [Loaded ld] @ [Saved (advanced r (loadedOrZero ld))]"
    with settled(2) safeSaves_save [OF assms(4) maySave_safeSave [OF assms(2,3)]]
    show ?thesis by (simp del: append.simps append_assoc)
  qed (use assms(2,4) in \<open>auto simp: maySave_def\<close>)
qed

lemma advance_mono:
  assumes "advance (logged d) r (w, l) = (err, r', w', l')"
  shows "\<exists>ext. l' = l @ ext" and "samePosition r r'"
  using advance_logged [OF assms] by auto

lemma deadLetter_logged:
  assumes "deadLetter (logged d) rejs r (w, l) = (err, r', w', l')"
  shows "samePosition r r' \<and> (err = None \<and> l' = l @ [Recorded rejs] \<or> err \<noteq> None \<and> l' = l)"
  using assms by (auto simp: deadLetter_def split: option.splits prod.splits if_splits)

lemma allSettled_write:
  assumes "allSettled l" and "Total res = length batch"
  shows "res_Rejected res = [] \<Longrightarrow> allSettled (l @ [Wrote batch res])"
    and "allSettled (l @ [Wrote batch res, Recorded (res_Rejected res)])"
  using assms by (auto simp: allSettled_def)

lemma write_batch_step:
  assumes run: "write_batch (logged d) batch r (w, l) = (err, r', w', l')"
    and settled: "allSettled l" and noted: "noted evs r" and safe: "safeSaves d evs l"
    and pre: "prefix (docsOf d (butlast evs)) (written l @ batch)"
    and fails: "failuresRecorded d (butlast evs) l"
  shows "samePosition r r' \<and> safeSaves d evs l' \<and> (\<exists>ext. l' = l @ ext) \<and>
     (written l' = written l \<or> written l' = written l @ batch) \<and>
     (err = None \<longrightarrow> allSettled l' \<and> written l' = written l @ batch)"
proof -
  obtain t1 w1 where n1: "d_now d w = (t1, w1)" by force
  obtain res e w2 where sk: "d_sink d batch w1 = ((res, e), w2)" by (metis prod.exhaust)
  obtain t2 w3 where n2: "d_now d w2 = (t2, w3)" by force
  define r2 where "r2 = observe (ObsWrite (res_Applied res) (res_Stale res)
    (length (res_Rejected res)) (timeSub t2 t1) (e \<noteq> None)) (observe (ObsBatch (length batch)) r)"
  have same2: "samePosition r r2" by (simp add: r2_def samePosition_def observe_def)
  let ?l1 = "l @ [Wrote batch res]"
  have safe1: "safeSaves d evs ?l1" by (rule safeSaves_snoc [OF safe]) simp
  show ?thesis
  proof (cases "e = None \<and> Total res = length batch")
    case False
    with run n1 sk n2 have "err \<noteq> None \<and> r' = r2 \<and> l' = (if e = None then ?l1 else l)"
      by (auto simp: write_batch_def r2_def Let_def split: if_splits option.splits)
    with same2 safe safe1 show ?thesis by auto
  next
    case True
    show ?thesis
    proof (cases "res_Rejected res = []")
      case None: True
      with True run n1 sk n2 have adv: "advance (logged d) r2 (w3, ?l1) = (err, r', w', l')"
        by (simp add: write_batch_def r2_def Let_def)
      have may: "maySave d evs ?l1"
        using pre failuresRecorded_mono [OF fails] allSettled_write(1) [OF settled _ None] True
        by (simp add: maySave_def)
      note step = advance_step [OF adv may noted_same [OF same2 noted] safe1]
      from advance_mono [OF adv] step samePosition_trans [OF same2] show ?thesis by auto
    next
      case Some: False
      obtain e3 r3 w4 l4 where dl: "deadLetter (logged d) (res_Rejected res) r2 (w3, ?l1) =
          (e3, r3, w4, l4)" by (metis prod_cases4)
      from deadLetter_logged [OF dl] have same3: "samePosition r2 r3" by simp
      show ?thesis
      proof (cases e3)
        case None
        let ?l2 = "?l1 @ [Recorded (res_Rejected res)]"
        from deadLetter_logged [OF dl] None have l4: "l4 = ?l2" by simp
        with None True Some run n1 sk n2 dl have adv: "advance (logged d) r3 (w4, ?l2) = (err, r', w', l')"
          by (simp add: write_batch_def r2_def Let_def)
        have may: "maySave d evs ?l2"
          using pre failuresRecorded_mono [OF fails] allSettled_write(2) [OF settled, of res batch] True
          by (simp add: maySave_def)
        have safe2: "safeSaves d evs ?l2" by (rule safeSaves_snoc [OF safe1]) simp
        have same: "samePosition r r3" by (rule samePosition_trans [OF same2 same3])
        note step = advance_step [OF adv may noted_same [OF same noted] safe2]
        from advance_mono [OF adv] step samePosition_trans [OF same] show ?thesis by auto
      next
        case (Some x)
        with deadLetter_logged [OF dl] have "l4 = ?l1" by auto
        with Some \<open>res_Rejected res \<noteq> []\<close> True run n1 sk n2 dl
        have "err \<noteq> None \<and> r' = r3 \<and> l' = ?l1"
          by (auto simp: write_batch_def r2_def Let_def)
        with safe1 samePosition_trans [OF same2 same3] show ?thesis by auto
      qed
    qed
  qed
qed

text \<open>Within an event: the events before it, and its documents that were handed to the batcher.\<close>

definition midEvent ::
    "'w deps \<Rightarrow> change_event list \<Rightarrow> change_event \<Rightarrow> doc list \<Rightarrow> runner \<Rightarrow> entry list \<Rightarrow> bool" where
  "midEvent d evs e given r l \<longleftrightarrow>
     written l @ b_pending (r_batcher r) = docsOf d evs @ given \<and> allSettled l \<and>
     failuresRecorded d evs l \<and> noted (evs @ [e]) r \<and> safeSaves d (evs @ [e]) l"

lemma readClock_logged: "\<exists>now w1. readClock (logged d) doc b (w, l) = (now, w1, l)"
  by (cases "d_now d w") (simp add: readClock_def)

lemma addDocs_step:
  "addDocs (logged d) docs r (w, l) = (err, r', w', l') \<Longrightarrow> midEvent d evs e given r l \<Longrightarrow>
     safeSaves d (evs @ [e]) l' \<and> prefix (written l') (docsOf d evs @ given @ docs) \<and>
     (err = None \<longrightarrow> midEvent d evs e (given @ docs) r' l')"
proof (induction docs arbitrary: r w l given)
  case Nil
  then show ?case by (auto simp: midEvent_def) (metis prefixI)
next
  case (Cons doc docs)
  let ?es = "evs @ [e]"
  from Cons.prems(2) have mid: "written l @ b_pending (r_batcher r) = docsOf d evs @ given"
    "allSettled l" "failuresRecorded d evs l" "noted ?es r" "safeSaves d ?es l"
    by (auto simp: midEvent_def)
  obtain now w1 where rc: "readClock (logged d) doc (r_batcher r) (w, l) = (now, w1, l)"
    using readClock_logged by metis
  obtain batch b where a: "Add now doc (r_batcher r) = (batch, b)" by force
  note conserve = bq.add_conserves [OF a]
  let ?r1 = "r\<lparr>r_batcher := b\<rparr>"
  have noted1: "noted ?es ?r1" using mid(4) by (simp add: noted_def)
  have all: "written l @ batch @ b_pending b = docsOf d evs @ given @ [doc]"
    using conserve mid(1) by (metis append.assoc)
  show ?case
  proof (cases "batch = []")
    case True
    with all have "midEvent d evs e (given @ [doc]) ?r1 l"
      using mid noted1 by (simp add: midEvent_def)
    moreover from True Cons.prems(1) rc a have "addDocs (logged d) docs ?r1 (w1, l) = (err, r', w', l')"
      by (simp add: Let_def)
    ultimately show ?thesis using Cons.IH by fastforce
  next
    case False
    obtain e2 r2 w2 l2 where wb: "write_batch (logged d) batch ?r1 (w1, l) = (e2, r2, w2, l2)"
      by (metis prod_cases4)
    from bq.add_flushes_old [OF a False] obtain rest where "batch = b_pending (r_batcher r) @ rest" by auto
    with mid(1) have "written l @ batch = docsOf d evs @ given @ rest" by (metis append.assoc)
    then have pre: "prefix (docsOf d (butlast ?es)) (written l @ batch)" by simp
    from mid(3) have fails: "failuresRecorded d (butlast ?es) l" by simp
    note step = write_batch_step [OF wb mid(2) noted1 mid(5) pre fails]
    have upto: "prefix (written l2) (docsOf d evs @ given @ doc # docs)"
    proof -
      have "prefix (written l @ batch) (docsOf d evs @ given @ [doc])"
        using all by (metis append.assoc prefixI)
      then have "prefix (written l @ batch) ((docsOf d evs @ given @ [doc]) @ docs)"
        by (rule prefix_order.trans) simp
      moreover have "prefix (written l2) (written l @ batch)" using step by auto
      ultimately show ?thesis by (auto intro: prefix_order.trans)
    qed
    show ?thesis
    proof (cases e2)
      case (Some x)
      with Cons.prems(1) rc a False wb have "err = Some x \<and> l' = l2" by (simp add: Let_def)
      with step upto show ?thesis by simp
    next
      case None
      with Cons.prems(1) rc a False wb have rec: "addDocs (logged d) docs r2 (w2, l2) = (err, r', w', l')"
        by (simp add: Let_def)
      from step obtain ext where ext: "l2 = l @ ext" by auto
      from step have "r_batcher r2 = b" by (simp add: samePosition_def)
      with step None all mid(3) ext noted_same [OF _ noted1]
      have "midEvent d evs e (given @ [doc]) r2 l2"
        by (simp add: midEvent_def failuresRecorded_mono)
      from Cons.IH [OF rec this] show ?thesis by simp
    qed
  qed
qed

text \<open>Between events: everything received is written or pending.\<close>

definition betweenEvents ::
    "'w deps \<Rightarrow> change_event list \<Rightarrow> runner \<Rightarrow> entry list \<Rightarrow> bool" where
  "betweenEvents d evs r l \<longleftrightarrow>
     written l @ b_pending (r_batcher r) = docsOf d evs \<and> allSettled l \<and>
     failuresRecorded d evs l \<and> noted evs r \<and> safeSaves d evs l"

text \<open>What holds of the log however the loop ends.\<close>

definition soundLog :: "'w deps \<Rightarrow> change_event list \<Rightarrow> entry list \<Rightarrow> bool" where
  "soundLog d evs l \<longleftrightarrow> safeSaves d evs l \<and> prefix (written l) (docsOf d evs)"

lemma soundLog_mono: "soundLog d evs l \<Longrightarrow> soundLog d (evs @ evs2) l"
  by (auto simp: soundLog_def safeSaves_mono intro: prefix_order.trans)

lemma betweenEvents_sound: "betweenEvents d evs r l \<Longrightarrow> soundLog d evs l"
  unfolding betweenEvents_def soundLog_def by (metis prefixI)

lemma flush_step:
  assumes run: "flush_runner (logged d) r (w, l) = (err, r', w', l')" and inv: "betweenEvents d evs r l"
  shows "soundLog d evs l' \<and> (err = None \<longrightarrow> betweenEvents d evs r' l' \<and> written l' = docsOf d evs)"
proof (cases "b_pending (r_batcher r) = []")
  case True
  with run have "err = None" "l' = l" "r' = r\<lparr>r_batcher := r_batcher r\<rparr>"
    by (auto simp: flush_runner_def Flush_def)
  with True inv show ?thesis using betweenEvents_sound [OF inv]
    by (auto simp: betweenEvents_def)
next
  case False
  let ?b = "b_pending (r_batcher r)"
  obtain b where fl: "Flush (r_batcher r) = (?b, b)" and b: "b_pending b = []"
    by (metis Flush_simps(1,2) prod.collapse)
  let ?r1 = "r\<lparr>r_batcher := b\<rparr>"
  from inv have I: "written l @ ?b = docsOf d evs" "allSettled l" "failuresRecorded d evs l"
    "noted evs ?r1" "safeSaves d evs l"
    by (auto simp: betweenEvents_def noted_def)
  from run fl False have wb: "write_batch (logged d) ?b ?r1 (w, l) = (err, r', w', l')"
    by (simp add: flush_runner_def)
  have pre: "prefix (docsOf d (butlast evs)) (written l @ ?b)"
    using I(1) docsOf_take [of d "length evs - 1" evs] by (simp add: butlast_conv_take)
  have fails: "failuresRecorded d (butlast evs) l"
    using I(3) by (simp add: butlast_conv_take failuresRecorded_take)
  note step = write_batch_step [OF wb I(2,4,5) pre fails]
  then have "soundLog d evs l'"
    using I(1) by (auto simp: soundLog_def) (metis prefixI)
  moreover have "betweenEvents d evs r' l' \<and> written l' = docsOf d evs" if "err = None"
  proof -
    from step have "r_batcher r' = b" by (simp add: samePosition_def)
    moreover from step obtain ext where "l' = l @ ext" by auto
    ultimately show ?thesis using step that I b noted_same [of ?r1 r']
      by (simp add: betweenEvents_def failuresRecorded_mono)
  qed
  ultimately show ?thesis by simp
qed

lemma observeEvent_logged:
  "\<exists>r1 w1. observeEvent (logged d) ev r (w, l) = (r1, w1, l) \<and> samePosition r r1"
  by (cases "d_now d w") (simp add: observeEvent_def observe_def samePosition_def Let_def)

lemma notePosition_batcher [simp]: "r_batcher (notePosition ev r) = r_batcher r"
  by (simp add: notePosition_def Let_def)

lemma noted_snoc: "noted evs r \<Longrightarrow> noted (evs @ [ev]) r"
  unfolding noted_def by (metis length_append_singleton less_SucI nth_append)

lemma noted_notePosition:
  assumes "noted evs r"
  shows "noted (evs @ [ev]) (notePosition ev r)"
proof -
  have "(evs @ [ev]) ! length evs = ev" "length evs < length (evs @ [ev])" by simp_all
  with noted_snoc [OF assms, of ev] show ?thesis
    unfolding noted_def notePosition_def Let_def by (cases "ev_GTID ev = []"; cases "ev_Cursor ev = []") auto
qed

lemma handle_step:
  assumes run: "handle (logged d) ev r (w, l) = (err, r', w', l')" and inv: "betweenEvents d evs r l"
  shows "soundLog d (evs @ [ev]) l' \<and> (err = None \<longrightarrow> betweenEvents d (evs @ [ev]) r' l')"
proof (cases "Apply (d_env d) (d_plan d) (Some ev)")
  case (Inl e)
  with run have dl: "deadLetter (logged d) [transformRejection d ev e] r (w, l) = (err, r', w', l')"
    by (simp add: handle_def)
  note step = deadLetter_logged [OF dl]
  have none: "docsOf d [ev] = []" using Inl by (simp add: docsOf_def)
  have sound: "soundLog d (evs @ [ev]) l" by (rule soundLog_mono [OF betweenEvents_sound [OF inv]])
  let ?l1 = "l @ [Recorded [transformRejection d ev e]]"
  have "soundLog d (evs @ [ev]) ?l1"
    using sound safeSaves_snoc [of d "evs @ [ev]" l] by (simp add: soundLog_def)
  moreover have "betweenEvents d (evs @ [ev]) r' ?l1" if "samePosition r r'"
  proof -
    have "failuresRecorded d (evs @ [ev]) ?l1"
      using inv Inl by (auto simp: betweenEvents_def failuresRecorded_def)
    moreover have "allSettled ?l1"
      using inv allSettled_other [of l] by (simp add: betweenEvents_def)
    moreover have "noted (evs @ [ev]) r'"
      using inv noted_snoc noted_same [OF that] by (auto simp: betweenEvents_def)
    ultimately show ?thesis
      using inv none that \<open>soundLog d (evs @ [ev]) ?l1\<close>
      by (simp add: betweenEvents_def samePosition_def soundLog_def)
  qed
  ultimately show ?thesis using step sound by auto
next
  case (Inr docs)
  obtain r1 w1 where oe: "observeEvent (logged d) ev r (w, l) = (r1, w1, l)" and same: "samePosition r r1"
    using observeEvent_logged by metis
  from Inr run oe have ad: "addDocs (logged d) docs (notePosition ev r1) (w1, l) = (err, r', w', l')"
    by (simp add: handle_def)
  have docs: "docsOf d [ev] = docs" using Inr by (simp add: docsOf_def)
  have "midEvent d evs ev [] (notePosition ev r1) l"
    using inv same noted_notePosition [OF noted_same [OF same]] safeSaves_mono
    by (auto simp: midEvent_def betweenEvents_def samePosition_def)
  note step = addDocs_step [OF ad this]
  have "failuresRecorded d [ev] l'" using Inr by (simp add: failuresRecorded_def)
  then have "failuresRecorded d (evs @ [ev]) l'" if "failuresRecorded d evs l'"
    using that by (auto simp: failuresRecorded_def)
  with step docs show ?thesis by (auto simp: soundLog_def midEvent_def betweenEvents_def)
qed

subsection \<open>The loop\<close>

fun received :: "input list \<Rightarrow> change_event list" where
  "received [] = []"
| "received (Recv ev # is) = ev # received is"
| "received (_ # is) = received is"

lemma received_append [simp]: "received (is @ js) = received is @ received js"
  by (induction "is" rule: received.induct) auto

lemma armTimer_logged: "\<exists>t w1. armTimer (logged d) r (w, l) = (t, w1, l)"
  by (cases "d_now d w") (simp add: armTimer_def split: option.splits)

lemma drain_logged:
  assumes "drain (logged d) r (w, l) = (r', w', l')" and "betweenEvents d evs r l"
  shows "soundLog d evs l'"
proof (cases "Len (r_batcher r) = 0")
  case True
  with assms betweenEvents_sound show ?thesis by (auto simp: drain_def)
next
  case False
  then obtain err where "flush_runner (logged d) r (w, l) = (err, r', w', l')"
    using assms(1) by (metis drain_def prod.collapse)
  from flush_step [OF this assms(2)] show ?thesis by simp
qed

lemma Run_step:
  "Run (logged d) is r (w, l) = (res, r', w', l') \<Longrightarrow> betweenEvents d evs r l \<Longrightarrow>
     soundLog d (evs @ received is) l' \<and> (res = Running \<longrightarrow> betweenEvents d (evs @ received is) r' l')"
proof (induction "is" arbitrary: r w l evs)
  case Nil
  then show ?case using betweenEvents_sound by auto
next
  case (Cons i "is")
  obtain t w1 where arm: "armTimer (logged d) r (w, l) = (t, w1, l)" using armTimer_logged by metis
  show ?case
  proof (cases i)
    case (Recv ev)
    obtain e r2 w2 l2 where h: "handle (logged d) ev r (w1, l) = (e, r2, w2, l2)"
      by (metis prod_cases4)
    note step = handle_step [OF h Cons.prems(2)]
    show ?thesis
    proof (cases e)
      case None
      with Cons.prems(1) Recv arm h have "Run (logged d) is r2 (w2, l2) = (res, r', w', l')" by simp
      from Cons.IH [OF this] step None Recv show ?thesis by force
    next
      case (Some x)
      with Cons.prems(1) Recv arm h have "res = Returned (Some x) \<and> l' = l2" by simp
      with step Recv soundLog_mono [of d "evs @ [ev]" l2 "received is"] show ?thesis by simp
    qed
  next
    case Tick
    show ?thesis
    proof (cases t)
      case None
      with Cons.prems(1) Tick arm have "Run (logged d) is r (w1, l) = (res, r', w', l')" by simp
      from Cons.IH [OF this Cons.prems(2)] Tick show ?thesis by simp
    next
      case (Some delay)
      obtain e r2 w2 l2 where f: "flush_runner (logged d) r (w1, l) = (e, r2, w2, l2)"
        by (metis prod_cases4)
      note step = flush_step [OF f Cons.prems(2)]
      show ?thesis
      proof (cases e)
        case None
        with Cons.prems(1) Tick Some arm f have "Run (logged d) is r2 (w2, l2) = (res, r', w', l')"
          by simp
        from Cons.IH [OF this] step None Tick show ?thesis by simp
      next
        case e: (Some x)
        with Cons.prems(1) Tick Some arm f have "res = Returned (Some x) \<and> l' = l2" by simp
        with step Tick soundLog_mono show ?thesis by auto
      qed
    qed
  next
    case Closed
    obtain e where f: "flush_runner (logged d) r (w1, l) = (e, r', w', l')" and "res = Returned e"
      using Cons.prems(1) Closed arm by (auto split: prod.splits)
    with flush_step [OF f Cons.prems(2)] Closed soundLog_mono show ?thesis by auto
  next
    case Cancelled
    with Cons.prems(1) arm have "drain (logged d) r (w1, l) = (r', w', l')" "res \<noteq> Running" by auto
    with drain_logged [OF this(1) Cons.prems(2)] Cancelled soundLog_mono show ?thesis by auto
  qed
qed

lemma NewRunner_between:
  assumes "NewRunner stream hp hs ht lim grace = Inr r"
  shows "betweenEvents d [] r []" and "r_stream r = stream"
  using assms NewBatcher_OK(3)
  by (auto simp: NewRunner_def betweenEvents_def allSettled_def failuresRecorded_def noted_def
      split: if_splits sum.splits)

lemma Run_append:
  "Run d (is @ js) r w = (case Run d is r w of
      (Running, r1, w1) \<Rightarrow> Run d js r1 w1
    | (Returned e, r1, w1) \<Rightarrow> (Returned e, r1, w1))"
proof (induction "is" arbitrary: r w)
  case (Cons i "is")
  then show ?case by (cases i) (auto simp: Let_def split: prod.splits option.splits)
qed simp

subsection \<open>Dependencies that work\<close>

definition healthy :: "'w deps \<Rightarrow> bool" where
  "healthy d \<longleftrightarrow>
     (\<forall>docs w. \<exists>res w'. d_sink d docs w = ((res, None), w') \<and> Total res = length docs) \<and>
     (\<exists>record. d_dlq d = Some record \<and> (\<forall>rejs w. \<exists>w'. record rejs w = (None, w'))) \<and>
     (\<forall>s w e w'. d_load d s w \<noteq> (Inl (StoreFailed e), w')) \<and>
     (\<forall>cp w. \<exists>w'. d_save d cp w = (None, w'))"

lemma healthy_deadLetter:
  assumes "healthy d"
  shows "\<exists>r' w'. deadLetter d rejs r w = (None, r', w')"
proof -
  from assms obtain put where rec: "d_dlq d = Some put" "\<And>rejs w. \<exists>w'. put rejs w = (None, w')"
    by (auto simp: healthy_def)
  obtain w' where "put rejs w = (None, w')" using rec(2) by metis
  with rec(1) show ?thesis by (simp add: deadLetter_def)
qed

lemma healthy_advance:
  assumes "healthy d"
  shows "\<exists>r' w'. advance d r w = (None, r', w')"
proof -
  obtain ld w1 where l: "d_load d (r_stream r) w = (ld, w1)" by force
  have ok: "ld \<noteq> Inl (StoreFailed e)" for e using assms l unfolding healthy_def by metis
  obtain w2 where "d_save d (advanced r (loadedOrZero ld)) w1 = (None, w2)"
    using assms unfolding healthy_def by metis
  with l ok show ?thesis
    by (cases ld) (auto simp: advance_def split: store_error.splits)
qed

lemma healthy_write:
  assumes "healthy d"
  shows "\<exists>r' w'. write_batch d batch r w = (None, r', w')"
proof -
  obtain t1 w1 where n1: "d_now d w = (t1, w1)" by force
  obtain res w2 where s: "d_sink d batch w1 = ((res, None), w2)" "Total res = length batch"
    using assms unfolding healthy_def by metis
  obtain t2 w3 where n2: "d_now d w2 = (t2, w3)" by force
  from n1 s n2 show ?thesis
    using healthy_advance [OF assms] healthy_deadLetter [OF assms, of "res_Rejected res"]
    by (auto simp: write_batch_def Let_def split: prod.splits option.splits) (metis option.distinct(1) prod.inject)+
qed

lemma healthy_flush:
  assumes "healthy d"
  shows "\<exists>r' w'. flush_runner d r w = (None, r', w')"
  using healthy_write [OF assms] by (auto simp: flush_runner_def Let_def split: prod.splits)

lemma healthy_addDocs:
  assumes "healthy d"
  shows "\<exists>r' w'. addDocs d docs r w = (None, r', w')"
proof (induction docs arbitrary: r w)
  case (Cons doc docs)
  obtain now w1 where rc: "readClock d doc (r_batcher r) w = (now, w1)" by force
  obtain batch b where a: "Add now doc (r_batcher r) = (batch, b)" by force
  obtain r2 w2 where "write_batch d batch (r\<lparr>r_batcher := b\<rparr>) w1 = (None, r2, w2)"
    using healthy_write [OF assms] by metis
  with rc a Cons.IH show ?case by (simp add: Let_def)
qed simp

lemma healthy_handle:
  assumes "healthy d"
  shows "\<exists>r' w'. handle d ev r w = (None, r', w')"
  using healthy_addDocs [OF assms] healthy_deadLetter [OF assms]
  by (auto simp: handle_def split: sum.splits prod.splits)

lemma healthy_Run:
  assumes "healthy d"
  shows "\<forall>i \<in> set is. i \<noteq> Closed \<and> i \<noteq> Cancelled \<Longrightarrow> \<exists>r' w'. Run d is r w = (Running, r', w')"
proof (induction "is" arbitrary: r w)
  case (Cons i "is")
  obtain t w1 where arm: "armTimer d r w = (t, w1)" by force
  obtain r2 w2 where f: "flush_runner d r w1 = (None, r2, w2)" using healthy_flush [OF assms] by metis
  show ?case
  proof (cases i)
    case (Recv ev)
    obtain r3 w3 where "handle d ev r w1 = (None, r3, w3)" using healthy_handle [OF assms] by metis
    with Recv arm Cons show ?thesis by simp
  qed (use arm f Cons in \<open>auto simp: Let_def\<close>)
qed simp

lemma healthy_logged:
  assumes "healthy d"
  shows "healthy (logged d)"
proof -
  from assms have sink: "\<And>docs w. \<exists>res w'. d_sink d docs w = ((res, None), w') \<and> Total res = length docs"
    and load: "\<And>s w e w'. d_load d s w \<noteq> (Inl (StoreFailed e), w')"
    and save: "\<And>cp w. \<exists>w'. d_save d cp w = (None, w')"
    by (auto simp: healthy_def)
  from assms obtain put where dlq: "d_dlq d = Some put"
    and rec: "\<And>rejs w. \<exists>w'. put rejs w = (None, w')"
    by (auto simp: healthy_def)
  define put' where "put' = (\<lambda>rejs (w, l). case put rejs w of (err, w') \<Rightarrow>
      (err, w', if err = None then l @ [Recorded rejs] else l))"
  have "\<exists>w'. put' rejs (w, l) = (None, w')" for rejs w l
    using rec [of rejs w] by (auto simp: put'_def)
  then have rec': "\<forall>rejs wl. \<exists>w'. put' rejs wl = (None, w')" by (metis prod.exhaust)
  have dlq': "d_dlq (logged d) = Some put'" by (simp add: dlq put'_def)
  have "\<exists>res w'. d_sink (logged d) docs (w, l) = ((res, None), w') \<and> Total res = length docs" for docs w l
    using sink [of docs w] by auto
  then have "\<forall>docs wl. \<exists>res w'. d_sink (logged d) docs wl = ((res, None), w') \<and> Total res = length docs"
    by (metis prod.exhaust)
  moreover from rec' dlq'
  have "\<exists>record. d_dlq (logged d) = Some record \<and> (\<forall>rejs wl. \<exists>w'. record rejs wl = (None, w'))"
    by blast
  moreover have "d_load (logged d) s wl \<noteq> (Inl (StoreFailed e), w')" for s wl e w'
    using load by (cases wl) (auto split: prod.splits)
  moreover have "\<exists>w'. d_save (logged d) cp (w, l) = (None, w')" for cp w l
    using save [of cp w] by auto
  then have "\<forall>cp wl. \<exists>w'. d_save (logged d) cp wl = (None, w')" by (metis prod.exhaust)
  ultimately show ?thesis by (simp add: healthy_def)
qed

subsection \<open>Properties\<close>


definition exampleSink :: "doc list \<Rightarrow> 'w \<Rightarrow> (result \<times> string option) \<times> 'w" where
  "exampleSink docs w =
     ((\<lparr>res_Applied = length docs, res_Stale = 0, res_Rejected = []\<rparr>, None), w)"

definition exampleDeps :: "memory_store deps" where
  "exampleDeps = \<lparr>d_env = exampleEnv, d_plan = examplePlan, d_errText = (\<lambda>_. ''bad''),
     d_sink = exampleSink, d_dlq = Some (\<lambda>_ w. (None, w)), d_load = ms_Load,
     d_save = ms_Save 0, d_now = (\<lambda>w. (0, w))\<rparr>"

definition exampleRunner :: runner where
  "exampleRunner = projr (NewRunner ''s'' True True True
     \<lparr>lim_MaxRows = 10, lim_MaxBytes = 40, lim_FlushInterval = 1000\<rparr> 0)"

lemma exampleRunner_new:
  "NewRunner ''s'' True True True
     \<lparr>lim_MaxRows = 10, lim_MaxBytes = 40, lim_FlushInterval = 1000\<rparr> 0 = Inr exampleRunner"
  by (simp add: exampleRunner_def NewRunner_def NewBatcher_def)


lemma Run_closed_healthy:
  assumes "NewRunner stream hasPlan hasSink hasStore lim grace = Inr r" and "healthy d"
    and "\<forall>i \<in> set script. i \<noteq> Closed \<and> i \<noteq> Cancelled"
    and "Run (logged d) (script @ [Closed]) r (w, []) = (res, r', w', log)"
  shows "res = Returned None \<and> written log = docsOf d (received script) \<and> allSettled log \<and>
     failuresRecorded d (received script) log"
proof -
  note healthy = healthy_logged [OF assms(2)]
  obtain r1 w1 l1 where run1: "Run (logged d) script r (w, []) = (Running, r1, w1, l1)"
    using healthy_Run [OF healthy assms(3)] by (metis prod.exhaust)
  have inv: "betweenEvents d (received script) r1 l1"
    using Run_step [OF run1 NewRunner_between(1) [OF assms(1)]] by simp
  obtain t w2 where arm: "armTimer (logged d) r1 (w1, l1) = (t, w2, l1)" using armTimer_logged by metis
  obtain r3 w3 l3 where fl: "flush_runner (logged d) r1 (w2, l1) = (None, r3, w3, l3)"
    using healthy_flush [OF healthy] by (metis prod.exhaust)
  from assms(4) run1 arm fl have "res = Returned None" "log = l3" by (auto simp: Run_append)
  with flush_step [OF fl inv] show ?thesis by (auto simp: betweenEvents_def)
qed

text \<open>
  With dependencies that work, everything is delivered.  Whatever the events and the timer's
  ticks, when the events end \<^verbatim>\<open>Run\<close> returns without an error, the documents the sink acknowledged
  are exactly the documents of the events received, in order, every batch is accounted for, and
  every event that could not be transformed is in the dead letter queue.
\<close>

theorem Run_delivers_all:
  assumes "NewRunner stream hasPlan hasSink hasStore lim grace = Inr r" and "healthy d"
    and "\<forall>i \<in> set script. i \<noteq> Closed \<and> i \<noteq> Cancelled"
    and "Run (logged d) (script @ [Closed]) r (w, []) = (res, r', w', log)"
  shows "res = Returned None \<and> written log = docsOf d (received script) \<and> allSettled log \<and>
     failuresRecorded d (received script) log"
  using Run_closed_healthy [OF assms] .

lemma exampleDeps_healthy: "healthy exampleDeps"
  by (auto simp: healthy_def exampleDeps_def exampleSink_def Total_def ms_Save_def ms_Load_def
      split: option.splits)

theorem Run_delivers_all_witness:
  "fst (Run (logged exampleDeps)
        ([Recv (exampleEvent OperationInsert None (Some (exampleRow 7 ''a'')) 1), Tick] @ [Closed])
        exampleRunner (NewMemoryStore, [])) = Returned None"
proof -
  let ?script = "[Recv (exampleEvent OperationInsert None (Some (exampleRow 7 ''a'')) 1), Tick]"
  obtain res r' w' log where run:
    "Run (logged exampleDeps) (?script @ [Closed]) exampleRunner (NewMemoryStore, []) = (res, r', w', log)"
    by (metis prod_cases4)
  have "\<forall>i \<in> set ?script. i \<noteq> Closed \<and> i \<noteq> Cancelled" by simp
  from Run_delivers_all [OF exampleRunner_new exampleDeps_healthy this run] run show ?thesis by simp
qed

text \<open>
  A snapshot cursor can be saved while its row is still pending.  The cursor of an event says
  that the scan may resume after its row, and \<^verbatim>\<open>handle\<close> notes it before the row's document is
  batched; when that document overflows the batch, \<^verbatim>\<open>Add\<close> returns the batch without it, and the
  cursor is saved after a write that did not hold the row.  Here the run stops with row 8 unwritten
  and a checkpoint that resumes after it.
\<close>

theorem cursor_saved_before_its_row:
  "let snap = (\<lambda>i name cursor. (exampleEvent OperationSnapshot None (Some (exampleRow i name)) 1)
                 \<lparr>ev_Cursor := cursor, ev_GTID := []\<rparr>);
       log = snd (snd (snd (Run (logged exampleDeps)
               [Recv (snap 7 ''a'' ''7''), Recv (snap 8 ''b'' ''8'')]
               exampleRunner (NewMemoryStore, []))))
   in map doc_Key (written log) = [''7''] \<and>
      (case last log of Saved cp \<Rightarrow> cp_SnapshotCursor cp = ''8'' | _ \<Rightarrow> False)"
  by code_simp

text \<open>
  A position saved between an allocator's load and save lowers the watermark.  \<^verbatim>\<open>advance\<close> loads
  the whole checkpoint and saves the whole checkpoint; when the allocator of the same stream, which
  runs in another goroutine, reserves a block in between, the saved checkpoint puts the old
  watermark back, below the version that was just issued.
\<close>

theorem advance_loses_reservation:
  "let (loaded, w1) = ms_Load ''s'' NewMemoryStore;
       (issued, a, w2) = Next ms_Load (ms_Save 0) 0 exampleAllocator w1;
       (err, w3) = ms_Save 0 (advanced (exampleRunner\<lparr>r_pendingGTID := ''g''\<rparr>) (loadedOrZero loaded)) w2
   in issued = Inr 1 \<and> watermark (ms_data w2) ''s'' = 5 \<and> watermark (ms_data w3) ''s'' = 0"
  by (simp add: Let_def exampleAllocator_issues(1) ms_Load_def ms_Save_def NewMemoryStore_def
      advanced_def loadedOrZero_def exampleRunner_def NewRunner_def NewBatcher_def watermark_def
      zeroCheckpoint_def exampleReserved_def exampleAllocator_issues(1) [unfolded NewMemoryStore_def])

end
