(* ===== verification/Scanner.thy ===== *)
theory Scanner
  imports Transform
begin

unbundle bit_operations_syntax

text \<open>
  \<^verbatim>\<open>internal/source/snapshot/scanner.go\<close>: a table is read in key order, a chunk at a time; the last
  row of a chunk carries the cursor behind which a later scan resumes.

  The database, the channel the rows are sent on, the pacing of the scan and the values of other
  packages (parsing a decimal and a float, formatting a time in its own location) are the fields of
  \<open>scan_env\<close>.  A query returns the rows it read and the error its cursor ended with, if any.
  Sending reports whether the context was still alive; pacing, whether it ended first.  The mutex,
  the progress callback and the log messages are not modelled.  \<open>ScanPanic\<close> stands for an index out
  of range.
\<close>

record scan_options =
  so_hasDB :: bool
  so_Meta :: "table_meta option"
  so_Key :: "string list"
  so_ChunkSize :: int
  so_MaxRowsPerSec :: int
  so_Cursor :: bytes
  so_BaseSeq :: u64

datatype scan_error =
    ScanNeedsDatabase
  | ScanNeedsTable
  | ScanNeedsKey
  | ScanChunkTooSmall
  | ScanNeedsBaseSeq
  | ScanKeyMissing string string
  | ScanConnection string
  | ScanQuery string string
  | ScanRead string string
  | ScanRowFailed string
  | ScanValue string string scan_error
  | DecimalInvalid string string
  | TypeUnsupported string
  | EnumUndeclared string "string list"
  | SetUndeclared string "string list"
  | ScanBytesExpected val
  | UnsignedInvalid string num_error
  | IntegerInvalid string num_error
  | FloatInvalid string string
  | CursorUnreadable
  | CursorWidth nat nat
  | ScanCancelled
  | ScanPanic

record snapshotter =
  ss_opts :: scan_options
  ss_meta :: table_meta
  ss_keyCols :: "column list"
  ss_scanCols :: "column list"
  ss_rowsRead :: u64
  ss_err :: "scan_error option"
  ss_done :: bool

record 'w scan_env =
  se_go :: go_env
  se_formatTime :: "time \<Rightarrow> string"
  se_decimal :: "string \<Rightarrow> string + decimal"
  se_parseFloat :: "string \<Rightarrow> string + 64 word"
  se_conn :: "'w \<Rightarrow> string option \<times> 'w"
  se_query :: "string \<Rightarrow> val list \<Rightarrow> 'w \<Rightarrow> (string + val list list \<times> string option) \<times> 'w"
  se_send :: "change_event \<Rightarrow> 'w \<Rightarrow> bool \<times> 'w"
  se_pace :: "int \<Rightarrow> nat \<Rightarrow> 'w \<Rightarrow> bool \<times> 'w"

subsection \<open>Construction\<close>

definition sc_New :: "scan_options \<Rightarrow> scan_error + snapshotter" where
  "sc_New opts =
     (if \<not> so_hasDB opts then Inl ScanNeedsDatabase
      else (case so_Meta opts of
          None \<Rightarrow> Inl ScanNeedsTable
        | Some t \<Rightarrow>
            if so_Key opts = [] then Inl ScanNeedsKey
            else if so_ChunkSize opts < 1 then Inl ScanChunkTooSmall
            else if so_BaseSeq opts = 0 then Inl ScanNeedsBaseSeq
            else (case mapResult (\<lambda>name. case Column t name of
                       None \<Rightarrow> Inl (ScanKeyMissing name (Name t))
                     | Some c \<Rightarrow> Inr c) (so_Key opts) of
                Inl e \<Rightarrow> Inl e
              | Inr keyCols \<Rightarrow>
                  Inr \<lparr>ss_opts = opts, ss_meta = t, ss_keyCols = keyCols,
                       ss_scanCols = filter (\<lambda>c. \<not> col_Generated c) (tm_Columns t),
                       ss_rowsRead = 0, ss_err = None, ss_done = False\<rparr>)))"

subsection \<open>Values\<close>

definition asString :: "'w scan_env \<Rightarrow> val \<Rightarrow> string" where
  "asString env v = (case v of
      VString s \<Rightarrow> s
    | VBytes b \<Rightarrow> b
    | VTime t \<Rightarrow> se_formatTime env t
    | _ \<Rightarrow> keyString (se_go env) v)"

definition asBytes :: "val \<Rightarrow> scan_error + val" where
  "asBytes v = (case v of
      VBytes b \<Rightarrow> Inr (VBytes b)
    | VString s \<Rightarrow> Inr (VBytes s)
    | _ \<Rightarrow> Inl (ScanBytesExpected v))"

definition asInteger :: "'w scan_env \<Rightarrow> column \<Rightarrow> val \<Rightarrow> scan_error + val" where
  "asInteger env c v =
     (let text = asString env v
      in if col_Unsigned c then (case parseUint64 (trimSpace text) of
             Inl e \<Rightarrow> Inl (UnsignedInvalid text e) | Inr n \<Rightarrow> Inr (VUint64 n))
         else (case parseInt64 (trimSpace text) of
             Inl e \<Rightarrow> Inl (IntegerInvalid text e) | Inr n \<Rightarrow> Inr (VInt64 n)))"

definition asFloat :: "'w scan_env \<Rightarrow> val \<Rightarrow> scan_error + val" where
  "asFloat env v = (case v of
      VFloat64 x \<Rightarrow> Inr (VFloat64 x)
    | VFloat32 x \<Rightarrow> Inr (VFloat32 x)
    | _ \<Rightarrow> (case se_parseFloat env (trimSpace (asString env v)) of
        Inl e \<Rightarrow> Inl (FloatInvalid (asString env v) e)
      | Inr f \<Rightarrow> Inr (VFloat64 f)))"

definition enumMember :: "'w scan_env \<Rightarrow> column \<Rightarrow> val \<Rightarrow> scan_error + val" where
  "enumMember env c v =
     (let label = asString env v
      in if label = [] then Inr (VInt64 0)
         else (case indexWhere (\<lambda>m. m = label) (col_EnumValues c) of
             Some i \<Rightarrow> Inr (VInt64 (of_nat (i + 1)))
           | None \<Rightarrow> Inl (EnumUndeclared label (col_EnumValues c))))"

definition indexOfString :: "string list \<Rightarrow> string \<Rightarrow> nat option" where
  "indexOfString values want = indexWhere (\<lambda>v. v = want) values"

text \<open>The loop of \<^verbatim>\<open>setBitmask\<close> over the members.\<close>

fun setBits :: "column \<Rightarrow> u64 \<Rightarrow> string list \<Rightarrow> scan_error + u64" where
  "setBits c bits [] = Inr bits"
| "setBits c bits (member # members) = (case indexOfString (col_SetValues c) member of
      None \<Rightarrow> Inl (SetUndeclared member (col_SetValues c))
    | Some i \<Rightarrow> setBits c (bits OR push_bit i 1) members)"

definition setBitmask :: "'w scan_env \<Rightarrow> column \<Rightarrow> val \<Rightarrow> scan_error + val" where
  "setBitmask env c v =
     (let joined = asString env v
      in if joined = [] then Inr (VInt64 0)
         else map_sum id VInt64 (setBits c 0 (splitOn (CHR '','') joined)))"

definition toEventValue :: "'w scan_env \<Rightarrow> column \<Rightarrow> val \<Rightarrow> scan_error + val" where
  "toEventValue env c v =
     (if v = VNil then Inr VNil
      else
        (let t = toLower (col_DataType c)
         in if t = ''enum'' then enumMember env c v
            else if t = ''set'' then setBitmask env c v
            else if t \<in> {''decimal'', ''numeric''} then (case se_decimal env (asString env v) of
                Inl e \<Rightarrow> Inl (DecimalInvalid (asString env v) e) | Inr d \<Rightarrow> Inr (VDecimal d))
            else if t \<in> {''date'', ''datetime'', ''timestamp'', ''time''} then Inr (VString (asString env v))
            else if t \<in> {''json'', ''binary'', ''varbinary'', ''tinyblob'', ''blob'', ''mediumblob'', ''longblob''}
            then asBytes v
            else if t \<in> {''char'', ''varchar'', ''tinytext'', ''text'', ''mediumtext'', ''longtext''}
            then Inr (VString (asString env v))
            else if t \<in> {''bigint'', ''int'', ''integer'', ''mediumint'', ''smallint'', ''tinyint'', ''year'', ''bit''}
            then asInteger env c v
            else if t \<in> {''float'', ''double'', ''double precision'', ''real''} then asFloat env v
            else Inl (TypeUnsupported (col_DataType c))))"

subsection \<open>Cursors\<close>

definition encodeCursor :: "'w scan_env \<Rightarrow> val list \<Rightarrow> bytes" where
  "encodeCursor env values =
     (if values = [] then []
      else ''['' @ joinWith '','' (map (\<lambda>v. jsonMarshalString (asString env v)) values) @ '']'')"

text \<open>
  \<^verbatim>\<open>json.Unmarshal\<close> into a list of strings: white space is skipped, \<^verbatim>\<open>null\<close> is an empty list, or an
  empty string inside the list.
\<close>

definition jsonSpace :: "char \<Rightarrow> bool" where
  "jsonSpace c \<longleftrightarrow> c = CHR '' '' \<or> c = CHR 0x09 \<or> c = CHR 0x0A \<or> c = CHR 0x0D"

definition jsonSkip :: "bytes \<Rightarrow> bytes" where
  "jsonSkip s = dropWhile jsonSpace s"

definition jsonReadString :: "bytes \<Rightarrow> (string \<times> bytes) option" where
  "jsonReadString s =
     (if hasPrefix s ''null'' then Some ([], drop 4 s)
      else (case s of [] \<Rightarrow> None | c # r \<Rightarrow> if c = CHR 0x22 then jsonReadBody r else None))"

text \<open>The elements behind an opening bracket; the bound is on how many there can be.\<close>

fun jsonReadElements :: "nat \<Rightarrow> bytes \<Rightarrow> (string list \<times> bytes) option" where
  "jsonReadElements 0 s = None"
| "jsonReadElements (Suc n) s = (case jsonReadString (jsonSkip s) of
      None \<Rightarrow> None
    | Some (x, r) \<Rightarrow> (case jsonSkip r of
        [] \<Rightarrow> None
      | c # r' \<Rightarrow>
          if c = CHR '','' then map_option (apfst ((#) x)) (jsonReadElements n r')
          else if c = CHR '']'' then Some ([x], r') else None))"

definition jsonReadStrings :: "bytes \<Rightarrow> string list option" where
  "jsonReadStrings s =
     (let t = jsonSkip s
      in if hasPrefix t ''null'' then (if jsonSkip (drop 4 t) = [] then Some [] else None)
         else (case t of
             [] \<Rightarrow> None
           | c # r \<Rightarrow>
               if c \<noteq> CHR ''['' then None
               else (case (case jsonSkip r of
                        c' # r' \<Rightarrow> if c' = CHR '']'' then Some ([], r') else jsonReadElements (length s) r
                      | [] \<Rightarrow> None) of
                   None \<Rightarrow> None
                 | Some (xs, rest) \<Rightarrow> if jsonSkip rest = [] then Some xs else None)))"

definition decodeCursor :: "bytes \<Rightarrow> nat \<Rightarrow> scan_error + val list option" where
  "decodeCursor encoded keyLen =
     (if encoded = [] then Inr None
      else (case jsonReadStrings encoded of
          None \<Rightarrow> Inl CursorUnreadable
        | Some parts \<Rightarrow>
            if length parts \<noteq> keyLen then Inl (CursorWidth (length parts) keyLen)
            else Inr (Some (map VString parts))))"

subsection \<open>Queries and rows\<close>

definition quoteIdentifier :: "string \<Rightarrow> string" where
  "quoteIdentifier name = [CHR 0x60] @ replaceByte (CHR 0x60) [CHR 0x60, CHR 0x60] name @ [CHR 0x60]"

definition chunkQuery :: "snapshotter \<Rightarrow> val list option \<Rightarrow> string \<times> val list" where
  "chunkQuery s cursor =
     (let columns = joinWith '', '' (map (\<lambda>c. quoteIdentifier (col_Name c)) (ss_scanCols s));
          keys = joinWith '', '' (map (\<lambda>c. quoteIdentifier (col_Name c)) (ss_keyCols s));
          from' = '' FROM '' @ quoteIdentifier (tm_Schema (ss_meta s)) @ ''.'' @
            quoteIdentifier (tm_Table (ss_meta s));
          where' = (case cursor of
              None \<Rightarrow> []
            | Some _ \<Rightarrow> '' WHERE ('' @ keys @ '') > ('' @
                joinWith '', '' (map (\<lambda>_. ''?'') (ss_keyCols s)) @ '')'');
          args = (case cursor of None \<Rightarrow> [] | Some c \<Rightarrow> c)
      in (''SELECT '' @ columns @ from' @ where' @ '' ORDER BY '' @ keys @ '' LIMIT ?'',
          args @ [VInt (of_int (so_ChunkSize (ss_opts s)))]))"

definition rawKeyValue :: "val \<Rightarrow> val" where
  "rawKeyValue v = (case v of VBytes b \<Rightarrow> VString b | _ \<Rightarrow> v)"

definition indexOf :: "column list \<Rightarrow> string \<Rightarrow> nat option" where
  "indexOf cols name = indexWhere (\<lambda>c. equalFold (col_Name c) name) cols"

text \<open>The loop that fills a row, column by column.\<close>

fun fillRow :: "'w scan_env \<Rightarrow> snapshotter \<Rightarrow> row \<Rightarrow> (column \<times> val) list \<Rightarrow> scan_error + row" where
  "fillRow env s row [] = Inr row"
| "fillRow env s row ((c, v) # rest) = (case toEventValue env c v of
      Inl e \<Rightarrow> Inl (ScanValue (Name (ss_meta s)) (col_Name c) e)
    | Inr x \<Rightarrow>
        if length row \<le> col_Position c then Inl ScanPanic
        else fillRow env s (row[col_Position c := x]) rest)"

definition scanRow :: "'w scan_env \<Rightarrow> snapshotter \<Rightarrow> val list \<Rightarrow> scan_error + row \<times> val list" where
  "scanRow env s raw =
     (if length raw \<noteq> length (ss_scanCols s) then Inl (ScanRowFailed (Name (ss_meta s)))
      else (case fillRow env s (replicate (length (tm_Columns (ss_meta s))) VNil) (zip (ss_scanCols s) raw) of
          Inl e \<Rightarrow> Inl e
        | Inr row \<Rightarrow> (case mapResult (\<lambda>c. case indexOf (ss_scanCols s) (col_Name c) of
                 None \<Rightarrow> Inl ScanPanic
               | Some i \<Rightarrow> Inr (rawKeyValue (raw ! i))) (ss_keyCols s) of
              Inl e \<Rightarrow> Inl e
            | Inr keyValues \<Rightarrow> Inr (row, keyValues))))"

definition readChunk ::
    "'w scan_env \<Rightarrow> snapshotter \<Rightarrow> val list option \<Rightarrow> 'w \<Rightarrow>
     (scan_error + (row \<times> val list) list) \<times> 'w" where
  "readChunk env s cursor w =
     (case se_query env (fst (chunkQuery s cursor)) (snd (chunkQuery s cursor)) w of
        (Inl e, w1) \<Rightarrow> (Inl (ScanQuery (Name (ss_meta s)) e), w1)
      | (Inr (raws, ended), w1) \<Rightarrow> (case mapResult (scanRow env s) raws of
            Inl e \<Rightarrow> (Inl e, w1)
          | Inr rows \<Rightarrow> (case ended of
                Some e \<Rightarrow> (Inl (ScanRead (Name (ss_meta s)) e), w1)
              | None \<Rightarrow> (Inr rows, w1))))"

subsection \<open>The scan\<close>

text \<open>The event of one row; the last row of a chunk carries the cursor and the row count.\<close>

definition scanEvent :: "snapshotter \<Rightarrow> row \<Rightarrow> bytes \<Rightarrow> u64 \<Rightarrow> change_event" where
  "scanEvent s row cursor scanned =
     \<lparr>ev_Meta = Some (ss_meta s), ev_Operation = OperationSnapshot, ev_Before = None,
      ev_After = Some row, ev_Timestamp = zeroTime, ev_GTID = [], ev_TxID = 0,
      ev_Seq = so_BaseSeq (ss_opts s), ev_Cursor = cursor, ev_RowsScanned = scanned\<rparr>"

fun chunkEvents :: "snapshotter \<Rightarrow> bytes \<Rightarrow> u64 \<Rightarrow> row list \<Rightarrow> change_event list" where
  "chunkEvents s cursor scanned [] = []"
| "chunkEvents s cursor scanned [row] = [scanEvent s row cursor scanned]"
| "chunkEvents s cursor scanned (row # rows) = scanEvent s row [] 0 # chunkEvents s cursor scanned rows"

text \<open>Sending until the context ends; the events that were sent are returned.\<close>

fun sendAll :: "'w scan_env \<Rightarrow> change_event list \<Rightarrow> 'w \<Rightarrow> bool \<times> change_event list \<times> 'w" where
  "sendAll env [] w = (True, [], w)"
| "sendAll env (ev # evs) w = (case se_send env ev w of
      (False, w1) \<Rightarrow> (False, [], w1)
    | (True, w1) \<Rightarrow> (case sendAll env evs w1 of (ok, sent, w2) \<Rightarrow> (ok, ev # sent, w2)))"

definition emitChunk ::
    "'w scan_env \<Rightarrow> snapshotter \<Rightarrow> (row \<times> val list) list \<Rightarrow> 'w \<Rightarrow>
     scan_error option \<times> change_event list \<times> snapshotter \<times> 'w" where
  "emitChunk env s rows w =
     (let encodedCursor = encodeCursor env (snd (last rows));
          rowsAfterChunk = ss_rowsRead s + of_nat (length rows)
      in case sendAll env (chunkEvents s encodedCursor rowsAfterChunk (map fst rows)) w of
           (False, sent, w1) \<Rightarrow> (Some ScanCancelled, sent, s, w1)
         | (True, sent, w1) \<Rightarrow> (None, sent, s\<lparr>ss_rowsRead := rowsAfterChunk\<rparr>, w1))"

text \<open>The loop of \<^verbatim>\<open>run\<close>, which may go on as long as the database returns full chunks.\<close>

partial_function (option) scanLoop ::
    "'w scan_env \<Rightarrow> snapshotter \<Rightarrow> val list option \<Rightarrow> change_event list \<Rightarrow> 'w \<Rightarrow>
     (scan_error option \<times> change_event list \<times> snapshotter \<times> 'w) option" where
  "scanLoop env s cursor out w = (case readChunk env s cursor w of
      (Inl e, w1) \<Rightarrow> Some (Some e, out, s, w1)
    | (Inr rows, w1) \<Rightarrow>
        if rows = [] then Some (None, out, s, w1)
        else (case emitChunk env s rows w1 of
            (Some e, sent, s1, w2) \<Rightarrow> Some (Some e, out @ sent, s1, w2)
          | (None, sent, s1, w2) \<Rightarrow> (case se_pace env (so_MaxRowsPerSec (ss_opts s)) (length rows) w2 of
                (ended, w3) \<Rightarrow>
                  if ended then Some (Some ScanCancelled, out @ sent, s1, w3)
                  else if int (length rows) < so_ChunkSize (ss_opts s) then Some (None, out @ sent, s1, w3)
                  else scanLoop env s1 (Some (snd (last rows))) (out @ sent) w3)))"

definition scan_run ::
    "'w scan_env \<Rightarrow> snapshotter \<Rightarrow> 'w \<Rightarrow>
     (scan_error option \<times> change_event list \<times> snapshotter \<times> 'w) option" where
  "scan_run env s w = (case se_conn env w of
      (Some e, w1) \<Rightarrow> Some (Some (ScanConnection e), [], s, w1)
    | (None, w1) \<Rightarrow> (case decodeCursor (so_Cursor (ss_opts s)) (length (ss_keyCols s)) of
          Inl e \<Rightarrow> Some (Some e, [], s, w1)
        | Inr cursor \<Rightarrow> scanLoop env s cursor [] w1))"

definition sc_Events ::
    "'w scan_env \<Rightarrow> snapshotter \<Rightarrow> 'w \<Rightarrow> (change_event list \<times> snapshotter \<times> 'w) option" where
  "sc_Events env s w = map_option (\<lambda>(err, out, s1, w1).
     (out, (case err of
         None \<Rightarrow> s1\<lparr>ss_done := True\<rparr>
       | Some e \<Rightarrow> if e = ScanCancelled then s1 else s1\<lparr>ss_err := Some e\<rparr>), w1)) (scan_run env s w)"

subsection \<open>Cursors are read back\<close>

lemma jsonSkip_quote [simp]: "jsonSkip (CHR 0x22 # s) = CHR 0x22 # s"
  by (simp add: jsonSkip_def jsonSpace_def)

lemma jsonReadString_marshal:
  assumes "utf8Valid s"
  shows "jsonReadString (jsonMarshalString s @ t) = Some (s, t)"
  using jsonReadBody_jsonStringBody [OF assms, of t]
  by (simp add: jsonReadString_def jsonMarshalString_def hasPrefix_def)

lemma jsonReadElements_marshal:
  "xs \<noteq> [] \<Longrightarrow> length xs \<le> n \<Longrightarrow> list_all utf8Valid xs \<Longrightarrow>
     jsonReadElements n (joinWith '','' (map jsonMarshalString xs) @ CHR '']'' # t) = Some (xs, t)"
proof (induction xs arbitrary: n)
  case (Cons x xs)
  then obtain m where n: "n = Suc m" by (cases n) auto
  let ?rest = "(if xs = [] then [] else '','' @ joinWith '','' (map jsonMarshalString xs)) @ CHR '']'' # t"
  have whole: "joinWith '','' (map jsonMarshalString (x # xs)) @ CHR '']'' # t = jsonMarshalString x @ ?rest"
    by (simp add: joinWith_Cons)
  have skip: "jsonSkip (jsonMarshalString x @ r) = jsonMarshalString x @ r" for r
    by (simp add: jsonMarshalString_def)
  have read: "jsonReadString (jsonMarshalString x @ ?rest) = Some (x, ?rest)"
    using Cons.prems(3) by (intro jsonReadString_marshal) simp
  show ?case
  proof (cases "xs = []")
    case True
    with read skip show ?thesis unfolding whole n
      by (simp add: jsonSkip_def [of "_ # t"] jsonSpace_def)
  next
    case False
    with Cons.IH [of m] Cons.prems n read skip show ?thesis unfolding whole n
      by (simp add: jsonSkip_def [of "CHR '','' # _"] jsonSpace_def)
  qed
qed simp

lemma joinWith_length: "length xs \<le> length (joinWith '','' (map jsonMarshalString xs)) + 1"
proof (induction xs)
  case (Cons x xs)
  then show ?case by (simp add: joinWith_Cons jsonMarshalString_def)
qed simp

lemma decodeCursor_encodeCursor:
  assumes "vs \<noteq> []" and "list_all (\<lambda>v. utf8Valid (asString env v)) vs"
  shows "decodeCursor (encodeCursor env vs) (length vs) = Inr (Some (map (\<lambda>v. VString (asString env v)) vs))"
proof -
  let ?xs = "map (asString env) vs"
  let ?body = "joinWith '','' (map jsonMarshalString ?xs)"
  have enc: "encodeCursor env vs = CHR ''['' # ?body @ [CHR '']'']"
    using assms(1) by (simp add: encodeCursor_def comp_def)
  obtain y where body: "?body = CHR 0x22 # y"
    using assms(1) by (cases vs) (auto simp: joinWith_Cons jsonMarshalString_def)
  have "jsonReadElements (length (encodeCursor env vs)) (?body @ [CHR '']'']) = Some (?xs, [])"
    using assms joinWith_length [of ?xs] enc
    by (intro jsonReadElements_marshal) (auto simp: list_all_iff)
  moreover have "jsonSkip (CHR ''['' # z) = CHR ''['' # z" for z by (simp add: jsonSkip_def jsonSpace_def)
  ultimately have "jsonReadStrings (encodeCursor env vs) = Some ?xs"
    using body unfolding enc jsonReadStrings_def
    by (simp add: hasPrefix_def jsonSkip_def [of "[]"] Let_def del: jsonReadElements.simps)
  with assms(1) show ?thesis by (simp add: decodeCursor_def enc comp_def)
qed

subsection \<open>Labels\<close>

lemma of_nat_sint: "n < 2 ^ 63 \<Longrightarrow> sint (of_nat n :: u64) = int n"
  by (simp add: signed_of_nat signed_take_bit_int_eq_self)

lemma appendEnum_enumMember:
  assumes "enumMember env c v = Inr x" and "f_enumLabels f = col_EnumValues c"
    and "length (col_EnumValues c) < 2 ^ 63"
  shows "appendEnum buf f x = Inr (appendJSONString buf (asString env v))"
proof (cases "asString env v = []")
  case True
  with assms(1) show ?thesis by (auto simp: enumMember_def appendEnum_def asInt_def Let_def)
next
  case False
  with assms(1) obtain i where i: "indexWhere (\<lambda>m. m = asString env v) (col_EnumValues c) = Some i"
    and x: "x = VInt64 (of_nat (i + 1))"
    by (auto simp: enumMember_def Let_def split: option.splits)
  from indexWhere_Some [OF i] have bound: "i < length (col_EnumValues c)"
    and label: "col_EnumValues c ! i = asString env v" by auto
  have "sint (of_nat (i + 1) :: u64) = int (i + 1)"
    using bound assms(3) by (intro of_nat_sint) simp
  then have "appendEnum buf f x = (let n = int (i + 1) in
      if n = 0 then Inr (appendJSONString buf [])
      else if 1 \<le> n \<and> n \<le> int (length (f_enumLabels f))
      then Inr (appendJSONString buf (f_enumLabels f ! nat (n - 1)))
      else Inl (EnumOutOfRange (f_name f) n (length (f_enumLabels f))))"
    unfolding x appendEnum_def asInt_def by simp
  with bound label assms(2) show ?thesis by (simp add: Let_def)
qed

lemma setBits_bit:
  "setBits c bits ms = Inr bits' \<Longrightarrow> i < 64 \<Longrightarrow>
     bit bits' i \<longleftrightarrow> bit bits i \<or> (\<exists>m \<in> set ms. indexOfString (col_SetValues c) m = Some i)"
proof (induction ms arbitrary: bits)
  case (Cons m ms)
  then show ?case
    by (auto simp: bit_or_iff bit_exp_iff split: option.splits)
qed simp

lemma setBits_declared:
  "setBits c bits ms = Inr bits' \<Longrightarrow> m \<in> set ms \<Longrightarrow> \<exists>i. indexOfString (col_SetValues c) m = Some i"
  by (induction ms arbitrary: bits) (auto split: option.splits)

lemma setMembers_filter:
  "k + length labels \<le> 64 \<Longrightarrow>
     setMembers bits k labels = map fst (filter (\<lambda>(l, i). bit bits i) (zip labels [k..<k + length labels]))"
proof (induction labels arbitrary: k)
  case (Cons l labels)
  have "[k..<k + length (l # labels)] = k # [Suc k..<Suc k + length labels]"
    by (subst upt_conv_Cons) simp_all
  then have "zip (l # labels) [k..<k + length (l # labels)] = (l, k) # zip labels [Suc k..<Suc k + length labels]"
    by simp
  with Cons show ?case by (simp add: and_exp_eq_0_iff_not_bit del: upt_Suc)
qed simp

lemma indexOfString_distinct:
  assumes "distinct labels" and "i < length labels"
  shows "indexOfString labels (labels ! i) = Some i"
proof -
  obtain j where j: "indexOfString labels (labels ! i) = Some j"
    using indexWhere_None [of "\<lambda>v. v = labels ! i" labels] assms(2)
    by (cases "indexOfString labels (labels ! i)") (auto simp: indexOfString_def)
  with indexWhere_Some [of "\<lambda>v. v = labels ! i" labels j] assms
  show ?thesis by (auto simp: indexOfString_def nth_eq_iff_index_eq)
qed

lemma setMembers_setBits:
  assumes "setBits c 0 ms = Inr bits" and "distinct (col_SetValues c)" and "length (col_SetValues c) \<le> 64"
  shows "setMembers bits 0 (col_SetValues c) = filter (\<lambda>l. l \<in> set ms) (col_SetValues c)"
proof -
  let ?labels = "col_SetValues c"
  have member: "bit bits i \<longleftrightarrow> ?labels ! i \<in> set ms" if "i < length ?labels" for i
  proof -
    have "bit bits i \<longleftrightarrow> (\<exists>m \<in> set ms. indexOfString ?labels m = Some i)"
      using setBits_bit [OF assms(1), of i] that assms(3) by simp
    also have "\<dots> \<longleftrightarrow> ?labels ! i \<in> set ms"
      using indexOfString_distinct [OF assms(2) that] indexWhere_Some [of _ ?labels i]
      by (auto simp: indexOfString_def)
    finally show ?thesis .
  qed
  have "setMembers bits 0 ?labels = map fst (filter (\<lambda>(l, i). bit bits i) (zip ?labels [0..<length ?labels]))"
    using setMembers_filter [of 0 ?labels bits] assms(3) by simp
  also have "\<dots> = map fst (filter (\<lambda>(l, i). l \<in> set ms) (zip ?labels [0..<length ?labels]))"
    by (intro arg_cong [where f = "map fst"] filter_cong) (auto simp: set_zip member)
  also have "\<dots> = filter (\<lambda>l. l \<in> set ms) (map fst (zip ?labels [0..<length ?labels]))"
    by (simp only: filter_map comp_def case_prod_unfold)
  finally show ?thesis by simp
qed

subsection \<open>A table that does not change\<close>

text \<open>What a raw row becomes: the event's row and the key values the cursor is made of.\<close>

definition rowOf :: "'w scan_env \<Rightarrow> snapshotter \<Rightarrow> val list \<Rightarrow> row" where
  "rowOf env s raw = fst (projr (scanRow env s raw))"

definition keyOf :: "'w scan_env \<Rightarrow> snapshotter \<Rightarrow> val list \<Rightarrow> val list" where
  "keyOf env s raw = snd (projr (scanRow env s raw))"

definition runsQuery :: "'w scan_env \<Rightarrow> snapshotter \<Rightarrow> val list option \<Rightarrow> val list list \<Rightarrow> bool" where
  "runsQuery env s cursor raws \<longleftrightarrow> (\<forall>w. \<exists>w'.
     se_query env (fst (chunkQuery s cursor)) (snd (chunkQuery s cursor)) w = (Inr (raws, None), w'))"

text \<open>
  The database holds a fixed table, \<^term>\<open>raws\<close> in key order, and answers as SQL prescribes: without a
  cursor the first rows up to the limit, and with the key of a row (compared by its text) the rows
  behind that one up to the limit.  Every row can be converted, and keys are valid UTF-8.
\<close>

definition serves :: "'w scan_env \<Rightarrow> snapshotter \<Rightarrow> val list list \<Rightarrow> bool" where
  "serves env s raws \<longleftrightarrow>
     runsQuery env s None (take (nat (so_ChunkSize (ss_opts s))) raws) \<and>
     (\<forall>i < length raws. \<forall>c. map (asString env) c = map (asString env) (keyOf env s (raws ! i)) \<longrightarrow>
        runsQuery env s (Some c) (take (nat (so_ChunkSize (ss_opts s))) (drop (Suc i) raws))) \<and>
     (\<forall>raw \<in> set raws. \<not> isl (scanRow env s raw) \<and>
        list_all (\<lambda>v. utf8Valid (asString env v)) (keyOf env s raw))"

text \<open>The context stays alive, and the connection can be made.\<close>

definition unhindered :: "'w scan_env \<Rightarrow> bool" where
  "unhindered env \<longleftrightarrow> (\<forall>ev w. fst (se_send env ev w)) \<and> (\<forall>r n w. \<not> fst (se_pace env r n w)) \<and>
     (\<forall>w. fst (se_conn env w) = None)"

definition cursorAt :: "'w scan_env \<Rightarrow> snapshotter \<Rightarrow> val list list \<Rightarrow> nat \<Rightarrow> val list option \<Rightarrow> bool" where
  "cursorAt env s raws p cursor \<longleftrightarrow> (p = 0 \<and> cursor = None) \<or>
     (\<exists>i c. p = Suc i \<and> i < length raws \<and> cursor = Some c \<and>
        map (asString env) c = map (asString env) (keyOf env s (raws ! i)))"

lemma readChunk_serves:
  assumes "serves env s raws" and "cursorAt env s raws p cursor"
  shows "\<exists>w'. readChunk env s cursor w =
     (Inr (map (\<lambda>raw. (rowOf env s raw, keyOf env s raw))
        (take (nat (so_ChunkSize (ss_opts s))) (drop p raws))), w')"
proof -
  let ?chunk = "take (nat (so_ChunkSize (ss_opts s))) (drop p raws)"
  have "runsQuery env s cursor ?chunk"
    using assms by (auto simp: serves_def cursorAt_def)
  then obtain w' where q: "se_query env (fst (chunkQuery s cursor)) (snd (chunkQuery s cursor)) w =
      (Inr (?chunk, None), w')"
    unfolding runsQuery_def by blast
  have "mapResult (scanRow env s) ?chunk = Inr (map (\<lambda>raw. (rowOf env s raw, keyOf env s raw)) ?chunk)"
  proof (rule mapResult_total)
    fix raw assume "raw \<in> set ?chunk"
    then have "raw \<in> set raws" by (meson in_set_dropD in_set_takeD)
    with assms(1) show "scanRow env s raw = Inr (rowOf env s raw, keyOf env s raw)"
      by (auto simp: serves_def rowOf_def keyOf_def)
  qed
  with q show ?thesis by (simp add: readChunk_def)
qed

lemma sendAll_unhindered:
  "unhindered env \<Longrightarrow> \<exists>w'. sendAll env evs w = (True, evs, w')"
proof (induction evs arbitrary: w)
  case (Cons ev evs)
  obtain ok w1 where s: "se_send env ev w = (ok, w1)" by force
  with Cons.prems have "ok" unfolding unhindered_def by (metis fst_conv)
  with s Cons.IH [OF Cons.prems, of w1] show ?case by auto
qed simp

text \<open>The events of a chunk: its rows in order, and a cursor on the last one only.\<close>

lemma chunkEvents_spec:
  "map ev_After (chunkEvents s cursor n rows) = map Some rows"
  "j < length rows \<Longrightarrow> ev_Cursor (chunkEvents s cursor n rows ! j) =
     (if Suc j = length rows then cursor else [])"
  "\<forall>e \<in> set (chunkEvents s cursor n rows). ev_Operation e = OperationSnapshot \<and> ev_Seq e = so_BaseSeq (ss_opts s)"
  "length (chunkEvents s cursor n rows) = length rows"
proof (induction rows arbitrary: j rule: induct_list012)
  case (3 x y zs)
  {
    case 2
    then show ?case using 3(6) [of "j - 1"] by (cases j) (auto simp: scanEvent_def)
  }
qed (auto simp: scanEvent_def)

definition eventsFrom ::
    "'w scan_env \<Rightarrow> snapshotter \<Rightarrow> val list list \<Rightarrow> nat \<Rightarrow> change_event list \<Rightarrow> bool" where
  "eventsFrom env s raws p evs \<longleftrightarrow>
     map ev_After evs = map (\<lambda>raw. Some (rowOf env s raw)) (drop p raws) \<and>
     (\<forall>j < length evs. ev_Cursor (evs ! j) = [] \<or>
        ev_Cursor (evs ! j) = encodeCursor env (keyOf env s (raws ! (p + j)))) \<and>
     (\<forall>e \<in> set evs. ev_Operation e = OperationSnapshot \<and> ev_Seq e = so_BaseSeq (ss_opts s))"

text \<open>Two scans that differ only in how far they have read behave alike.\<close>

definition sameScan :: "snapshotter \<Rightarrow> snapshotter \<Rightarrow> bool" where
  "sameScan s s' \<longleftrightarrow> s' = s\<lparr>ss_rowsRead := ss_rowsRead s', ss_opts := ss_opts s'\<rparr> \<and>
     so_ChunkSize (ss_opts s') = so_ChunkSize (ss_opts s) \<and> so_BaseSeq (ss_opts s') = so_BaseSeq (ss_opts s)"

lemma fillRow_same: "ss_meta s' = ss_meta s \<Longrightarrow> fillRow env s' row cvs = fillRow env s row cvs"
  by (induction env s row cvs rule: fillRow.induct) (auto split: sum.splits)

lemma sameScan_meta:
  assumes "sameScan s s'"
  shows "ss_meta s' = ss_meta s" and "ss_scanCols s' = ss_scanCols s" and "ss_keyCols s' = ss_keyCols s"
    and "ss_done s' = ss_done s" and "ss_err s' = ss_err s"
  using assms unfolding sameScan_def
  by (metis snapshotter.select_convs snapshotter.surjective snapshotter.update_convs(1,5))+

lemma sameScan_scanRow:
  assumes "sameScan s s'"
  shows "scanRow env s' = scanRow env s"
proof
  fix raw
  show "scanRow env s' raw = scanRow env s raw"
    unfolding scanRow_def sameScan_meta [OF assms] fillRow_same [OF sameScan_meta(1) [OF assms]] ..
qed

lemma sameScan_simps:
  assumes "sameScan s s'"
  shows "rowOf env s' = rowOf env s" and "keyOf env s' = keyOf env s"
    and "chunkQuery s' = chunkQuery s" and "serves env s' raws = serves env s raws"
    and "cursorAt env s' raws p cursor = cursorAt env s raws p cursor"
    and "eventsFrom env s' raws p evs = eventsFrom env s raws p evs"
proof -
  show row: "rowOf env s' = rowOf env s" and key: "keyOf env s' = keyOf env s"
    by (intro ext, simp add: rowOf_def keyOf_def sameScan_scanRow [OF assms])+
  have size: "so_ChunkSize (ss_opts s') = so_ChunkSize (ss_opts s)"
    and base: "so_BaseSeq (ss_opts s') = so_BaseSeq (ss_opts s)"
    using assms by (auto simp: sameScan_def)
  show query: "chunkQuery s' = chunkQuery s"
    by (intro ext) (unfold chunkQuery_def sameScan_meta [OF assms] size, rule refl)
  show "serves env s' raws = serves env s raws"
    by (simp add: serves_def runsQuery_def key query size sameScan_scanRow [OF assms])
  show "cursorAt env s' raws p cursor = cursorAt env s raws p cursor"
    by (simp add: cursorAt_def key)
  show "eventsFrom env s' raws p evs = eventsFrom env s raws p evs"
    by (simp add: eventsFrom_def row key base)
qed

lemma sameScan_refl [simp]: "sameScan s s"
  by (simp add: sameScan_def)

lemma sameScan_trans: "sameScan s s' \<Longrightarrow> sameScan s' s'' \<Longrightarrow> sameScan s s''"
  unfolding sameScan_def by (metis (no_types, lifting) snapshotter.surjective snapshotter.update_convs(1,5))

lemma eventsFrom_Nil: "length raws \<le> p \<Longrightarrow> eventsFrom env s raws p []"
  by (simp add: eventsFrom_def)

lemma eventsFrom_chunk:
  fixes n p :: nat and raws :: "val list list"
  defines "chunk \<equiv> take n (drop p raws)"
  assumes "chunk \<noteq> []" and "eventsFrom env s raws (p + length chunk) evs"
  shows "eventsFrom env s raws p
     (chunkEvents s (encodeCursor env (keyOf env s (last chunk))) t (map (rowOf env s) chunk) @ evs)"
proof -
  let ?ce = "chunkEvents s (encodeCursor env (keyOf env s (last chunk))) t (map (rowOf env s) chunk)"
  note spec = chunkEvents_spec [where s = s and n = t and rows = "map (rowOf env s) chunk"
      and cursor = "encodeCursor env (keyOf env s (last chunk))"]
  have len: "length ?ce = length chunk" using spec(4) by simp
  have split: "drop p raws = chunk @ drop (p + length chunk) raws"
    unfolding chunk_def by (metis append_take_drop_id drop_drop length_take add.commute min.cobounded1
        min_def drop_all nat_le_linear take_all)
  have "map ev_After (?ce @ evs) = map (\<lambda>raw. Some (rowOf env s raw)) (drop p raws)"
    using spec(1) assms(3) unfolding split by (simp add: eventsFrom_def)
  moreover have "ev_Cursor ((?ce @ evs) ! j) = [] \<or>
      ev_Cursor ((?ce @ evs) ! j) = encodeCursor env (keyOf env s (raws ! (p + j)))"
    if j: "j < length (?ce @ evs)" for j
  proof (cases "j < length chunk")
    case True
    show ?thesis
    proof (cases "Suc j = length chunk")
      case last: True
      have "p \<le> length raws" using True by (auto simp: chunk_def)
      then have "raws ! (p + j) = chunk ! j"
        using True by (simp add: chunk_def)
      with last have "raws ! (p + j) = last chunk"
        using assms(2) by (metis diff_Suc_1 last_conv_nth)
      with True last len spec(2) [of j] show ?thesis by (simp add: nth_append)
    next
      case False
      with True len spec(2) [of j] show ?thesis by (simp add: nth_append)
    qed
  next
    case False
    then have at: "(?ce @ evs) ! j = evs ! (j - length chunk)" using len by (simp add: nth_append)
    have "j - length chunk < length evs" using j len False by simp
    then have "ev_Cursor (evs ! (j - length chunk)) = [] \<or>
        ev_Cursor (evs ! (j - length chunk)) = encodeCursor env (keyOf env s (raws ! (p + length chunk + (j - length chunk))))"
      using assms(3) unfolding eventsFrom_def by blast
    moreover have "p + length chunk + (j - length chunk) = p + j" using False by simp
    ultimately show ?thesis unfolding at by metis
  qed
  ultimately show ?thesis using spec(3) assms(3) unfolding eventsFrom_def by auto
qed

lemma emitChunk_unhindered:
  assumes "unhindered env" and "chunk \<noteq> []"
  shows "\<exists>w'. emitChunk env s (map (\<lambda>raw. (rowOf env s raw, keyOf env s raw)) chunk) w =
     (None, chunkEvents s (encodeCursor env (keyOf env s (last chunk)))
        (ss_rowsRead s + of_nat (length chunk)) (map (rowOf env s) chunk),
      s\<lparr>ss_rowsRead := ss_rowsRead s + of_nat (length chunk)\<rparr>, w')"
proof -
  let ?n = "ss_rowsRead s + of_nat (length chunk)"
  let ?evs = "chunkEvents s (encodeCursor env (keyOf env s (last chunk))) ?n (map (rowOf env s) chunk)"
  obtain w' where "sendAll env ?evs w = (True, ?evs, w')" using sendAll_unhindered [OF assms(1)] by metis
  with assms(2) show ?thesis by (simp add: emitChunk_def last_map comp_def Let_def)
qed

lemma scanLoop_complete:
  assumes "serves env s raws" and "unhindered env" and "1 \<le> so_ChunkSize (ss_opts s)"
    and "cursorAt env s raws p cursor"
  shows "\<exists>evs s' w'. scanLoop env s cursor out w = Some (None, out @ evs, s', w') \<and>
     eventsFrom env s raws p evs \<and> sameScan s s'"
  using assms
proof (induction "length raws - p" arbitrary: p s cursor out w rule: less_induct)
  case less
  define n where "n = nat (so_ChunkSize (ss_opts s))"
  define chunk where "chunk = take n (drop p raws)"
  define rows where "rows = map (\<lambda>raw. (rowOf env s raw, keyOf env s raw)) chunk"
  have rows: "length rows = length chunk" "rows = [] \<longleftrightarrow> chunk = []"
    "chunk \<noteq> [] \<Longrightarrow> snd (last rows) = keyOf env s (last chunk)"
    by (auto simp: rows_def last_map)
  obtain w1 where read: "readChunk env s cursor w = (Inr rows, w1)"
    using readChunk_serves [OF less.prems(1,4)] unfolding rows_def chunk_def n_def by metis
  show ?case
  proof (cases "chunk = []")
    case True
    then have "length raws \<le> p" using less.prems(3) by (simp add: chunk_def n_def)
    with True read rows(2) show ?thesis by (subst scanLoop.simps) (auto simp: eventsFrom_Nil)
  next
    case False
    define k where "k = length chunk"
    define ce where "ce = chunkEvents s (encodeCursor env (keyOf env s (last chunk)))
      (ss_rowsRead s + of_nat k) (map (rowOf env s) chunk)"
    define s1 where "s1 = s\<lparr>ss_rowsRead := ss_rowsRead s + of_nat k\<rparr>"
    have same: "sameScan s s1" by (simp add: sameScan_def s1_def)
    obtain w2 where emit: "emitChunk env s rows w1 = (None, ce, s1, w2)"
      using emitChunk_unhindered [OF less.prems(2) False, of s w1, folded rows_def k_def, folded ce_def s1_def]
      by blast
    obtain w3 where pace: "se_pace env (so_MaxRowsPerSec (ss_opts s)) k w2 = (False, w3)"
      using less.prems(2) unfolding unhindered_def by (metis prod.collapse)
    have cond: "int k < so_ChunkSize (ss_opts s) \<longleftrightarrow> k < n" using less.prems(3) by (auto simp: n_def)
    have loop: "scanLoop env s cursor out w =
        (if k < n then Some (None, out @ ce, s1, w3)
         else scanLoop env s1 (Some (keyOf env s (last chunk))) (out @ ce) w3)"
      by (subst scanLoop.simps)
        (simp only: read emit pace cond rows(1) rows(3) [OF False] k_def [symmetric] prod.case sum.case
          option.case if_False, simp add: rows(2) False)
    have chunk_events: "eventsFrom env s raws p (ce @ evs)" if "eventsFrom env s raws (p + k) evs" for evs
      using eventsFrom_chunk [of n p raws env s evs] False that unfolding chunk_def ce_def k_def by simp
    show ?thesis
    proof (cases "k < n")
      case True
      then have "length raws \<le> p + k" by (auto simp: k_def chunk_def)
      with chunk_events [OF eventsFrom_Nil] loop True same show ?thesis by auto
    next
      case full: False
      have k: "k = n" "p + k \<le> length raws" "0 < k"
        using full False by (auto simp: k_def chunk_def)
      have "raws ! (p + k - 1) = last chunk"
        using False k by (simp add: last_conv_nth chunk_def)
      then have "cursorAt env s1 raws (p + k) (Some (keyOf env s (last chunk)))"
        using k unfolding cursorAt_def sameScan_simps(2) [OF same]
        by (intro disjI2 exI [of _ "p + k - 1"]) auto
      moreover have "serves env s1 raws" using less.prems(1) by (simp add: sameScan_simps(4) [OF same])
      moreover have "1 \<le> so_ChunkSize (ss_opts s1)" using less.prems(3) by (simp add: s1_def)
      moreover have "length raws - (p + k) < length raws - p" using k by simp
      ultimately obtain evs s' w' where rest:
          "scanLoop env s1 (Some (keyOf env s (last chunk))) (out @ ce) w3 = Some (None, (out @ ce) @ evs, s', w')"
        and evs: "eventsFrom env s1 raws (p + k) evs" and s': "sameScan s1 s'"
        using less.hyps [OF _ _ less.prems(2)] by blast
      from evs have "eventsFrom env s raws (p + k) evs" by (simp add: sameScan_simps(6) [OF same])
      from chunk_events [OF this] loop full rest sameScan_trans [OF same s'] show ?thesis by auto
    qed
  qed
qed

lemma sc_New_facts:
  assumes "sc_New opts = Inr s"
  shows "ss_opts s = opts" and "1 \<le> so_ChunkSize opts" and "ss_keyCols s \<noteq> []" and "\<not> ss_done s"
    and "length (ss_keyCols s) = length (so_Key opts)" and "ss_err s = None"
  using assms mapResult_length
  by (auto simp: sc_New_def split: if_splits option.splits sum.splits) fastforce+

text \<open>Only the options of a scan depend on the cursor it starts from.\<close>

lemma sc_New_cursor:
  assumes "sc_New opts = Inr s"
  shows "sc_New (opts\<lparr>so_Cursor := c\<rparr>) = Inr (s\<lparr>ss_opts := opts\<lparr>so_Cursor := c\<rparr>\<rparr>)"
  using assms by (auto simp: sc_New_def split: if_splits option.splits sum.splits)


lemma scan_run_from:
  assumes "sc_New opts = Inr s" and "serves env s raws" and "unhindered env"
    and "p \<le> length raws"
    and "so_Cursor opts = (if p = 0 then [] else encodeCursor env (keyOf env s (raws ! (p - 1))))"
  shows "\<exists>evs s' w'. sc_Events env s w = Some (evs, s', w') \<and> eventsFrom env s raws p evs \<and>
     ss_done s' \<and> ss_err s' = None"
proof -
  note new = sc_New_facts [OF assms(1)]
  obtain w1 where conn: "se_conn env w = (None, w1)"
    using assms(3) unfolding unhindered_def by (metis prod.collapse)
  have "\<exists>cursor. decodeCursor (so_Cursor opts) (length (ss_keyCols s)) = Inr cursor \<and>
      cursorAt env s raws p cursor"
  proof (cases "p = 0")
    case True
    with assms(5) show ?thesis by (simp add: decodeCursor_def cursorAt_def)
  next
    case False
    let ?key = "keyOf env s (raws ! (p - 1))"
    have "raws ! (p - 1) \<in> set raws" using False assms(4) by simp
    then have ok: "\<not> isl (scanRow env s (raws ! (p - 1)))"
      and utf8: "list_all (\<lambda>v. utf8Valid (asString env v)) ?key"
      using assms(2) by (auto simp: serves_def)
    have len: "length ?key = length (ss_keyCols s)"
      using ok mapResult_length
      by (auto simp: keyOf_def scanRow_def split: if_splits sum.splits)
    with new(3) have "?key \<noteq> []" by auto
    from decodeCursor_encodeCursor [OF this utf8] len False assms(5)
    have "decodeCursor (so_Cursor opts) (length (ss_keyCols s)) =
        Inr (Some (map (\<lambda>v. VString (asString env v)) ?key))" by simp
    moreover have "cursorAt env s raws p (Some (map (\<lambda>v. VString (asString env v)) ?key))"
      unfolding cursorAt_def using False assms(4)
      by (intro disjI2 exI [of _ "p - 1"] exI [of _ "map (\<lambda>v. VString (asString env v)) ?key"])
        (auto simp: asString_def comp_def)
    ultimately show ?thesis by blast
  qed
  then obtain cursor where dec: "decodeCursor (so_Cursor opts) (length (ss_keyCols s)) = Inr cursor"
    and at: "cursorAt env s raws p cursor" by blast
  obtain evs s' w' where loop: "scanLoop env s cursor [] w1 = Some (None, evs, s', w')"
    and evs: "eventsFrom env s raws p evs" and same: "sameScan s s'"
    using scanLoop_complete [OF assms(2,3) _ at, of "[]" w1] new(1,2) by auto
  from loop conn dec new(1) have "sc_Events env s w = Some (evs, s'\<lparr>ss_done := True\<rparr>, w')"
    by (simp add: sc_Events_def scan_run_def)
  with evs show ?thesis using sameScan_meta(5) [OF same] new(6) by auto
qed

lemma eventsFrom_length: "eventsFrom env s raws p evs \<Longrightarrow> length evs = length raws - p"
  unfolding eventsFrom_def by (metis length_drop length_map)

subsection \<open>Example: a table of three rows\<close>

definition exampleRows :: "val list list" where
  "exampleRows = [[VBytes ''1'', VBytes ''ada'', VNil], [VBytes ''7'', VBytes ''bob'', VBytes ''x''],
     [VBytes ''9'', VBytes ''eve'', VNil]]"

definition exampleScanBase :: "unit scan_env" where
  "exampleScanBase = \<lparr>se_go = exampleEnv, se_formatTime = (\<lambda>_. []), se_decimal = (\<lambda>_. Inl []),
     se_parseFloat = (\<lambda>_. Inl []), se_conn = (\<lambda>w. (None, w)), se_query = (\<lambda>_ _ w. (Inl [], w)),
     se_send = (\<lambda>_ w. (True, w)), se_pace = (\<lambda>_ _ w. (False, w))\<rparr>"

text \<open>A database of three rows that answers the queries for chunks of two.\<close>

definition exampleScanEnv :: "unit scan_env" where
  "exampleScanEnv = exampleScanBase\<lparr>se_query := (\<lambda>q args w. (Inr (take 2
     (if length args = 1 then exampleRows
      else if asString exampleScanBase (hd args) = ''1'' then drop 1 exampleRows
      else if asString exampleScanBase (hd args) = ''7'' then drop 2 exampleRows
      else []), None), w))\<rparr>"

definition exampleScanOptions :: "bytes \<Rightarrow> scan_options" where
  "exampleScanOptions cursor = \<lparr>so_hasDB = True, so_Meta = Some exampleTable, so_Key = [''id''],
     so_ChunkSize = 2, so_MaxRowsPerSec = 0, so_Cursor = cursor, so_BaseSeq = 41\<rparr>"

definition exampleScan :: "bytes \<Rightarrow> snapshotter" where
  "exampleScan cursor = projr (sc_New (exampleScanOptions cursor))"

lemma exampleScan_New: "sc_New (exampleScanOptions cursor) = Inr (exampleScan cursor)"
proof -
  have "\<not> isl (sc_New (exampleScanOptions cursor))"
    unfolding sc_New_def exampleScanOptions_def by code_simp
  then show ?thesis by (simp add: exampleScan_def)
qed

lemma exampleScan_unhindered: "unhindered exampleScanEnv"
  by (simp add: unhindered_def exampleScanEnv_def exampleScanBase_def)



lemma exampleScan_rows:
  "mapResult (scanRow exampleScanEnv (exampleScan [])) exampleRows =
     Inr [([VUint64 1, VString ''ada'', VNil], [VString ''1'']), ([VUint64 7, VString ''bob'', VString ''x''], [VString ''7'']),
       ([VUint64 9, VString ''eve'', VNil], [VString ''9''])]"
  by code_simp

lemma exampleScan_facts: "ss_opts (exampleScan c) = exampleScanOptions c"
  using sc_New_facts(1) [OF exampleScan_New] by simp

lemma exampleScan_keys:
  "map (keyOf exampleScanEnv (exampleScan [])) exampleRows = [[VString ''1''], [VString ''7''], [VString ''9'']]"
  "map (rowOf exampleScanEnv (exampleScan [])) exampleRows =
     [[VUint64 1, VString ''ada'', VNil], [VUint64 7, VString ''bob'', VString ''x''], [VUint64 9, VString ''eve'', VNil]]"
  "\<forall>raw \<in> set exampleRows. \<not> isl (scanRow exampleScanEnv (exampleScan []) raw)"
proof -
  note rows = exampleScan_rows [unfolded exampleRows_def, simplified mapResult.simps]
  show "map (keyOf exampleScanEnv (exampleScan [])) exampleRows = [[VString ''1''], [VString ''7''], [VString ''9'']]"
    "map (rowOf exampleScanEnv (exampleScan [])) exampleRows =
     [[VUint64 1, VString ''ada'', VNil], [VUint64 7, VString ''bob'', VString ''x''], [VUint64 9, VString ''eve'', VNil]]"
    "\<forall>raw \<in> set exampleRows. \<not> isl (scanRow exampleScanEnv (exampleScan []) raw)"
    using rows unfolding exampleRows_def keyOf_def rowOf_def by (auto split: sum.splits)
qed

lemma asString_exampleScanEnv: "asString exampleScanEnv v = asString exampleScanBase v"
  unfolding asString_def exampleScanEnv_def by (simp split: val.split)

lemma asString_VString [simp]: "asString env (VString s) = s"
  by (simp add: asString_def)

lemma exampleScan_query:
  "runsQuery exampleScanEnv s cursor (take 2
     (case cursor of None \<Rightarrow> exampleRows
      | Some c \<Rightarrow> if c = [] then exampleRows
         else if asString exampleScanBase (hd c) = ''1'' then drop 1 exampleRows
         else if asString exampleScanBase (hd c) = ''7'' then drop 2 exampleRows else []))"
  by (auto simp: runsQuery_def exampleScanEnv_def chunkQuery_def Let_def split: option.split)

lemma exampleScan_serves: "serves exampleScanEnv (exampleScan []) exampleRows"
proof -
  have limit: "nat (so_ChunkSize (ss_opts (exampleScan []))) = 2"
    by (simp add: exampleScan_facts exampleScanOptions_def)
  have key: "keyOf exampleScanEnv (exampleScan []) (exampleRows ! i) = [VString ([''1'', ''7'', ''9''] ! i)]"
    if "i < 3" for i
  proof -
    have "keyOf exampleScanEnv (exampleScan []) (exampleRows ! i) =
        map (keyOf exampleScanEnv (exampleScan [])) exampleRows ! i"
      using that by (subst nth_map) (simp_all add: exampleRows_def)
    also have "\<dots> = [[VString ''1''], [VString ''7''], [VString ''9'']] ! i" by (simp only: exampleScan_keys)
    finally show ?thesis using that by (auto simp: less_Suc_eq numeral_3_eq_3)
  qed
  have "runsQuery exampleScanEnv (exampleScan []) (Some c) (take 2 (drop (Suc i) exampleRows))"
    if i: "i < 3" and c: "map (asString exampleScanEnv) c =
      map (asString exampleScanEnv) (keyOf exampleScanEnv (exampleScan []) (exampleRows ! i))" for i c
  proof -
    from c key [OF i] obtain v where "c = [v]" "asString exampleScanBase v = [''1'', ''7'', ''9''] ! i"
      by (auto simp: asString_exampleScanEnv)
    with i exampleScan_query [of "exampleScan []" "Some c"] show ?thesis
      by (auto simp: less_Suc_eq numeral_3_eq_3 exampleRows_def)
  qed
  moreover have "list_all (\<lambda>v. utf8Valid (asString exampleScanEnv v)) (keyOf exampleScanEnv (exampleScan []) raw)"
    if "raw \<in> set exampleRows" for raw
  proof -
    have "length exampleRows = 3" by (simp add: exampleRows_def)
    with that obtain i where "i < 3" "raw = exampleRows ! i" by (metis in_set_conv_nth)
    moreover have "list_all utf8Valid [''1'', ''7'', ''9'']" by code_simp
    ultimately show ?thesis using key by (auto simp: list_all_length)
  qed
  ultimately show ?thesis
    using exampleScan_query [of "exampleScan []" None] exampleScan_keys(3) limit
    by (simp add: serves_def exampleRows_def)
qed

declare scanLoop.simps [code]

subsection \<open>Properties\<close>




lemma exampleScan_events:
  "map_option (\<lambda>(evs, _). map (\<lambda>e. (ev_After e, ev_Cursor e)) evs) (sc_Events exampleScanEnv (exampleScan []) ()) =
     Some [(Some [VUint64 1, VString ''ada'', VNil], []),
       (Some [VUint64 7, VString ''bob'', VString ''x''], encodeCursor exampleScanEnv [VString ''7'']),
       (Some [VUint64 9, VString ''eve'', VNil], encodeCursor exampleScanEnv [VString ''9''])]"
  by code_simp


text \<open>
  The label of an ENUM column and the members of a SET column that the scan reads as text are
  turned into the number and the bit mask a row event carries, and the transformer writes the same
  label, and the same members in the order of their declaration, back out of them.
\<close>

theorem scanned_labels_kept:
  assumes "toEventValue env c v = Inr x" and "v \<noteq> VNil"
    and "length (col_EnumValues c) < 2 ^ 63" and "f_enumLabels f = col_EnumValues c"
    and "distinct (col_SetValues c)" and "length (col_SetValues c) \<le> 64" and "f_setLabels f = col_SetValues c"
  shows "(toLower (col_DataType c) = ''enum'' \<and> f_kind f = KindEnum \<longrightarrow>
      encodeValue g p buf f x = Inr (appendJSONString buf (asString env v))) \<and>
    (toLower (col_DataType c) = ''set'' \<and> f_kind f = KindSet \<and> asString env v \<noteq> [] \<longrightarrow>
      encodeValue g p buf f x = Inr (appendMembers (buf @ ''['') True
        (filter (\<lambda>l. l \<in> set (splitOn (CHR '','') (asString env v))) (col_SetValues c)) @ '']''))"
proof (rule conjI)
  show "toLower (col_DataType c) = ''enum'' \<and> f_kind f = KindEnum \<longrightarrow>
      encodeValue g p buf f x = Inr (appendJSONString buf (asString env v))"
  proof
    assume "toLower (col_DataType c) = ''enum'' \<and> f_kind f = KindEnum"
    moreover from this have x: "enumMember env c v = Inr x" using assms(1,2) by (simp add: toEventValue_def)
    moreover from x have "x \<noteq> VNil" by (auto simp: enumMember_def Let_def split: if_splits option.splits)
    ultimately show "encodeValue g p buf f x = Inr (appendJSONString buf (asString env v))"
      using appendEnum_enumMember [OF x assms(4,3)] by (simp add: encodeValue_def)
  qed
  show "toLower (col_DataType c) = ''set'' \<and> f_kind f = KindSet \<and> asString env v \<noteq> [] \<longrightarrow>
      encodeValue g p buf f x = Inr (appendMembers (buf @ ''['') True
        (filter (\<lambda>l. l \<in> set (splitOn (CHR '','') (asString env v))) (col_SetValues c)) @ '']'')"
  proof
    assume set: "toLower (col_DataType c) = ''set'' \<and> f_kind f = KindSet \<and> asString env v \<noteq> []"
    then obtain bits where bits: "setBits c 0 (splitOn (CHR '','') (asString env v)) = Inr bits" and x: "x = VInt64 bits"
      using assms(1,2) by (cases "setBits c 0 (splitOn (CHR '','') (asString env v))")
        (auto simp: toEventValue_def setBitmask_def Let_def)
    with set setMembers_setBits [OF bits assms(5,6)] assms(7)
    show "encodeValue g p buf f x = Inr (appendMembers (buf @ ''['') True
        (filter (\<lambda>l. l \<in> set (splitOn (CHR '','') (asString env v))) (col_SetValues c)) @ '']'')"
      by (simp add: encodeValue_def appendSet_def asInt_def)
  qed
qed

definition exampleSetColumn :: column where
  "exampleSetColumn = (exampleColumn ''tags'' 3 ''set'' False)\<lparr>col_SetValues := [''a'', ''b'', ''c'']\<rparr>"

definition exampleSetField :: field where
  "exampleSetField = \<lparr>f_position = 3, f_name = ''tags'', f_kind = KindSet, f_jsonKey = [],
     f_enumLabels = [], f_setLabels = [''a'', ''b'', ''c''], f_needsCharsetConversion = False,
     f_timePrecision = 0\<rparr>"

theorem scanned_labels_kept_witness:
  "toEventValue exampleScanEnv exampleSetColumn (VBytes ''c,a'') = Inr (VInt64 5) \<and>
   encodeValue exampleEnv examplePlan [] exampleSetField (VInt64 5) =
     Inr (appendMembers ''['' True [''a'', ''c''] @ '']'')"
proof -
  have read: "toEventValue exampleScanEnv exampleSetColumn (VBytes ''c,a'') = Inr (VInt64 5)" by code_simp
  have as: "asString exampleScanEnv (VBytes ''c,a'') = ''c,a''" by (simp add: asString_def)
  have column: "toLower (col_DataType exampleSetColumn) = ''set''" by code_simp
  have labels: "col_EnumValues exampleSetColumn = []" "col_SetValues exampleSetColumn = [''a'', ''b'', ''c'']"
    "f_kind exampleSetField = KindSet" "f_enumLabels exampleSetField = []"
    "f_setLabels exampleSetField = [''a'', ''b'', ''c'']"
    by (simp_all add: exampleSetColumn_def exampleColumn_def exampleSetField_def)
  show ?thesis
    using read scanned_labels_kept [OF read, of exampleSetField exampleEnv examplePlan "[]"]
    by (simp add: as column labels)
qed

text \<open>
  The cursor is written as JSON text, which replaces every byte that is not valid UTF-8: two
  different binary keys have the same cursor, so that a resumed scan cannot tell them apart.
\<close>

theorem cursor_confuses_binary_keys:
  "encodeCursor env [VString [CHR 0xFE]] = encodeCursor env [VString [CHR 0xFF]] \<and>
   asString env (VString [CHR 0xFE]) \<noteq> asString env (VString [CHR 0xFF])"
proof -
  have "jsonMarshalString [CHR 0xFE] = jsonMarshalString [CHR 0xFF]" by code_simp
  then show ?thesis by (simp add: encodeCursor_def)
qed

text \<open>
  A TIME column is mapped to a number of its own kind, but the scan reads it as text, which the
  transformer refuses: no row whose TIME column is set can be encoded.
\<close>

theorem time_column_refused:
  assumes "toLower (col_DataType c) = ''time''" and "\<not> col_Generated c" and "v \<noteq> VNil"
  shows "\<exists>m x. schemaMap c = Inr m \<and> toEventValue env c v = Inr x \<and>
     (\<forall>f g p buf. f_kind f = m_Kind m \<longrightarrow> encodeValue g p buf f x = Inl (IntExpected (f_name f) x))"
  using assms by (auto simp: schemaMap_def mapType_def toEventValue_def encodeValue_def appendInt_def asInt_def Let_def)

theorem time_column_refused_witness:
  "toEventValue exampleScanEnv (exampleColumn ''at'' 0 ''time'' False) (VBytes ''10:00:00'') = Inr (VString ''10:00:00'')
   \<and> (\<exists>m. schemaMap (exampleColumn ''at'' 0 ''time'' False) = Inr m)"
proof -
  have "toLower (col_DataType (exampleColumn ''at'' 0 ''time'' False)) = ''time''"
    "\<not> col_Generated (exampleColumn ''at'' 0 ''time'' False)"
    "toEventValue exampleScanEnv (exampleColumn ''at'' 0 ''time'' False) (VBytes ''10:00:00'') = Inr (VString ''10:00:00'')"
    by code_simp+
  then show ?thesis
    using time_column_refused [of "exampleColumn ''at'' 0 ''time'' False" "VBytes ''10:00:00''" exampleScanEnv]
    by auto
qed

end
