(* ===== verification/Elasticsearch.thy ===== *)
theory Elasticsearch
  imports Event GoEncoding
begin

unbundle bit_operations_syntax

text \<open>
  \<^verbatim>\<open>internal/sink/elasticsearch/bulk.go\<close>: a batch becomes one bulk request; every item of the
  response is an outcome; documents refused for capacity are sent again; a request that is too
  large is sent in halves.

  What is outside the repository is an argument, the record \<open>es_env\<close>: the HTTP exchange, the
  compression of a body, the random jitter, sleeping under a context (\<^verbatim>\<open>True\<close> when the context
  ended first), and what a JSON decoder reads from a response and from one of its items.  They act
  on a world \<^typ>\<open>'w\<close>; nothing is assumed of them.

  \<^verbatim>\<open>Write\<close>, \<^verbatim>\<open>attempt\<close> and \<^verbatim>\<open>writeHalves\<close> call one another.  The last two take the function that
  writes a smaller batch as an argument, and \<open>es_WriteFuel\<close> ties the knot with a bound on the
  depth, which \<open>es_Write\<close> takes from the length of the batch; that this is always enough, so that
  \<open>es_Write\<close> satisfies the source's own recursive equation, is proved below.
\<close>

record es_options =
  eo_Addresses :: "string list"
  eo_Index :: string
  eo_Alias :: string
  eo_Username :: string
  eo_Password :: string
  eo_Workers :: int
  eo_MaxAttempts :: int
  eo_BaseBackoff :: int
  eo_MaxBackoff :: int
  eo_Compress :: bool
  eo_RequestTimeout :: int

record es_sink =
  es_opts :: es_options
  es_indexAction :: bytes
  es_deleteAction :: bytes
  es_nextURL :: u64

record bulk_item =
  bi_Status :: int
  bi_Type :: string
  bi_Reason :: string

record http_request =
  hr_url :: string
  hr_body :: bytes
  hr_gzipped :: bool
  hr_auth :: "(string \<times> string) option"

datatype http_response = TransportFailed string | ReadFailed int string | Answered int bytes

record 'w es_env =
  ee_do :: "http_request \<Rightarrow> 'w \<Rightarrow> http_response \<times> 'w"
  ee_gzip :: "bytes \<Rightarrow> bytes"
  ee_rand :: "int \<Rightarrow> 'w \<Rightarrow> int \<times> 'w"
  ee_sleep :: "int \<Rightarrow> 'w \<Rightarrow> bool \<times> 'w"
  ee_unmarshalBulk :: "bytes \<Rightarrow> string + bytes list"
  ee_unmarshalItem :: "bytes \<Rightarrow> string + (string \<times> bulk_item) list"

datatype es_error =
    AddressRequired
  | IndexRequired
  | WorkersNegative
  | DocNoKey
  | DocNoBody string
  | BulkRequestFailed string
  | SingleTooLarge string
  | BulkStatus int string
  | CredentialsRejected int string
  | RequestMalformed int string
  | ResponseUnreadable string
  | ItemsMismatch nat nat
  | ItemUnreadable string string
  | ItemNoAction string
  | StillRejected nat int
  | ContextEnded
  | ContextEndedAfter es_error
  | DepthExceeded

subsection \<open>Construction\<close>

definition es_New :: "es_options \<Rightarrow> es_error + es_sink" where
  "es_New opts =
     (if eo_Addresses opts = [] then Inl AddressRequired
      else if eo_Index opts = [] then Inl IndexRequired
      else if eo_Workers opts < 0 then Inl WorkersNegative
      else
        (let opts' = opts\<lparr>
               eo_Workers := (if eo_Workers opts = 0 then 1 else eo_Workers opts),
               eo_MaxAttempts := (if eo_MaxAttempts opts \<le> 0 then 5 else eo_MaxAttempts opts),
               eo_BaseBackoff :=
                 (if eo_BaseBackoff opts \<le> 0 then 200 * 1000000 else eo_BaseBackoff opts),
               eo_MaxBackoff :=
                 (if eo_MaxBackoff opts \<le> 0 then 30 * 1000000000 else eo_MaxBackoff opts),
               eo_RequestTimeout :=
                 (if eo_RequestTimeout opts \<le> 0 then 60 * 1000000000 else eo_RequestTimeout opts),
               eo_Addresses := map (trimRight (\<lambda>c. c = CHR ''/'')) (eo_Addresses opts)\<rparr>;
             encodedIndex = jsonMarshalString (eo_Index opts);
             quote = (\<lambda>s. [CHR 0x22] @ s @ [CHR 0x22])
         in Inr \<lparr>es_opts = opts',
              es_indexAction = ''{'' @ quote ''index'' @ '':{'' @ quote ''_index'' @ '':''
                @ encodedIndex @ '','' @ quote ''_id'' @ '':'',
              es_deleteAction = ''{'' @ quote ''delete'' @ '':{'' @ quote ''_index'' @ '':''
                @ encodedIndex @ '','' @ quote ''_id'' @ '':'',
              es_nextURL = 0\<rparr>))"

subsection \<open>Encoding a request\<close>

definition es_jsonByte :: "char \<Rightarrow> string" where
  "es_jsonByte c =
     (if c = CHR 0x22 then [CHR 0x5C, CHR 0x22]
      else if c = CHR 0x5C then [CHR 0x5C, CHR 0x5C]
      else if byteVal c < 32 then uEscape c
      else [c])"

definition es_appendJSONString :: "bytes \<Rightarrow> string \<Rightarrow> bytes" where
  "es_appendJSONString buf s = buf @ [CHR 0x22] @ concat (map es_jsonByte s) @ [CHR 0x22]"

definition versionSuffix :: "u64 \<Rightarrow> bytes" where
  "versionSuffix v = '','' @ [CHR 0x22] @ ''version'' @ [CHR 0x22] @ '':'' @ formatUint v @ '','' @
     [CHR 0x22] @ ''version_type'' @ [CHR 0x22] @ '':'' @ [CHR 0x22] @ ''external'' @ [CHR 0x22] @ ''}}''"

fun es_encodeLoop :: "es_sink \<Rightarrow> bytes \<Rightarrow> doc list \<Rightarrow> es_error + bytes" where
  "es_encodeLoop s buf [] = Inr buf"
| "es_encodeLoop s buf (d # docs) =
     (if doc_Key d = [] then Inl DocNoKey
      else
        (let buf1 = buf @ (if doc_Deleted d then es_deleteAction s else es_indexAction s);
             buf2 = es_appendJSONString buf1 (doc_Key d) @ versionSuffix (doc_Version d) @ [CHR 0x0A]
         in if \<not> doc_Deleted d
            then (if doc_Body d = [] then Inl (DocNoBody (doc_Key d))
                  else es_encodeLoop s (buf2 @ doc_Body d @ [CHR 0x0A]) docs)
            else es_encodeLoop s buf2 docs))"

definition es_encodeBulk :: "es_sink \<Rightarrow> doc list \<Rightarrow> es_error + bytes" where
  "es_encodeBulk s docs = es_encodeLoop s [] docs"

subsection \<open>The exchange\<close>

definition es_nextAddress :: "es_sink \<Rightarrow> string \<times> es_sink" where
  "es_nextAddress s =
     (if length (eo_Addresses (es_opts s)) = 1 then (eo_Addresses (es_opts s) ! 0, s)
      else (eo_Addresses (es_opts s) !
              unat (es_nextURL s mod of_nat (length (eo_Addresses (es_opts s)))),
            s\<lparr>es_nextURL := es_nextURL s + 1\<rparr>))"

definition es_post ::
    "'w es_env \<Rightarrow> bytes \<Rightarrow> es_sink \<Rightarrow> 'w \<Rightarrow> http_response \<times> es_sink \<times> 'w" where
  "es_post env body s w =
     (let (addr, s1) = es_nextAddress s;
          o' = es_opts s;
          req = \<lparr>hr_url = addr @ ''/_bulk'',
                 hr_body = (if eo_Compress o' then ee_gzip env body else body),
                 hr_gzipped = eo_Compress o',
                 hr_auth = (if eo_Username o' \<noteq> [] then Some (eo_Username o', eo_Password o')
                            else None)\<rparr>;
          (resp, w1) = ee_do env req w
      in (resp, s1, w1))"

text \<open>The delay before the next attempt, without its jitter: a shift at 64 bits, clamped.\<close>

definition es_backoff :: "es_options \<Rightarrow> int \<Rightarrow> int" where
  "es_backoff o' attempt =
     (let delay = sint (push_bit (nat (attempt - 1)) (of_int (eo_BaseBackoff o') :: 64 word))
      in if eo_MaxBackoff o' < delay \<or> delay \<le> 0 then eo_MaxBackoff o' else delay)"

definition es_wait :: "'w es_env \<Rightarrow> es_options \<Rightarrow> int \<Rightarrow> 'w \<Rightarrow> es_error option \<times> 'w" where
  "es_wait env o' attempt w =
     (let delay = es_backoff o' attempt;
          (jitter, w1) = ee_rand env (delay div 2 + 1) w;
          (ended, w2) = ee_sleep env (delay + jitter) w1
      in (if ended then Some ContextEnded else None, w2))"

definition es_snippet :: "bytes \<Rightarrow> string" where
  "es_snippet payload = (if 300 < length payload then take 300 payload @ ''...'' else payload)"

subsection \<open>Reading a response\<close>

record es_outcome =
  o_applied :: nat
  o_stale :: nat
  o_rejected :: "rejection list"
  o_retry :: "doc list"
  o_retryable :: bool

definition noOutcome :: es_outcome where
  "noOutcome = \<lparr>o_applied = 0, o_stale = 0, o_rejected = [], o_retry = [], o_retryable = False\<rparr>"

text \<open>A JSON object read as a map gives some entry first; an empty one gives none.\<close>

definition parseItem :: "'w es_env \<Rightarrow> string \<Rightarrow> bytes \<Rightarrow> es_error + bulk_item" where
  "parseItem env k raw = (case ee_unmarshalItem env raw of
      Inl e \<Rightarrow> Inl (ItemUnreadable k e)
    | Inr [] \<Rightarrow> Inl (ItemNoAction k)
    | Inr ((_, item) # _) \<Rightarrow> Inr item)"

definition classifyItem :: "doc \<Rightarrow> bulk_item \<Rightarrow> es_outcome \<Rightarrow> es_outcome" where
  "classifyItem d item out =
     (if 200 \<le> bi_Status item \<and> bi_Status item < 300 then out\<lparr>o_applied := o_applied out + 1\<rparr>
      else if bi_Status item = 409 then out\<lparr>o_stale := o_stale out + 1\<rparr>
      else if bi_Status item = 404 \<and> doc_Deleted d then out\<lparr>o_stale := o_stale out + 1\<rparr>
      else if bi_Status item = 429 \<or> 500 \<le> bi_Status item then out\<lparr>o_retry := o_retry out @ [d]\<rparr>
      else out\<lparr>o_rejected := o_rejected out @
             [\<lparr>rej_Doc = d, rej_Status = bi_Status item,
               rej_Reason = trimSpace (bi_Type item @ '': '' @ bi_Reason item)\<rparr>]\<rparr>)"

fun classifyLoop ::
    "'w es_env \<Rightarrow> es_outcome \<Rightarrow> (doc \<times> bytes) list \<Rightarrow> es_error + es_outcome" where
  "classifyLoop env out [] = Inr out"
| "classifyLoop env out ((d, raw) # rest) = (case parseItem env (doc_Key d) raw of
      Inl e \<Rightarrow> Inl e
    | Inr item \<Rightarrow> classifyLoop env (classifyItem d item out) rest)"

type_synonym es_attempted = "es_outcome \<times> es_error option"

definition es_classify :: "'w es_env \<Rightarrow> doc list \<Rightarrow> bytes \<Rightarrow> es_attempted" where
  "es_classify env docs payload = (case ee_unmarshalBulk env payload of
      Inl e \<Rightarrow> (noOutcome\<lparr>o_retryable := True\<rparr>, Some (ResponseUnreadable e))
    | Inr items \<Rightarrow>
        if length items \<noteq> length docs
        then (noOutcome, Some (ItemsMismatch (length items) (length docs)))
        else (case classifyLoop env noOutcome (zip docs items) of
                Inl e \<Rightarrow> (noOutcome, Some e)
              | Inr out \<Rightarrow> (out, None)))"

subsection \<open>Writing a batch\<close>

type_synonym 'w es_writer =
  "doc list \<Rightarrow> es_sink \<Rightarrow> 'w \<Rightarrow> (result \<times> es_error option) \<times> es_sink \<times> 'w"

definition es_writeHalves ::
    "'w es_writer \<Rightarrow> doc list \<Rightarrow> es_sink \<Rightarrow> 'w \<Rightarrow> es_attempted \<times> es_sink \<times> 'w" where
  "es_writeHalves writer docs s w =
     (let mid = length docs div 2;
          ((res1, err1), s1, w1) = writer (take mid docs) s w;
          combined1 = noOutcome\<lparr>o_applied := res_Applied res1, o_stale := res_Stale res1,
                                o_rejected := res_Rejected res1\<rparr>
      in case err1 of
           Some e \<Rightarrow> ((combined1, Some e), s1, w1)
         | None \<Rightarrow>
             (let ((res2, err2), s2, w2) = writer (drop mid docs) s1 w1;
                  combined2 = combined1\<lparr>o_applied := res_Applied res1 + res_Applied res2,
                                        o_stale := res_Stale res1 + res_Stale res2,
                                        o_rejected := res_Rejected res1 @ res_Rejected res2\<rparr>
              in ((combined2, err2), s2, w2)))"

definition es_attempt ::
    "'w es_env \<Rightarrow> 'w es_writer \<Rightarrow> doc list \<Rightarrow> es_sink \<Rightarrow> 'w \<Rightarrow> es_attempted \<times> es_sink \<times> 'w" where
  "es_attempt env writer docs s w = (case es_encodeBulk s docs of
      Inl e \<Rightarrow> ((noOutcome, Some e), s, w)
    | Inr body \<Rightarrow> (case es_post env body s w of
          (TransportFailed e, s1, w1) \<Rightarrow>
            ((noOutcome\<lparr>o_retryable := True\<rparr>, Some (BulkRequestFailed e)), s1, w1)
        | (ReadFailed _ e, s1, w1) \<Rightarrow>
            ((noOutcome\<lparr>o_retryable := True\<rparr>, Some (BulkRequestFailed e)), s1, w1)
        | (Answered status payload, s1, w1) \<Rightarrow>
            if status = 413 then
              (if 1 < length docs then es_writeHalves writer docs s1 w1
               else ((noOutcome, Some (SingleTooLarge (doc_Key (hd docs)))), s1, w1))
            else if status = 429 \<or> 500 \<le> status then
              ((noOutcome\<lparr>o_retryable := True\<rparr>, Some (BulkStatus status (es_snippet payload))), s1, w1)
            else if status = 401 \<or> status = 403 then
              ((noOutcome, Some (CredentialsRejected status (es_snippet payload))), s1, w1)
            else if 400 \<le> status then
              ((noOutcome, Some (RequestMalformed status (es_snippet payload))), s1, w1)
            else (es_classify env docs payload, s1, w1)))"

definition addOutcome :: "result \<Rightarrow> es_outcome \<Rightarrow> result" where
  "addOutcome r out = \<lparr>res_Applied = res_Applied r + o_applied out,
     res_Stale = res_Stale r + o_stale out, res_Rejected = res_Rejected r @ o_rejected out\<rparr>"

text \<open>
  The loop of \<^verbatim>\<open>Write\<close>: \<^term>\<open>left::nat\<close> is how many attempts remain after this one, so that the test
  \<^verbatim>\<open>attempt >= MaxAttempts\<close> is that none do.
\<close>

fun es_loop ::
    "'w es_env \<Rightarrow> 'w es_writer \<Rightarrow> nat \<Rightarrow> int \<Rightarrow> result \<Rightarrow> 'w es_writer" where
  "es_loop env writer left attempt result pending s w =
     (case es_attempt env writer pending s w of
        ((out, Some e), s1, w1) \<Rightarrow>
          (if \<not> o_retryable out then ((result, Some e), s1, w1)
           else (case left of
               0 \<Rightarrow> ((result, Some e), s1, w1)
             | Suc left' \<Rightarrow> (case es_wait env (es_opts s1) attempt w1 of
                   (Some _, w2) \<Rightarrow> ((result, Some (ContextEndedAfter e)), s1, w2)
                 | (None, w2) \<Rightarrow> es_loop env writer left' (attempt + 1) result pending s1 w2)))
      | ((out, None), s1, w1) \<Rightarrow>
          (let result' = addOutcome result out
           in if o_retry out = [] then ((result', None), s1, w1)
              else (case left of
                  0 \<Rightarrow> ((result', Some (StillRejected (length (o_retry out)) attempt)), s1, w1)
                | Suc left' \<Rightarrow> (case es_wait env (es_opts s1) attempt w1 of
                      (Some e, w2) \<Rightarrow> ((result', Some e), s1, w2)
                    | (None, w2) \<Rightarrow>
                        es_loop env writer left' (attempt + 1) result' (o_retry out) s1 w2))))"

declare es_loop.simps [simp del]

definition es_WriteWith :: "'w es_env \<Rightarrow> 'w es_writer \<Rightarrow> 'w es_writer" where
  "es_WriteWith env writer docs s w =
     (if docs = [] then ((emptyResult, None), s, w)
      else es_loop env writer (nat (eo_MaxAttempts (es_opts s) - 1)) 1 emptyResult docs s w)"

fun es_WriteFuel :: "nat \<Rightarrow> 'w es_env \<Rightarrow> 'w es_writer" where
  "es_WriteFuel 0 env docs s w = ((emptyResult, Some DepthExceeded), s, w)"
| "es_WriteFuel (Suc n) env docs s w = es_WriteWith env (es_WriteFuel n env) docs s w"

definition es_Write :: "'w es_env \<Rightarrow> 'w es_writer" where
  "es_Write env docs s w = es_WriteFuel (Suc (length docs)) env docs s w"

subsection \<open>Every document has an outcome\<close>

definition outcomeTotal :: "es_outcome \<Rightarrow> nat" where
  "outcomeTotal out = o_applied out + o_stale out + length (o_rejected out) + length (o_retry out)"

definition unsettled :: "es_outcome \<Rightarrow> doc multiset" where
  "unsettled out = rejectedDocs (o_rejected out) + mset (o_retry out)"

lemma classifyItem_total:
  "outcomeTotal (classifyItem d item out) = outcomeTotal out + 1"
  "unsettled (classifyItem d item out) \<subseteq># add_mset d (unsettled out)"
  by (auto simp: classifyItem_def outcomeTotal_def unsettled_def rejectedDocs_def)

lemma classifyLoop_total:
  "classifyLoop env out xs = Inr out' \<Longrightarrow>
     outcomeTotal out' = outcomeTotal out + length xs \<and>
     unsettled out' \<subseteq># unsettled out + mset (map fst xs)"
proof (induction xs arbitrary: out)
  case (Cons x xs)
  obtain d raw where x: "x = (d, raw)" by (cases x)
  from Cons.prems x obtain item where rest: "classifyLoop env (classifyItem d item out) xs = Inr out'"
    by (auto split: sum.splits)
  have "unsettled (classifyItem d item out) + mset (map fst xs) \<subseteq># unsettled out + mset (map fst (x # xs))"
    using classifyItem_total(2) [of d item out] x by simp
  with Cons.IH [OF rest] x show ?case
    by (auto simp: classifyItem_total(1) intro: subset_mset.trans)
qed simp

definition outcomeOK :: "es_outcome \<Rightarrow> doc list \<Rightarrow> bool" where
  "outcomeOK out docs \<longleftrightarrow> outcomeTotal out = length docs \<and> unsettled out \<subseteq># mset docs"

lemma es_classify_OK:
  assumes "es_classify env docs payload = (out, None)"
  shows "outcomeOK out docs"
proof -
  from assms obtain items where "length items = length docs"
    and "classifyLoop env noOutcome (zip docs items) = Inr out"
    by (auto simp: es_classify_def split: sum.splits if_splits)
  with classifyLoop_total [of env noOutcome "zip docs items" out] show ?thesis
    by (simp add: outcomeOK_def outcomeTotal_def unsettled_def noOutcome_def)
qed

text \<open>A result that accounts for a batch, and a writer that always does when it reports no error.\<close>

definition okWriter :: "'w es_writer \<Rightarrow> bool" where
  "okWriter writer \<longleftrightarrow> (\<forall>docs s w res s' w'. writer docs s w = ((res, None), s', w') \<longrightarrow>
     Total res = length docs \<and> rejectedDocs (res_Rejected res) \<subseteq># mset docs)"

lemma es_writeHalves_OK:
  assumes "okWriter writer" and "es_writeHalves writer docs s w = ((out, None), s', w')"
  shows "outcomeOK out docs \<and> o_retry out = []"
proof -
  let ?mid = "length docs div 2"
  obtain res1 err1 s1 w1 where w1: "writer (take ?mid docs) s w = ((res1, err1), s1, w1)"
    by (metis prod.exhaust)
  with assms(2) have e1: "err1 = None" by (cases err1) (auto simp: es_writeHalves_def Let_def)
  obtain res2 err2 s2 w2 where w2: "writer (drop ?mid docs) s1 w1 = ((res2, err2), s2, w2)"
    by (metis prod.exhaust)
  with w1 e1 assms(2) have e2: "err2 = None" and out: "out = noOutcome\<lparr>
      o_applied := res_Applied res1 + res_Applied res2, o_stale := res_Stale res1 + res_Stale res2,
      o_rejected := res_Rejected res1 @ res_Rejected res2\<rparr>"
    by (auto simp: es_writeHalves_def Let_def noOutcome_def)
  from assms(1) w1 e1 have "Total res1 = length (take ?mid docs)"
    "rejectedDocs (res_Rejected res1) \<subseteq># mset (take ?mid docs)"
    unfolding okWriter_def by blast+
  moreover from assms(1) w2 e2 have "Total res2 = length (drop ?mid docs)"
    "rejectedDocs (res_Rejected res2) \<subseteq># mset (drop ?mid docs)"
    unfolding okWriter_def by blast+
  ultimately have "Total res1 + Total res2 = length docs"
    and "rejectedDocs (res_Rejected res1) + rejectedDocs (res_Rejected res2) \<subseteq># mset docs"
    using subset_mset.add_mono [of _ "mset (take ?mid docs)" _ "mset (drop ?mid docs)"]
    by (auto simp flip: mset_append)
  with out show ?thesis
    by (simp add: outcomeOK_def outcomeTotal_def unsettled_def noOutcome_def Total_def)
qed

lemma es_attempt_OK:
  assumes "okWriter writer" and "es_attempt env writer docs s w = ((out, None), s', w')"
  shows "outcomeOK out docs"
  using assms(2) es_writeHalves_OK [OF assms(1)]
  by (auto simp: es_attempt_def es_classify_OK split: sum.splits prod.splits http_response.splits if_splits)

lemma es_loop_OK:
  assumes "okWriter writer"
  shows "es_loop env writer left attempt result pending s w = ((res, None), s', w') \<Longrightarrow>
     Total res = Total result + length pending \<and>
     rejectedDocs (res_Rejected res) \<subseteq># rejectedDocs (res_Rejected result) + mset pending"
proof (induction left arbitrary: attempt result pending s w)
  case (0 attempt result pending s w)
  then obtain out s1 w1 where a: "es_attempt env writer pending s w = ((out, None), s1, w1)"
    and "o_retry out = []" and "res = addOutcome result out"
    by (subst (asm) es_loop.simps) (auto simp: Let_def split: prod.splits option.splits if_splits)
  with es_attempt_OK [OF assms a] show ?case
    by (auto simp: outcomeOK_def outcomeTotal_def unsettled_def addOutcome_def Total_def)
next
  case (Suc left attempt result pending s w)
  obtain out err s1 w1 where a: "es_attempt env writer pending s w = ((out, err), s1, w1)"
    by (metis prod.exhaust)
  show ?case
  proof (cases err)
    case (Some e)
    with a Suc.prems obtain w2 where
      "es_loop env writer left (attempt + 1) result pending s1 w2 = ((res, None), s', w')"
      by (subst (asm) es_loop.simps) (auto split: prod.splits option.splits if_splits)
    from Suc.IH [OF this] show ?thesis .
  next
    case None
    note ok = es_attempt_OK [OF assms a [unfolded None]]
    let ?r = "addOutcome result out"
    show ?thesis
    proof (cases "o_retry out = []")
      case True
      with a None Suc.prems have "res = ?r" by (subst (asm) es_loop.simps) (simp add: Let_def)
      with ok True show ?thesis
        by (auto simp: outcomeOK_def outcomeTotal_def unsettled_def addOutcome_def Total_def)
    next
      case False
      with a None Suc.prems obtain w2 where
        "es_loop env writer left (attempt + 1) ?r (o_retry out) s1 w2 = ((res, None), s', w')"
        by (subst (asm) es_loop.simps) (auto simp: Let_def split: prod.splits option.splits if_splits)
      from Suc.IH [OF this] have tot: "Total res = Total ?r + length (o_retry out)"
        and rej: "rejectedDocs (res_Rejected res) \<subseteq># rejectedDocs (res_Rejected ?r) + mset (o_retry out)"
        by auto
      from ok have "rejectedDocs (res_Rejected ?r) + mset (o_retry out) \<subseteq>#
          rejectedDocs (res_Rejected result) + mset pending"
        by (simp add: outcomeOK_def unsettled_def addOutcome_def)
      with tot rej ok show ?thesis
        by (auto simp: outcomeOK_def outcomeTotal_def addOutcome_def Total_def
            intro: subset_mset.trans)
    qed
  qed
qed

lemma es_WriteFuel_OK: "okWriter (es_WriteFuel n env)"
proof (induction n)
  case (Suc n)
  show ?case unfolding okWriter_def
  proof (intro allI impI)
    fix docs s w res s' w'
    assume "es_WriteFuel (Suc n) env docs s w = ((res, None), s', w')"
    then show "Total res = length docs \<and> rejectedDocs (res_Rejected res) \<subseteq># mset docs"
      using es_loop_OK [OF Suc.IH, of env _ 1 emptyResult docs s w res s' w']
      by (auto simp: es_WriteWith_def Total_def emptyResult_def split: if_splits)
  qed
qed (simp add: okWriter_def)

subsection \<open>The depth bound is enough\<close>

lemma es_attempt_retry:
  assumes "es_attempt env writer docs s w = ((out, None), s', w')"
  shows "length (o_retry out) \<le> length docs"
proof -
  have "length (o_retry out) \<le> length docs" if "es_classify env docs payload = (out, None)" for payload
    using es_classify_OK [OF that] by (simp add: outcomeOK_def outcomeTotal_def)
  moreover have "o_retry out = []" if "es_writeHalves writer docs s1 w1 = ((out, None), s', w')" for s1 w1
    using that by (auto simp: es_writeHalves_def noOutcome_def Let_def split: prod.splits option.splits)
  ultimately show ?thesis using assms
    by (auto simp: es_attempt_def split: sum.splits prod.splits http_response.splits if_splits)
qed

lemma es_attempt_cong:
  assumes "\<And>ds s w. length ds < length docs \<Longrightarrow> writer ds s w = writer' ds s w"
  shows "es_attempt env writer docs s w = es_attempt env writer' docs s w"
proof -
  have "es_writeHalves writer docs s1 w1 = es_writeHalves writer' docs s1 w1" if "1 < length docs" for s1 w1
  proof -
    have t: "writer (take (length docs div 2) docs) = writer' (take (length docs div 2) docs)"
      and d: "writer (drop (length docs div 2) docs) = writer' (drop (length docs div 2) docs)"
      using that by (auto intro!: ext assms)
    show ?thesis unfolding es_writeHalves_def Let_def t d ..
  qed
  then show ?thesis
    by (auto simp: es_attempt_def split: sum.splits prod.splits http_response.splits)
qed

lemma es_loop_cong:
  assumes "\<And>ds s w. length ds < n \<Longrightarrow> writer ds s w = writer' ds s w"
  shows "length pending \<le> n \<Longrightarrow> es_loop env writer left attempt result pending s w =
     es_loop env writer' left attempt result pending s w"
proof (induction left arbitrary: attempt result pending s w)
  case (0 attempt result pending s w)
  have "es_attempt env writer pending s w = es_attempt env writer' pending s w"
    using assms 0 by (intro es_attempt_cong) simp
  moreover obtain out err s1 w1 where "es_attempt env writer' pending s w = ((out, err), s1, w1)"
    by (metis prod.exhaust)
  ultimately show ?case by (subst (1 2) es_loop.simps) (simp add: Let_def split: option.splits)
next
  case (Suc left attempt result pending s w)
  have eq: "es_attempt env writer pending s w = es_attempt env writer' pending s w"
    using assms Suc.prems by (intro es_attempt_cong) simp
  obtain out err s1 w1 where a: "es_attempt env writer' pending s w = ((out, err), s1, w1)"
    by (metis prod.exhaust)
  have "length (o_retry out) \<le> n" if "err = None"
    using es_attempt_retry [OF a [unfolded that]] Suc.prems by simp
  with Suc.IH Suc.prems eq a show ?case
    by (subst (1 2) es_loop.simps) (auto simp: Let_def split: option.splits prod.splits)
qed

lemma es_WriteWith_cong:
  assumes "\<And>ds s w. length ds < length docs \<Longrightarrow> writer ds s w = writer' ds s w"
  shows "es_WriteWith env writer docs s w = es_WriteWith env writer' docs s w"
  using es_loop_cong [of "length docs" writer writer' docs env] assms by (simp add: es_WriteWith_def)

lemma es_WriteFuel_enough:
  "length docs < n \<Longrightarrow> es_WriteFuel n env docs s w = es_Write env docs s w"
proof (induction "length docs" arbitrary: docs n s w rule: less_induct)
  case less
  then obtain m where n: "n = Suc m" and m: "length docs \<le> m" by (cases n) auto
  have "es_WriteFuel m env ds s' w' = es_WriteFuel (length docs) env ds s' w'"
    if "length ds < length docs" for ds s' w'
    using less.hyps [OF that, of m] less.hyps [OF that, of "length docs"] that m by simp
  then show ?case using n by (simp add: es_Write_def) (rule es_WriteWith_cong)
qed

subsection \<open>Framing\<close>

definition actionLine :: "es_sink \<Rightarrow> doc \<Rightarrow> bytes" where
  "actionLine s d = es_appendJSONString (if doc_Deleted d then es_deleteAction s else es_indexAction s)
     (doc_Key d) @ versionSuffix (doc_Version d)"

definition bulkLines :: "es_sink \<Rightarrow> doc \<Rightarrow> bytes list" where
  "bulkLines s d = actionLine s d # (if doc_Deleted d then [] else [doc_Body d])"

lemma es_encodeLoop_lines:
  "es_encodeLoop s buf docs = Inr body \<longleftrightarrow>
     list_all (\<lambda>d. doc_Key d \<noteq> [] \<and> (doc_Deleted d \<or> doc_Body d \<noteq> [])) docs \<and>
     body = buf @ concat (map (\<lambda>l. l @ [CHR 0x0A]) (concat (map (bulkLines s) docs)))"
proof (induction docs arbitrary: buf)
  case (Cons d docs)
  then show ?case
    by (cases "doc_Deleted d") (auto simp: bulkLines_def actionLine_def es_appendJSONString_def Let_def)
qed auto

lemma hexLower_not_newline: "n < 16 \<Longrightarrow> hexLower n \<noteq> CHR 0x0A"
  by (drule less_16_cases) (auto simp: hexLower_def)

lemma es_jsonByte_no_newline: "CHR 0x0A \<notin> set (es_jsonByte c)"
proof -
  have "byteVal (CHR 0x0A) < 32" by (simp add: byteVal_def)
  then have "c = CHR 0x0A \<Longrightarrow> byteVal c < 32" by simp
  then show ?thesis
    using hexLower_not_newline [of "byteVal c div 16", THEN not_sym]
      hexLower_not_newline [of "byteVal c mod 16", THEN not_sym]
    by (auto simp: es_jsonByte_def uEscape_def)
qed

lemma formatUint_no_newline: "CHR 0x0A \<notin> set (formatUint v)"
  using showNat_digits [of "unat v"] by (auto simp: formatUint_def isDigit_def byteVal_def)

lemma actionLine_no_newline:
  assumes "CHR 0x0A \<notin> set (es_indexAction s)" and "CHR 0x0A \<notin> set (es_deleteAction s)"
  shows "CHR 0x0A \<notin> set (actionLine s d)"
  using assms es_jsonByte_no_newline formatUint_no_newline
  by (auto simp: actionLine_def es_appendJSONString_def versionSuffix_def)

lemma es_New_given:
  assumes "es_New opts = Inr s"
  shows "eo_Addresses opts \<noteq> []" and "eo_Index opts \<noteq> []" and "\<not> eo_Workers opts < 0"
proof -
  show addresses: "eo_Addresses opts \<noteq> []" using assms by (intro notI) (simp add: es_New_def)
  show indexed: "eo_Index opts \<noteq> []" using assms addresses by (intro notI) (simp add: es_New_def)
  show "\<not> eo_Workers opts < 0" using assms addresses indexed by (intro notI) (simp add: es_New_def)
qed

lemma es_New_no_newline:
  assumes "es_New opts = Inr s"
  shows "CHR 0x0A \<notin> set (es_indexAction s)" and "CHR 0x0A \<notin> set (es_deleteAction s)"
proof -
  have "CHR 0x0A \<notin> set (jsonStringBody (eo_Index opts))"
    using jsonStringBody_printable [of "eo_Index opts"] by (auto simp: list_all_iff byteVal_def)
  moreover have "s = projr (es_New opts)" using assms by simp
  ultimately show "CHR 0x0A \<notin> set (es_indexAction s)" and "CHR 0x0A \<notin> set (es_deleteAction s)"
    using es_New_given [OF assms] by (simp_all add: es_New_def jsonMarshalString_def Let_def)
qed

subsection \<open>The sink's contract\<close>

definition es_sinkWrite ::
    "'w es_env \<Rightarrow> doc list \<Rightarrow> es_sink \<times> 'w \<Rightarrow> (result \<times> es_error option) \<times> es_sink \<times> 'w" where
  "es_sinkWrite env docs sw = es_Write env docs (fst sw) (snd sw)"

interpretation es: accounting_sink "es_sinkWrite env" for env
proof unfold_locales
  fix docs and sw :: "es_sink \<times> 'a" and res sw'
  assume "es_sinkWrite env docs sw = ((res, None), sw')"
  then have "es_WriteFuel (Suc (length docs)) env docs (fst sw) (snd sw) = ((res, None), fst sw', snd sw')"
    by (simp add: es_sinkWrite_def es_Write_def)
  then have "Total res = length docs \<and> rejectedDocs (res_Rejected res) \<subseteq># mset docs"
    using es_WriteFuel_OK [of "Suc (length docs)" env] unfolding okWriter_def by blast
  then show "Total res = length docs" and "rejectedDocs (res_Rejected res) \<subseteq># mset docs" by simp_all
qed

lemma es_Write_accounted:
  assumes "es_Write env docs s w = ((res, None), s', w')"
  shows "Total res = length docs" and "rejectedDocs (res_Rejected res) \<subseteq># mset docs"
  using es.accounts [of env docs "(s, w)" res "(s', w')"] es.refuses_own [of env docs "(s, w)" res "(s', w')"]
    assms by (simp_all add: es_sinkWrite_def)

subsection \<open>Properties\<close>

text \<open>
  C13: No document is dropped silently by the Elasticsearch sink.  Whatever the cluster answers, over
  any number of retries and any splitting of the batch into halves, a write that reports no error
  accounts for every document of the batch (applied, stale or refused), and the documents it lists
  as refused are documents of the batch, each at most as often as the batch holds it.
\<close>

theorem es_Write_accounts:
  assumes "es_Write env docs s w = ((res, None), s', w')"
  shows "Total res = length docs \<and> rejectedDocs (res_Rejected res) \<subseteq># mset docs"
  using es_Write_accounted [OF assms] by simp

definition exampleEsOptions :: es_options where
  "exampleEsOptions = \<lparr>eo_Addresses = [''http://a/''], eo_Index = ''orders'', eo_Alias = [],
     eo_Username = [], eo_Password = [], eo_Workers = 0, eo_MaxAttempts = 2, eo_BaseBackoff = 0,
     eo_MaxBackoff = 0, eo_Compress = False, eo_RequestTimeout = 0\<rparr>"

definition exampleEsSink :: es_sink where
  "exampleEsSink = projr (es_New exampleEsOptions)"

text \<open>A cluster that applies what it can: it asks to split the first request, then answers 201.\<close>

definition exampleEsEnv :: "nat es_env" where
  "exampleEsEnv = \<lparr>ee_do = (\<lambda>_ n. (Answered (if n = 0 then 413 else 200) ''ok'', Suc n)),
     ee_gzip = id, ee_rand = (\<lambda>_ n. (0, n)), ee_sleep = (\<lambda>_ n. (False, n)),
     ee_unmarshalBulk = (\<lambda>_. Inr [''item'']),
     ee_unmarshalItem = (\<lambda>_. Inr [(''index'', \<lparr>bi_Status = 201, bi_Type = [], bi_Reason = []\<rparr>)])\<rparr>"

definition esDoc :: "string \<Rightarrow> doc" where
  "esDoc k = \<lparr>doc_Key = k, doc_Body = ''{}'', doc_Version = 1, doc_Deleted = False\<rparr>"

lemma exampleEsSink_new: "es_New exampleEsOptions = Inr exampleEsSink"
  by (simp add: exampleEsSink_def es_New_def exampleEsOptions_def Let_def)

lemma exampleEs_split:
  "es_Write exampleEsEnv [esDoc ''a'', esDoc ''b''] exampleEsSink 0 =
     ((\<lparr>res_Applied = 2, res_Stale = 0, res_Rejected = []\<rparr>, None), exampleEsSink, 3)"
  by code_simp

theorem es_Write_accounts_witness:
  "Total \<lparr>res_Applied = 2, res_Stale = 0, res_Rejected = []\<rparr> = length [esDoc ''a'', esDoc ''b'']"
  using es_Write_accounts [OF exampleEs_split] by simp


text \<open>
  The lines of a bulk request are its documents.  For a sink that \<^verbatim>\<open>New\<close> returned and bodies
  without a raw newline, cutting the request at its newlines gives, for every document in order, its
  action line and, unless it is a deletion, its body, and nothing else: no key, version or index
  name can break the framing.
\<close>

theorem es_encodeBulk_framing:
  assumes "es_New opts = Inr s" and "es_encodeBulk s docs = Inr body"
    and "\<forall>d \<in> set docs. CHR 0x0A \<notin> set (doc_Body d)"
  shows "splitOn (CHR 0x0A) body = concat (map (bulkLines s) docs) @ [[]]"
proof -
  have body: "body = concat (map (\<lambda>l. l @ [CHR 0x0A]) (concat (map (bulkLines s) docs)))"
    using assms(2) by (simp add: es_encodeBulk_def es_encodeLoop_lines)
  have "\<forall>l \<in> set (concat (map (bulkLines s) docs)). CHR 0x0A \<notin> set l"
    using assms(3) actionLine_no_newline [OF es_New_no_newline [OF assms(1)]]
    by (auto simp: bulkLines_def)
  then show ?thesis unfolding body by (rule splitOn_lines)
qed

theorem es_encodeBulk_framing_witness:
  "splitOn (CHR 0x0A) (projr (es_encodeBulk exampleEsSink [esDoc ''a'']))
     = bulkLines exampleEsSink (esDoc ''a'') @ [[]]"
proof -
  have "\<not> isl (es_encodeBulk exampleEsSink [esDoc ''a''])" by code_simp
  then have "es_encodeBulk exampleEsSink [esDoc ''a''] = Inr (projr (es_encodeBulk exampleEsSink [esDoc ''a'']))"
    by simp
  moreover have "\<forall>d \<in> set [esDoc ''a'']. CHR 0x0A \<notin> set (doc_Body d)" by (simp add: esDoc_def)
  ultimately show ?thesis using es_encodeBulk_framing [OF exampleEsSink_new] by fastforce
qed

text \<open>
  The delay before a retry is positive and at most the configured maximum, for every attempt:
  the shift that doubles it may overflow 64 bits, and then the maximum is used.
\<close>

theorem es_backoff_bounded:
  assumes "es_New opts = Inr s"
  shows "0 < es_backoff (es_opts s) attempt \<and>
     es_backoff (es_opts s) attempt \<le> eo_MaxBackoff (es_opts s)"
proof -
  have "0 < eo_MaxBackoff (es_opts s)"
  proof -
    have "s = projr (es_New opts)" using assms by simp
    then show ?thesis using es_New_given [OF assms] by (simp add: es_New_def Let_def)
  qed
  then show ?thesis by (auto simp: es_backoff_def Let_def)
qed

theorem es_backoff_bounded_witness:
  "0 < es_backoff (es_opts exampleEsSink) 100 \<and>
     es_backoff (es_opts exampleEsSink) 100 \<le> eo_MaxBackoff (es_opts exampleEsSink)"
  by (rule es_backoff_bounded [OF exampleEsSink_new])

end
