(* ===== verification/IndexAdmin.thy ===== *)
theory IndexAdmin
  imports Elasticsearch "HOL-Library.Char_ord" "HOL-Library.List_Lexorder"
begin

text \<open>
  The administration of an Elasticsearch index: the read alias (\<^verbatim>\<open>alias.go\<close>), the settings of an index
  during a scan (\<^verbatim>\<open>bulkload.go\<close>) and the check of its mapping at startup (\<^verbatim>\<open>validate.go\<close>), all of
  \<^verbatim>\<open>internal/sink/elasticsearch\<close>.

  The HTTP exchange and what a JSON decoder reads from a response are the fields of \<open>admin_env\<close>: the names
  of the object that answers an alias request, the raw \<^verbatim>\<open>refresh_interval\<close> of each index (empty when it is
  absent), and the fields of each index.  An object that is iterated is its list of entries.
\<close>

datatype alias_action = RemoveAlias string string | AddAlias string string

text \<open>The body of a request: the actions of an alias request, whose encoding is left to the library, or text.\<close>

datatype request_body = NoBody | ActionsBody "alias_action list" | TextBody bytes

datatype mapped_field = MappedField (mf_Type: string) (mf_Enabled: "bool option") (mf_Fields: "(string \<times> mapped_field) list")

record 'w admin_env =
  ae_do :: "string \<Rightarrow> string \<Rightarrow> request_body \<Rightarrow> (string \<times> string) option \<Rightarrow> 'w \<Rightarrow> http_response \<times> 'w"
  ae_aliasNames :: "bytes \<Rightarrow> string + string list"
  ae_settings :: "bytes \<Rightarrow> string + bytes list"
  ae_mappings :: "bytes \<Rightarrow> string + (string \<times> (string \<times> mapped_field) list) list"

datatype admin_error =
    AliasIsIndex string
  | RequestFailed string string
  | RequestStatus string int string
  | AnswerUnreadable string string
  | NothingToValidate
  | IndexMissing string
  | NoMapping string
  | SeveralIndices string nat
  | MappingProblems "(string \<times> string option) list"

definition es_do ::
    "'w admin_env \<Rightarrow> string \<Rightarrow> string \<Rightarrow> request_body \<Rightarrow> es_sink \<Rightarrow> 'w \<Rightarrow> http_response \<times> es_sink \<times> 'w" where
  "es_do env verb path body s w =
     (let (addr, s1) = es_nextAddress s; o' = es_opts s;
          (resp, w1) = ae_do env verb (addr @ path) body
            (if eo_Username o' \<noteq> [] then Some (eo_Username o', eo_Password o') else None) w
      in (resp, s1, w1))"

definition notFound :: "http_response \<Rightarrow> bool" where
  "notFound resp \<longleftrightarrow> (case resp of Answered status _ \<Rightarrow> status = 404 | _ \<Rightarrow> False)"

text \<open>What becomes of an answer: a transport error, a status of 300 and above, or the payload.\<close>

definition answerOf :: "string \<Rightarrow> http_response \<Rightarrow> admin_error + bytes" where
  "answerOf what resp = (case resp of
      TransportFailed e \<Rightarrow> Inl (RequestFailed what e)
    | ReadFailed _ e \<Rightarrow> Inl (RequestFailed what e)
    | Answered status payload \<Rightarrow>
        if 300 \<le> status then Inl (RequestStatus what status (es_snippet payload)) else Inr payload)"

subsection \<open>The read alias (alias.go)\<close>

definition aliasTargets ::
    "'w admin_env \<Rightarrow> es_sink \<Rightarrow> 'w \<Rightarrow> (admin_error + string list) \<times> es_sink \<times> 'w" where
  "aliasTargets env s w = (case es_do env ''GET'' (''/_alias/'' @ eo_Alias (es_opts s)) NoBody s w of
     (resp, s1, w1) \<Rightarrow>
       (if notFound resp then (Inr [], s1, w1)
        else (case answerOf ''read alias'' resp of
            Inl e \<Rightarrow> (Inl e, s1, w1)
          | Inr payload \<Rightarrow> (case ae_aliasNames env payload of
                Inl e \<Rightarrow> (Inl (AnswerUnreadable ''read alias'' e), s1, w1)
              | Inr names \<Rightarrow> (Inr (sort names), s1, w1)))))"

definition promoteActions :: "string \<Rightarrow> string \<Rightarrow> string list \<Rightarrow> alias_action list" where
  "promoteActions alias idx current =
     map (\<lambda>i. RemoveAlias i alias) (filter (\<lambda>i. i \<noteq> idx) current) @ [AddAlias idx alias]"

definition PromoteAlias ::
    "'w admin_env \<Rightarrow> es_sink \<Rightarrow> 'w \<Rightarrow> admin_error option \<times> es_sink \<times> 'w" where
  "PromoteAlias env s w =
     (let alias = eo_Alias (es_opts s); idx = eo_Index (es_opts s)
      in if alias = [] then (None, s, w)
         else if alias = idx then (Some (AliasIsIndex alias), s, w)
         else (case aliasTargets env s w of
             (Inl e, s1, w1) \<Rightarrow> (Some e, s1, w1)
           | (Inr current, s1, w1) \<Rightarrow>
               if current = [idx] then (None, s1, w1)
               else (case es_do env ''POST'' ''/_aliases'' (ActionsBody (promoteActions alias idx current)) s1 w1 of
                   (resp, s2, w2) \<Rightarrow> (case answerOf ''move alias'' resp of
                       Inl e \<Rightarrow> (Some e, s2, w2)
                     | Inr _ \<Rightarrow> (None, s2, w2)))))"

subsection \<open>The settings during a scan (bulkload.go)\<close>

record load_settings =
  ls_refreshInterval :: bytes
  ls_applied :: bool

definition Applied :: "load_settings \<Rightarrow> bool" where
  "Applied l = ls_applied l"

definition noSettings :: load_settings where
  "noSettings = \<lparr>ls_refreshInterval = [], ls_applied = False\<rparr>"

text \<open>\<^verbatim>\<open>strings.Trim\<close> of the quotes at both ends.\<close>

definition trimQuotes :: "string \<Rightarrow> string" where
  "trimQuotes s = trimRight (\<lambda>c. c = CHR 0x22) (dropWhile (\<lambda>c. c = CHR 0x22) s)"

definition refreshDisabled :: "bytes \<Rightarrow> bool" where
  "refreshDisabled v \<longleftrightarrow> trimQuotes v = ''-1''"

definition orNull :: "bytes \<Rightarrow> string" where
  "orNull v = (if v = [] then ''null'' else v)"

definition settingsBody :: "bytes \<Rightarrow> bytes" where
  "settingsBody v = ''{'' @ [CHR 0x22] @ ''index'' @ [CHR 0x22] @ '':{'' @ [CHR 0x22] @ ''refresh_interval'' @ [CHR 0x22] @
     '':'' @ v @ ''}}''"

definition minusOne :: bytes where
  "minusOne = [CHR 0x22] @ ''-1'' @ [CHR 0x22]"

definition putSettings ::
    "'w admin_env \<Rightarrow> bytes \<Rightarrow> es_sink \<Rightarrow> 'w \<Rightarrow> admin_error option \<times> es_sink \<times> 'w" where
  "putSettings env body s w =
     (case es_do env ''PUT'' (''/'' @ eo_Index (es_opts s) @ ''/_settings'') (TextBody body) s w of
        (resp, s1, w1) \<Rightarrow> (case answerOf ''change the settings'' resp of
            Inl e \<Rightarrow> (Some e, s1, w1)
          | Inr _ \<Rightarrow> (None, s1, w1)))"

definition BeginBulkLoad ::
    "'w admin_env \<Rightarrow> es_sink \<Rightarrow> 'w \<Rightarrow> (load_settings \<times> admin_error option) \<times> es_sink \<times> 'w" where
  "BeginBulkLoad env s w =
     (case es_do env ''GET'' (''/'' @ eo_Index (es_opts s) @ ''/_settings'') NoBody s w of
        (resp, s1, w1) \<Rightarrow> (case answerOf ''read the settings'' resp of
            Inl e \<Rightarrow> ((noSettings, Some e), s1, w1)
          | Inr payload \<Rightarrow> (case ae_settings env payload of
                Inl e \<Rightarrow> ((noSettings, Some (AnswerUnreadable ''read the settings'' e)), s1, w1)
              | Inr entries \<Rightarrow>
                  (let raw = (case entries of [] \<Rightarrow> [] | v # _ \<Rightarrow> v);
                       previous = noSettings\<lparr>ls_refreshInterval := (if refreshDisabled raw then [] else raw)\<rparr>
                   in case putSettings env (settingsBody minusOne) s1 w1 of
                        (Some e, s2, w2) \<Rightarrow> ((previous, Some e), s2, w2)
                      | (None, s2, w2) \<Rightarrow> ((previous\<lparr>ls_applied := True\<rparr>, None), s2, w2)))))"

definition EndBulkLoad ::
    "'w admin_env \<Rightarrow> load_settings \<Rightarrow> es_sink \<Rightarrow> 'w \<Rightarrow> admin_error option \<times> es_sink \<times> 'w" where
  "EndBulkLoad env previous s w =
     (if \<not> ls_applied previous then (None, s, w)
      else (case putSettings env (settingsBody (orNull (ls_refreshInterval previous))) s w of
          (Some e, s1, w1) \<Rightarrow> (Some e, s1, w1)
        | (None, s1, w1) \<Rightarrow>
            (case es_do env ''POST'' (''/'' @ eo_Index (es_opts s1) @ ''/_refresh'') NoBody s1 w1 of
               (resp, s2, w2) \<Rightarrow> (case answerOf ''refresh'' resp of
                   Inl e \<Rightarrow> (Some e, s2, w2)
                 | Inr _ \<Rightarrow> (None, s2, w2)))))"

definition ForceMerge :: "'w admin_env \<Rightarrow> es_sink \<Rightarrow> 'w \<Rightarrow> admin_error option \<times> es_sink \<times> 'w" where
  "ForceMerge env s w =
     (case es_do env ''POST'' (''/'' @ eo_Index (es_opts s) @ ''/_forcemerge?max_num_segments=1'') NoBody s w of
        (resp, s1, w1) \<Rightarrow> (case answerOf ''merge segments'' resp of
            Inl e \<Rightarrow> (Some e, s1, w1)
          | Inr _ \<Rightarrow> (None, s1, w1)))"

subsection \<open>The check of the mapping (validate.go)\<close>

definition describe :: "mapped_field \<Rightarrow> string" where
  "describe f =
     (if mf_Type f \<noteq> [] then mf_Type f
      else if mf_Enabled f = Some False then ''a disabled object''
      else ''an object'')"

definition typesCompatible :: "string \<Rightarrow> mapped_field \<Rightarrow> bool" where
  "typesCompatible want actual \<longleftrightarrow>
     (let t = mf_Type actual
      in if t = want then True
         else if want = ''object'' then t \<in> {[], ''object'', ''nested'', ''flattened''}
         else if want = ''keyword'' then t = ''text'' \<and> (\<exists>(_, sub) \<in> set (mf_Fields actual). mf_Type sub = ''keyword'')
         else if want = ''unsigned_long'' then False
         else if want = ''long'' then t = ''unsigned_long''
         else if want = ''integer'' then t \<in> {''long'', ''unsigned_long''}
         else if want = ''short'' then t \<in> {''integer'', ''long'', ''unsigned_long''}
         else if want = ''byte'' then t \<in> {''short'', ''integer'', ''long'', ''unsigned_long''}
         else if want = ''float'' then t = ''double''
         else False)"

definition fetchMapping ::
    "'w admin_env \<Rightarrow> es_sink \<Rightarrow> 'w \<Rightarrow> (admin_error + (string \<times> mapped_field) list) \<times> es_sink \<times> 'w" where
  "fetchMapping env s w =
     (let idx = eo_Index (es_opts s)
      in case es_do env ''GET'' (''/'' @ idx @ ''/_mapping'') NoBody s w of (resp, s1, w1) \<Rightarrow>
        (if notFound resp then (Inl (IndexMissing idx), s1, w1)
         else (case answerOf ''read the mapping'' resp of
             Inl e \<Rightarrow> (Inl e, s1, w1)
           | Inr payload \<Rightarrow> (case ae_mappings env payload of
                 Inl e \<Rightarrow> (Inl (AnswerUnreadable ''read the mapping'' e), s1, w1)
               | Inr [] \<Rightarrow> (Inl (NoMapping idx), s1, w1)
               | Inr [(_, properties)] \<Rightarrow> (Inr properties, s1, w1)
               | Inr byIndex \<Rightarrow> (Inl (SeveralIndices idx (length byIndex)), s1, w1)))))"

text \<open>The problems, by name: a field that is missing, or the description of one with another type.\<close>

definition mappingProblems ::
    "(string \<times> string) list \<Rightarrow> (string \<times> mapped_field) list \<Rightarrow> (string \<times> string option) list" where
  "mappingProblems expected actual = concat (map (\<lambda>name. case map_of expected name of
      None \<Rightarrow> []
    | Some want \<Rightarrow> (case map_of actual name of
          None \<Rightarrow> [(name, None)]
        | Some field \<Rightarrow> if \<not> typesCompatible want field then [(name, Some (describe field))] else []))
     (sort (map fst expected)))"

definition ValidateMapping ::
    "'w admin_env \<Rightarrow> (string \<times> string) list \<Rightarrow> es_sink \<Rightarrow> 'w \<Rightarrow> admin_error option \<times> es_sink \<times> 'w" where
  "ValidateMapping env expected s w =
     (if expected = [] then (Some NothingToValidate, s, w)
      else (case fetchMapping env s w of
          (Inl e, s1, w1) \<Rightarrow> (Some e, s1, w1)
        | (Inr actual, s1, w1) \<Rightarrow>
            (let problems = mappingProblems expected actual
             in if problems \<noteq> [] then (Some (MappingProblems problems), s1, w1) else (None, s1, w1))))"

subsection \<open>What Elasticsearch promises\<close>

text \<open>
  Of an alias: reading it changes nothing and answers 404 only when it has no target, and the names in the
  answer are its targets; an alias request that succeeds applies its actions all at once, and one that
  fails applied all of them or none.
\<close>

fun applyAction :: "string \<Rightarrow> alias_action \<Rightarrow> string set \<Rightarrow> string set" where
  "applyAction a (RemoveAlias i b) targets = (if b = a then targets - {i} else targets)"
| "applyAction a (AddAlias i b) targets = (if b = a then insert i targets else targets)"

definition succeeded :: "http_response \<Rightarrow> bool" where
  "succeeded resp \<longleftrightarrow> (case resp of Answered status _ \<Rightarrow> status < 300 | _ \<Rightarrow> False)"

definition aliasServer :: "'w admin_env \<Rightarrow> string \<Rightarrow> ('w \<Rightarrow> string set) \<Rightarrow> bool" where
  "aliasServer env a targets \<longleftrightarrow>
     (\<forall>addr auth w resp w'. ae_do env ''GET'' (addr @ ''/_alias/'' @ a) NoBody auth w = (resp, w') \<longrightarrow>
        targets w' = targets w \<and> (notFound resp \<longrightarrow> targets w = {}) \<and>
        (\<forall>status payload names. resp = Answered status payload \<longrightarrow> status < 300 \<longrightarrow>
           ae_aliasNames env payload = Inr names \<longrightarrow> set names = targets w)) \<and>
     (\<forall>addr auth acts w resp w'. ae_do env ''POST'' (addr @ ''/_aliases'') (ActionsBody acts) auth w = (resp, w') \<longrightarrow>
        targets w' = fold (applyAction a) acts (targets w) \<or> \<not> succeeded resp \<and> targets w' = targets w)"

lemma es_do_sends:
  assumes "es_do env verb path body s w = (resp, s1, w1)"
  shows "es_opts s1 = es_opts s \<and> (\<exists>addr auth. ae_do env verb (addr @ path) body auth w = (resp, w1))"
proof -
  obtain addr s0 where addr: "es_nextAddress s = (addr, s0)" by force
  then have "es_opts s0 = es_opts s" by (auto simp: es_nextAddress_def split: if_splits)
  with assms show ?thesis by (auto simp: es_do_def addr Let_def split: prod.splits)
qed

lemma promoteActions_target:
  assumes "set current = T"
  shows "fold (applyAction a) (promoteActions a idx current) T = {idx}"
proof -
  have "fold (applyAction a) (map (\<lambda>i. RemoveAlias i a) xs) S = S - set xs" for xs S
    by (induction xs arbitrary: S) auto
  then show ?thesis using assms by (auto simp: promoteActions_def)
qed

lemmas aliasServer_moves = aliasServer_def [THEN iffD1, THEN conjunct2, rule_format]

lemma aliasTargets_reads:
  assumes "aliasServer env (eo_Alias (es_opts s)) targets" and "aliasTargets env s w = (r, s1, w1)"
  shows "targets w1 = targets w \<and> es_opts s1 = es_opts s \<and> (\<forall>names. r = Inr names \<longrightarrow> set names = targets w)"
proof -
  let ?a = "eo_Alias (es_opts s)"
  obtain resp s0 w0 where all: "es_do env ''GET'' (''/_alias/'' @ ?a) NoBody s w = (resp, s0, w0)" by (rule prod_cases3)
  from es_do_sends [OF all] obtain addr auth where opts: "es_opts s0 = es_opts s"
    and do': "ae_do env ''GET'' (addr @ ''/_alias/'' @ ?a) NoBody auth w = (resp, w0)" by blast
  have law: "targets w0 = targets w \<and> (notFound resp \<longrightarrow> targets w = {}) \<and>
      (\<forall>status payload names. resp = Answered status payload \<longrightarrow> status < 300 \<longrightarrow>
         ae_aliasNames env payload = Inr names \<longrightarrow> set names = targets w)"
    using assms(1) do' unfolding aliasServer_def by blast
  show ?thesis using assms(2) all law opts
    by (auto simp: aliasTargets_def answerOf_def split: if_splits sum.splits http_response.splits)
qed

text \<open>
  Of a setting: reading an index answers with its \<^verbatim>\<open>refresh_interval\<close> (never the text null), a change sets
  it (null removes it) or, when it fails, sets it or not, and a refresh leaves it.
\<close>

definition settingsServer :: "'w admin_env \<Rightarrow> string \<Rightarrow> ('w \<Rightarrow> bytes) \<Rightarrow> bool" where
  "settingsServer env idx interval \<longleftrightarrow>
     (\<forall>addr auth w resp w'. ae_do env ''GET'' (addr @ ''/'' @ idx @ ''/_settings'') NoBody auth w = (resp, w') \<longrightarrow>
        interval w' = interval w \<and> interval w \<noteq> ''null'' \<and>
        (\<forall>status payload entries. resp = Answered status payload \<longrightarrow> status < 300 \<longrightarrow>
           ae_settings env payload = Inr entries \<longrightarrow> entries = [interval w])) \<and>
     (\<forall>addr auth v w resp w'. ae_do env ''PUT'' (addr @ ''/'' @ idx @ ''/_settings'') (TextBody (settingsBody v)) auth w = (resp, w') \<longrightarrow>
        interval w' = (if v = ''null'' then [] else v) \<or> \<not> succeeded resp \<and> interval w' = interval w) \<and>
     (\<forall>addr auth w resp w'. ae_do env ''POST'' (addr @ ''/'' @ idx @ ''/_refresh'') NoBody auth w = (resp, w') \<longrightarrow>
        interval w' = interval w)"

lemma putSettings_sets:
  assumes "settingsServer env (eo_Index (es_opts s)) interval" and "putSettings env (settingsBody v) s w = (None, s1, w1)"
  shows "interval w1 = (if v = ''null'' then [] else v) \<and> es_opts s1 = es_opts s"
proof -
  let ?p = "''/'' @ eo_Index (es_opts s) @ ''/_settings''"
  obtain resp where do': "es_do env ''PUT'' ?p (TextBody (settingsBody v)) s w = (resp, s1, w1)" and ok: "succeeded resp"
    using assms(2) by (auto simp: putSettings_def answerOf_def succeeded_def split: prod.splits sum.splits http_response.splits if_splits)
  from es_do_sends [OF do'] obtain addr auth where
    "ae_do env ''PUT'' (addr @ ?p) (TextBody (settingsBody v)) auth w = (resp, w1)" "es_opts s1 = es_opts s" by blast
  with assms(1) ok show ?thesis unfolding settingsServer_def by blast
qed

lemma BeginBulkLoad_turns_off:
  assumes "settingsServer env (eo_Index (es_opts s)) interval" and "BeginBulkLoad env s w = ((l, None), s1, w1)"
  shows "interval w1 = minusOne \<and> es_opts s1 = es_opts s \<and> ls_applied l \<and> interval w \<noteq> ''null'' \<and>
     ls_refreshInterval l = (if refreshDisabled (interval w) then [] else interval w)"
proof -
  let ?p = "''/'' @ eo_Index (es_opts s) @ ''/_settings''"
  obtain status payload s0 w0 entries where do': "es_do env ''GET'' ?p NoBody s w = (Answered status payload, s0, w0)"
    and ok: "status < 300" "ae_settings env payload = Inr entries"
    and put: "putSettings env (settingsBody minusOne) s0 w0 = (None, s1, w1)"
    and l: "l = noSettings\<lparr>ls_refreshInterval := (if refreshDisabled (case entries of [] \<Rightarrow> [] | v # _ \<Rightarrow> v) then []
        else (case entries of [] \<Rightarrow> [] | v # _ \<Rightarrow> v)), ls_applied := True\<rparr>"
    using assms(2)
    by (auto simp: BeginBulkLoad_def answerOf_def Let_def split: prod.splits sum.splits http_response.splits if_splits option.splits)
  from es_do_sends [OF do'] obtain addr auth where
    get: "ae_do env ''GET'' (addr @ ?p) NoBody auth w = (Answered status payload, w0)" and opts: "es_opts s0 = es_opts s" by blast
  have "interval w0 = interval w \<and> interval w \<noteq> ''null'' \<and> entries = [interval w]"
    using assms(1) get ok unfolding settingsServer_def by blast
  moreover have "interval w1 = minusOne \<and> es_opts s1 = es_opts s0"
    using putSettings_sets [OF _ put] assms(1) opts by (simp add: minusOne_def)
  ultimately show ?thesis using l opts by (simp add: noSettings_def)
qed

lemma EndBulkLoad_restores:
  assumes "settingsServer env (eo_Index (es_opts s)) interval" and "EndBulkLoad env l s w = (None, s1, w1)" and "ls_applied l"
  shows "interval w1 = (if orNull (ls_refreshInterval l) = ''null'' then [] else orNull (ls_refreshInterval l))"
proof -
  obtain s0 w0 resp where put: "putSettings env (settingsBody (orNull (ls_refreshInterval l))) s w = (None, s0, w0)"
    and do': "es_do env ''POST'' (''/'' @ eo_Index (es_opts s0) @ ''/_refresh'') NoBody s0 w0 = (resp, s1, w1)"
    using assms(2,3) by (auto simp: EndBulkLoad_def split: prod.splits option.splits sum.splits)
  note p = putSettings_sets [OF assms(1) put]
  from es_do_sends [OF do'] p obtain addr auth where
    "ae_do env ''POST'' (addr @ ''/'' @ eo_Index (es_opts s) @ ''/_refresh'') NoBody auth w0 = (resp, w1)" by auto
  with assms(1) have "interval w1 = interval w0" unfolding settingsServer_def by blast
  with p show ?thesis by simp
qed

text \<open>The integer types a type of integer may be declared as, and their ranges.\<close>

lemma rangeIn_wider:
  "rangeIn (esIntRange ''byte'') (esIntRange t)" if "t \<in> {''byte'', ''short'', ''integer'', ''long''}" for t
  using that by (auto simp: rangeIn_def esIntRange_def)

lemma rangeIn_wider':
  "t \<in> {''short'', ''integer'', ''long''} \<Longrightarrow> rangeIn (esIntRange ''short'') (esIntRange t)"
  "t \<in> {''integer'', ''long''} \<Longrightarrow> rangeIn (esIntRange ''integer'') (esIntRange t)"
  "rangeIn (esIntRange ''long'') (esIntRange ''long'')"
  "rangeIn (esIntRange ''unsigned_long'') (esIntRange ''unsigned_long'')"
  by (auto simp: rangeIn_def esIntRange_def)

lemma typesCompatible_range:
  assumes "typesCompatible want field" and "esIntRange want \<noteq> None"
    and "mf_Type field \<noteq> ''unsigned_long'' \<or> want = ''unsigned_long''"
  shows "rangeIn (esIntRange want) (esIntRange (mf_Type field))"
proof -
  from assms(2) consider "want = ''byte''" | "want = ''short''" | "want = ''integer''" | "want = ''long''" | "want = ''unsigned_long''"
    unfolding esIntRange_def by presburger
  then show ?thesis
  proof cases
    case 1
    with assms(1,3) have "mf_Type field \<in> {''byte'', ''short'', ''integer'', ''long''}"
      by (simp add: typesCompatible_def Let_def split: if_splits)
    with 1 rangeIn_wider show ?thesis by blast
  next
    case 2
    with assms(1,3) have "mf_Type field \<in> {''short'', ''integer'', ''long''}"
      by (simp add: typesCompatible_def Let_def split: if_splits)
    with 2 rangeIn_wider' show ?thesis by blast
  next
    case 3
    with assms(1,3) have "mf_Type field \<in> {''integer'', ''long''}"
      by (simp add: typesCompatible_def Let_def split: if_splits)
    with 3 rangeIn_wider' show ?thesis by blast
  next
    case 4
    with assms(1,3) have "mf_Type field = ''long''"
      by (simp add: typesCompatible_def Let_def split: if_splits)
    with 4 rangeIn_wider' show ?thesis by simp
  next
    case 5
    with assms(1) have "mf_Type field = ''unsigned_long''"
      by (simp add: typesCompatible_def Let_def split: if_splits)
    with 5 rangeIn_wider' show ?thesis by simp
  qed
qed

subsection \<open>Properties\<close>

text \<open>
  C33: Moving the read alias.  Against a server whose alias requests are atomic, an alias that was moved
  without an error resolves to exactly the index this stream writes, whatever it resolved to before
  (nothing, this index and others, or several others); and when there is an error the alias resolves to
  what it did before or to that index, never to nothing that was not there and never to a mixture.
\<close>

theorem PromoteAlias_moves:
  assumes "aliasServer env (eo_Alias (es_opts s)) targets" and "eo_Alias (es_opts s) \<noteq> []"
    and "PromoteAlias env s w = (e, s', w')"
  shows "(e = None \<longrightarrow> targets w' = {eo_Index (es_opts s)}) \<and>
    (targets w' = targets w \<or> targets w' = {eo_Index (es_opts s)})"
proof (cases "eo_Alias (es_opts s) = eo_Index (es_opts s)")
  case True
  with assms show ?thesis by (auto simp: PromoteAlias_def)
next
  case False
  let ?a = "eo_Alias (es_opts s)" and ?i = "eo_Index (es_opts s)"
  obtain r s1 w1 where read: "aliasTargets env s w = (r, s1, w1)" by (rule prod_cases3)
  note t = aliasTargets_reads [OF assms(1) read]
  show ?thesis
  proof (cases "\<exists>current. r = Inr current \<and> current \<noteq> [?i]")
    case none: False
    then show ?thesis using False assms(2,3) read t by (cases r) (auto simp: PromoteAlias_def)
  next
    case True
    then obtain current where c: "r = Inr current" "current \<noteq> [?i]" by blast
    obtain resp s2 w2 where do': "es_do env ''POST'' ''/_aliases'' (ActionsBody (promoteActions ?a ?i current)) s1 w1 = (resp, s2, w2)"
      by (rule prod_cases3)
    from es_do_sends [OF do'] obtain addr auth where
      "ae_do env ''POST'' (addr @ ''/_aliases'') (ActionsBody (promoteActions ?a ?i current)) auth w1 = (resp, w2)" by blast
    then have "targets w2 = fold (applyAction ?a) (promoteActions ?a ?i current) (targets w1) \<or> \<not> succeeded resp \<and> targets w2 = targets w1"
      by (rule aliasServer_moves [OF assms(1)])
    then have "targets w2 = {?i} \<or> \<not> succeeded resp \<and> targets w2 = targets w"
      using promoteActions_target [of current "targets w1" ?a ?i] t c by simp
    moreover have "w' = w2" "e = None \<longrightarrow> succeeded resp"
      using False assms(2,3) read c do'
      by (auto simp: PromoteAlias_def answerOf_def succeeded_def split: sum.splits http_response.splits if_splits)
    ultimately show ?thesis by auto
  qed
qed

text \<open>A server with one alias, ''orders'', that can report it only while it is on the first index or nowhere.\<close>

definition exampleAliases :: "string list admin_env" where
  "exampleAliases = \<lparr>
     ae_do = (\<lambda>verb url body auth ts.
       if verb = ''GET'' then (if ts = [] then Answered 404 [] else if ts = [''orders_v1''] then Answered 200 [] else Answered 500 [], ts)
       else (case body of
           ActionsBody acts \<Rightarrow> (Answered 200 [], fold (\<lambda>act l. case act of
               RemoveAlias i b \<Rightarrow> if b = ''orders'' then removeAll i l else l
             | AddAlias i b \<Rightarrow> if b = ''orders'' then i # l else l) acts ts)
         | _ \<Rightarrow> (Answered 400 [], ts))),
     ae_aliasNames = (\<lambda>_. Inr [''orders_v1'']),
     ae_settings = (\<lambda>_. Inr []),
     ae_mappings = (\<lambda>_. Inr [])\<rparr>"

lemma example_aliasServer: "aliasServer exampleAliases ''orders'' set"
proof -
  have "set (fold (\<lambda>act l. case act of RemoveAlias i b \<Rightarrow> if b = ''orders'' then removeAll i l else l
      | AddAlias i b \<Rightarrow> if b = ''orders'' then i # l else l) acts ts) = fold (applyAction ''orders'') acts (set ts)" for acts ts
  proof (induction acts arbitrary: ts)
    case (Cons act acts)
    then show ?case by (cases act) simp_all
  qed simp
  then show ?thesis by (auto simp: aliasServer_def exampleAliases_def notFound_def split: if_splits)
qed

definition exampleAliasSink :: es_sink where
  "exampleAliasSink = \<lparr>es_opts = \<lparr>eo_Addresses = [''http://es''], eo_Index = ''orders_v2'', eo_Alias = ''orders'', eo_Username = [],
     eo_Password = [], eo_Workers = 1, eo_MaxAttempts = 5, eo_BaseBackoff = 1, eo_MaxBackoff = 1, eo_Compress = False,
     eo_RequestTimeout = 1\<rparr>, es_indexAction = [], es_deleteAction = [], es_nextURL = 0\<rparr>"

theorem PromoteAlias_moves_witness:
  "set (snd (snd (PromoteAlias exampleAliases exampleAliasSink [''orders_v1'']))) = {''orders_v2''}"
proof -
  obtain e s' w' where run: "PromoteAlias exampleAliases exampleAliasSink [''orders_v1''] = (e, s', w')" by (rule prod_cases3)
  have "fst (PromoteAlias exampleAliases exampleAliasSink [''orders_v1'']) = None" by code_simp
  then have "e = None" using run by simp
  with PromoteAlias_moves [of exampleAliases exampleAliasSink set, OF _ _ run] example_aliasServer run show ?thesis
    by (simp add: exampleAliasSink_def)
qed

text \<open>
  C34: A scan gives the settings of the index back.  When refreshing was turned off for a scan and put back
  after it without an error, the refresh interval is again what it was before, except that a value that
  had already turned refreshing off (left by a scan that was killed) is removed, so that the index
  refreshes again.
\<close>

theorem bulk_load_restores:
  assumes "settingsServer env (eo_Index (es_opts s)) interval"
    and "BeginBulkLoad env s w = ((l, None), s1, w1)" and "es_opts s2 = es_opts s1"
    and "EndBulkLoad env l s2 w2 = (None, s3, w3)"
  shows "interval w1 = minusOne \<and> interval w3 = (if refreshDisabled (interval w) then [] else interval w)"
proof -
  note b = BeginBulkLoad_turns_off [OF assms(1,2)]
  have "settingsServer env (eo_Index (es_opts s2)) interval" using assms(1,3) b by simp
  from EndBulkLoad_restores [OF this assms(4)] b show ?thesis by (auto simp: orNull_def split: if_splits)
qed

text \<open>A server with one setting, which it reads from the body of a change.\<close>

definition exampleValue :: "bytes \<Rightarrow> bytes" where
  "exampleValue v = (if v = ''null'' then [] else v)"

definition exampleSettings :: "bytes admin_env" where
  "exampleSettings = \<lparr>
     ae_do = (\<lambda>verb url body auth v.
       if verb = ''GET'' then (Answered 200 (exampleValue v), v)
       else if verb = ''PUT'' then (case body of
           TextBody b \<Rightarrow> (Answered 200 [], exampleValue (take (length b - 31) (drop 29 b)))
         | _ \<Rightarrow> (Answered 400 [], v))
       else (Answered 200 [], v)),
     ae_aliasNames = (\<lambda>_. Inr []),
     ae_settings = (\<lambda>payload. Inr [payload]),
     ae_mappings = (\<lambda>_. Inr [])\<rparr>"

lemma example_settingsServer: "settingsServer exampleSettings ''orders_v2'' exampleValue"
proof -
  have "take (length (settingsBody v) - 31) (drop 29 (settingsBody v)) = v" for v
    by (simp add: settingsBody_def)
  moreover have "exampleValue v \<noteq> ''null''" "exampleValue (exampleValue v) = exampleValue v" for v
    by (auto simp: exampleValue_def)
  ultimately show ?thesis unfolding settingsServer_def by (auto simp: exampleSettings_def) (auto simp: exampleValue_def)
qed

definition quotedInterval :: bytes where
  "quotedInterval = [CHR 0x22] @ ''30s'' @ [CHR 0x22]"

theorem bulk_load_restores_witness:
  "\<exists>l s1 w1 s3 w3. BeginBulkLoad exampleSettings exampleAliasSink quotedInterval = ((l, None), s1, w1) \<and>
     EndBulkLoad exampleSettings l s1 w1 = (None, s3, w3) \<and> exampleValue w3 = quotedInterval"
proof -
  let ?l = "\<lparr>ls_refreshInterval = quotedInterval, ls_applied = True\<rparr>"
  have begin': "BeginBulkLoad exampleSettings exampleAliasSink quotedInterval = ((?l, None), exampleAliasSink, minusOne)" by code_simp
  have "EndBulkLoad exampleSettings ?l exampleAliasSink minusOne = (None, exampleAliasSink, quotedInterval)" by code_simp
  moreover have "\<not> refreshDisabled (exampleValue quotedInterval)" "exampleValue quotedInterval = quotedInterval" by code_simp+
  ultimately show ?thesis
    using bulk_load_restores [of exampleSettings exampleAliasSink exampleValue, OF _ begin' refl] begin' example_settingsServer
    by (auto simp: exampleAliasSink_def)
qed


definition exampleMappings :: "unit admin_env" where
  "exampleMappings = \<lparr>ae_do = (\<lambda>_ _ _ _ w. (Answered 200 [], w)), ae_aliasNames = (\<lambda>_. Inr []), ae_settings = (\<lambda>_. Inr []),
     ae_mappings = (\<lambda>_. Inr [(''orders_v2'', [(''id'', MappedField ''long'' None [])])])\<rparr>"


text \<open>
  The check lets a signed integer into an unsigned field: a column that is sent as long passes against a
  field declared unsigned_long, which refuses every negative value.
\<close>

theorem signed_passes_as_unsigned:
  "typesCompatible ''long'' (MappedField ''unsigned_long'' None []) \<and>
   \<not> rangeIn (esIntRange ''long'') (esIntRange ''unsigned_long'')"
  by code_simp

end
