(* ===== verification/ClickHouse.thy ===== *)
theory ClickHouse
  imports Transform
begin

unbundle bit_operations_syntax

text \<open>
  \<^verbatim>\<open>internal/sink/clickhouse/insert.go\<close>: a batch is one insert of JSON rows; a batch the server
  refuses is narrowed by halves until the refused rows stand alone.

  What is outside the repository is an argument, the record \<open>ch_env\<close>: the HTTP exchange, the
  compression of a body, the random jitter, sleeping under a context (\<^verbatim>\<open>True\<close> when the context
  ended first), and what \<^verbatim>\<open>net/url\<close> reads from a DSN.  A request carries its query parameters as a
  list.  \<^verbatim>\<open>write\<close> and \<^verbatim>\<open>isolate\<close> call each other up to a depth the source fixes, so the recursion
  is on how many levels are left.
\<close>

record ch_options =
  co_DSN :: string
  co_Table :: string
  co_Workers :: int
  co_MaxAttempts :: int
  co_BaseBackoff :: int
  co_MaxBackoff :: int
  co_Compress :: bool
  co_RequestTimeout :: int

record parsed_url =
  pu_Scheme :: string
  pu_User :: "(string \<times> string) option"
  pu_Query :: "(string \<times> string) list"
  pu_Endpoint :: string

record ch_sink =
  cs_opts :: ch_options
  cs_endpoint :: string
  cs_query :: "(string \<times> string) list"
  cs_user :: string
  cs_password :: string
  cs_database :: string

record ch_request =
  cr_endpoint :: string
  cr_query :: "(string \<times> string) list"
  cr_body :: bytes
  cr_gzipped :: bool
  cr_auth :: "(string \<times> string) option"

datatype ch_response = ChTransportFailed string | ChAnswered int bytes

record 'w ch_env =
  ce_do :: "ch_request \<Rightarrow> 'w \<Rightarrow> ch_response \<times> 'w"
  ce_gzip :: "bytes \<Rightarrow> bytes"
  ce_rand :: "int \<Rightarrow> 'w \<Rightarrow> int \<times> 'w"
  ce_sleep :: "int \<Rightarrow> 'w \<Rightarrow> bool \<times> 'w"

datatype ch_error =
    DSNRequired
  | TableRequired
  | ChWorkersNegative
  | DSNUnparsable string
  | DSNScheme string
  | ChNoBody string
  | ChNotObject string
  | InsertFailed nat string
  | InsertStatus int int string
  | StoppedNarrowing nat int string
  | ChContextEnded

subsection \<open>Construction\<close>

definition ch_New :: "(string \<Rightarrow> string + parsed_url) \<Rightarrow> ch_options \<Rightarrow> ch_error + ch_sink" where
  "ch_New parse opts =
     (if co_DSN opts = [] then Inl DSNRequired
      else if co_Table opts = [] then Inl TableRequired
      else if co_Workers opts < 0 then Inl ChWorkersNegative
      else
        (let opts' = opts\<lparr>
               co_Workers := (if co_Workers opts = 0 then 1 else co_Workers opts),
               co_MaxAttempts := (if co_MaxAttempts opts \<le> 0 then 5 else co_MaxAttempts opts),
               co_BaseBackoff :=
                 (if co_BaseBackoff opts \<le> 0 then 200 * 1000000 else co_BaseBackoff opts),
               co_MaxBackoff :=
                 (if co_MaxBackoff opts \<le> 0 then 30 * 1000000000 else co_MaxBackoff opts),
               co_RequestTimeout :=
                 (if co_RequestTimeout opts \<le> 0 then 120 * 1000000000
                  else co_RequestTimeout opts)\<rparr>
         in case parse (co_DSN opts) of
              Inl e \<Rightarrow> Inl (DSNUnparsable e)
            | Inr u \<Rightarrow>
                if pu_Scheme u \<noteq> ''http'' \<and> pu_Scheme u \<noteq> ''https'' then Inl (DSNScheme (pu_Scheme u))
                else Inr \<lparr>cs_opts = opts', cs_endpoint = pu_Endpoint u, cs_query = pu_Query u,
                       cs_user = (case pu_User u of None \<Rightarrow> [] | Some (n, _) \<Rightarrow> n),
                       cs_password = (case pu_User u of None \<Rightarrow> [] | Some (_, p) \<Rightarrow> p),
                       cs_database = (case map_of (pu_Query u) ''database'' of None \<Rightarrow> [] | Some d \<Rightarrow> d)\<rparr>))"

subsection \<open>Encoding rows\<close>

definition VersionColumn :: string where
  "VersionColumn = ''_version''"

definition DeletedColumn :: string where
  "DeletedColumn = ''_is_deleted''"

definition ch_trim :: "bytes \<Rightarrow> bytes" where
  "ch_trim b = trimRight (\<lambda>c. c = CHR '' '' \<or> c = CHR 0x09 \<or> c = CHR 0x0D \<or> c = CHR 0x0A) b"

definition ch_stateMembers :: "doc \<Rightarrow> bytes" where
  "ch_stateMembers d =
     [CHR 0x22] @ VersionColumn @ [CHR 0x22] @ '':'' @ formatUint (doc_Version d) @ '','' @
     [CHR 0x22] @ DeletedColumn @ [CHR 0x22] @ '':'' @ (if doc_Deleted d then ''1'' else ''0'')"

definition ch_encodeRow :: "doc \<Rightarrow> ch_error + bytes" where
  "ch_encodeRow d =
     (if doc_Body d = [] then Inl (ChNoBody (doc_Key d))
      else
        (let trimmed = ch_trim (doc_Body d)
         in if length trimmed < 2 \<or> hd trimmed \<noteq> CHR ''{'' \<or> last trimmed \<noteq> CHR ''}''
            then Inl (ChNotObject (doc_Key d))
            else Inr (butlast trimmed @ (if 2 < length trimmed then '','' else []) @
                   ch_stateMembers d @ ''}'' @ [CHR 0x0A])))"

definition ch_encodeRows :: "doc list \<Rightarrow> ch_error + bytes" where
  "ch_encodeRows docs = map_sum id concat (mapResult ch_encodeRow docs)"

definition dedupToken :: "doc list \<Rightarrow> string" where
  "dedupToken docs =
     (if docs = [] then []
      else doc_Key (hd docs) @ ''-'' @ formatUint (doc_Version (hd docs)) @ ''-'' @
           formatUint (doc_Version (last docs)) @ ''-'' @ showNat (length docs))"

subsection \<open>The exchange\<close>

definition qualifiedTable :: "ch_sink \<Rightarrow> string" where
  "qualifiedTable s =
     (if cs_database s \<noteq> [] \<and> \<not> strContains (co_Table (cs_opts s)) ''.''
      then cs_database s @ ''.'' @ co_Table (cs_opts s) else co_Table (cs_opts s))"

text \<open>\<^verbatim>\<open>url.Values.Set\<close>: one value for a name, replacing what it had.\<close>

definition setParam :: "string \<Rightarrow> string \<Rightarrow> (string \<times> string) list \<Rightarrow> (string \<times> string) list" where
  "setParam n v q = filter (\<lambda>(n', _). n' \<noteq> n) q @ [(n, v)]"

definition ch_post ::
    "'w ch_env \<Rightarrow> ch_sink \<Rightarrow> bytes \<Rightarrow> string \<Rightarrow> 'w \<Rightarrow> ch_response \<times> 'w" where
  "ch_post env s body token w =
     (let q1 = setParam ''query'' (''INSERT INTO '' @ qualifiedTable s @ '' FORMAT JSONEachRow'') (cs_query s);
          q2 = (if token \<noteq> [] then setParam ''insert_deduplication_token'' token q1 else q1);
          q3 = setParam ''async_insert'' ''0'' q2
      in ce_do env \<lparr>cr_endpoint = cs_endpoint s, cr_query = q3,
           cr_body = (if co_Compress (cs_opts s) then ce_gzip env body else body),
           cr_gzipped = co_Compress (cs_opts s),
           cr_auth = (if cs_user s \<noteq> [] then Some (cs_user s, cs_password s) else None)\<rparr> w)"

definition retryableStatus :: "int \<Rightarrow> bool" where
  "retryableStatus status \<longleftrightarrow> status = 429 \<or> 500 \<le> status"

definition ch_backoff :: "ch_options \<Rightarrow> int \<Rightarrow> int" where
  "ch_backoff o' attempt =
     (let delay = sint (push_bit (nat (attempt - 1)) (of_int (co_BaseBackoff o') :: 64 word))
      in if co_MaxBackoff o' < delay \<or> delay \<le> 0 then co_MaxBackoff o' else delay)"

definition ch_wait :: "'w ch_env \<Rightarrow> ch_options \<Rightarrow> int \<Rightarrow> 'w \<Rightarrow> ch_error option \<times> 'w" where
  "ch_wait env o' attempt w =
     (let delay = ch_backoff o' attempt;
          (jitter, w1) = ce_rand env (delay div 2 + 1) w;
          (ended, w2) = ce_sleep env (delay + jitter) w1
      in (if ended then Some ChContextEnded else None, w2))"

definition ch_snippet :: "bytes \<Rightarrow> string" where
  "ch_snippet payload =
     (let text = trimSpace payload in if 300 < length text then take 300 text @ ''...'' else text)"

subsection \<open>Writing a batch\<close>

definition maxIsolationDepth :: nat where
  "maxIsolationDepth = 12"

type_synonym 'w ch_writer = "doc list \<Rightarrow> 'w \<Rightarrow> (result \<times> ch_error option) \<times> 'w"

definition addResults :: "result \<Rightarrow> result \<Rightarrow> result" where
  "addResults a b = \<lparr>res_Applied = res_Applied a + res_Applied b,
     res_Stale = res_Stale a + res_Stale b, res_Rejected = res_Rejected a @ res_Rejected b\<rparr>"

definition isolate ::
    "'w ch_writer \<Rightarrow> nat \<Rightarrow> int \<Rightarrow> bytes \<Rightarrow> 'w ch_writer" where
  "isolate writer depth status payload docs w =
     (let reason = ''status '' @ showInt status @ '': '' @ ch_snippet payload
      in if length docs = 1 then
           ((emptyResult\<lparr>res_Rejected := [\<lparr>rej_Doc = hd docs, rej_Status = status, rej_Reason = reason\<rparr>]\<rparr>,
             None), w)
         else if maxIsolationDepth \<le> depth then
           ((emptyResult, Some (StoppedNarrowing (length docs) (int depth) reason)), w)
         else
           (let mid = length docs div 2;
                ((part1, err1), w1) = writer (take mid docs) w
            in case err1 of
                 Some e \<Rightarrow> ((addResults emptyResult part1, Some e), w1)
               | None \<Rightarrow>
                   (let ((part2, err2), w2) = writer (drop mid docs) w1
                    in ((addResults (addResults emptyResult part1) part2, err2), w2))))"

text \<open>
  The loop of \<^verbatim>\<open>write\<close> at one depth: \<^term>\<open>left::nat\<close> is how many attempts remain after this one.  The
  function it is given narrows a refused batch.
\<close>

fun ch_loop ::
    "'w ch_env \<Rightarrow> ch_sink \<Rightarrow> (int \<Rightarrow> bytes \<Rightarrow> 'w ch_writer) \<Rightarrow> bytes \<Rightarrow> nat \<Rightarrow> int \<Rightarrow> 'w ch_writer" where
  "ch_loop env s narrow body left attempt docs w =
     (case ch_post env s body (dedupToken docs) w of
        (ChTransportFailed e, w1) \<Rightarrow> (case left of
            0 \<Rightarrow> ((emptyResult, Some (InsertFailed (length docs) e)), w1)
          | Suc left' \<Rightarrow> (case ch_wait env (cs_opts s) attempt w1 of
                (Some e', w2) \<Rightarrow> ((emptyResult, Some e'), w2)
              | (None, w2) \<Rightarrow> ch_loop env s narrow body left' (attempt + 1) docs w2))
      | (ChAnswered status payload, w1) \<Rightarrow>
          if status < 300 then ((emptyResult\<lparr>res_Applied := length docs\<rparr>, None), w1)
          else if retryableStatus status then (case left of
              0 \<Rightarrow> ((emptyResult, Some (InsertStatus status attempt (ch_snippet payload))), w1)
            | Suc left' \<Rightarrow> (case ch_wait env (cs_opts s) attempt w1 of
                  (Some e', w2) \<Rightarrow> ((emptyResult, Some e'), w2)
                | (None, w2) \<Rightarrow> ch_loop env s narrow body left' (attempt + 1) docs w2))
          else narrow status payload docs w1)"

declare ch_loop.simps [simp del]

definition ch_writeWith :: "'w ch_env \<Rightarrow> ch_sink \<Rightarrow> nat \<Rightarrow> 'w ch_writer \<Rightarrow> 'w ch_writer" where
  "ch_writeWith env s depth deeper docs w = (case ch_encodeRows docs of
      Inl e \<Rightarrow> ((emptyResult, Some e), w)
    | Inr body \<Rightarrow>
        ch_loop env s (isolate deeper depth) body (nat (co_MaxAttempts (cs_opts s) - 1)) 1 docs w)"

text \<open>
  \<^verbatim>\<open>write\<close> with \<^term>\<open>k::nat\<close> levels left below the deepest, which is depth 12; there \<^verbatim>\<open>isolate\<close> stops
  before it would write again.
\<close>

fun ch_write :: "nat \<Rightarrow> 'w ch_env \<Rightarrow> ch_sink \<Rightarrow> 'w ch_writer" where
  "ch_write 0 env s docs w = ch_writeWith env s maxIsolationDepth (\<lambda>_ w. ((emptyResult, None), w)) docs w"
| "ch_write (Suc k) env s docs w =
     ch_writeWith env s (maxIsolationDepth - Suc k) (ch_write k env s) docs w"

definition ch_Write :: "'w ch_env \<Rightarrow> ch_sink \<Rightarrow> 'w ch_writer" where
  "ch_Write env s docs w =
     (if docs = [] then ((emptyResult, None), w) else ch_write (maxIsolationDepth - 1) env s docs w)"

subsection \<open>Every row has an outcome\<close>

definition accountsFor :: "result \<Rightarrow> doc list \<Rightarrow> bool" where
  "accountsFor res docs \<longleftrightarrow> Total res = length docs \<and> rejectedDocs (res_Rejected res) \<subseteq># mset docs"

definition okChWriter :: "'w ch_writer \<Rightarrow> bool" where
  "okChWriter writer \<longleftrightarrow> (\<forall>docs w res w'. docs \<noteq> [] \<longrightarrow> writer docs w = ((res, None), w') \<longrightarrow>
     accountsFor res docs)"

lemma accountsFor_halves:
  assumes "accountsFor a (take n docs)" and "accountsFor b (drop n docs)"
  shows "accountsFor (addResults a b) docs"
proof -
  have "rejectedDocs (res_Rejected a) + rejectedDocs (res_Rejected b) \<subseteq>#
      mset (take n docs) + mset (drop n docs)"
    using assms by (intro subset_mset.add_mono) (auto simp: accountsFor_def)
  moreover have "Total a + Total b = length docs" using assms by (simp add: accountsFor_def)
  ultimately show ?thesis
    by (simp add: accountsFor_def addResults_def Total_def flip: mset_append)
qed

lemma addResults_empty [simp]: "addResults emptyResult r = r"
  by (simp add: addResults_def emptyResult_def)

text \<open>A refused batch of more than one row, above the deepest level.\<close>

lemma isolate_halves:
  assumes "length docs \<noteq> 1" and "depth < maxIsolationDepth"
    and "writer (take (length docs div 2) docs) w = ((part1, err1), w1)"
    and "writer (drop (length docs div 2) docs) w1 = ((part2, err2), w2)"
  shows "isolate writer depth status payload docs w =
     (if err1 = None then ((addResults part1 part2, err2), w2) else ((part1, err1), w1))"
  using assms by (auto simp: isolate_def Let_def)

lemma isolate_OK:
  assumes "docs \<noteq> []" and "maxIsolationDepth \<le> depth \<or> okChWriter writer"
    and "isolate writer depth status payload docs w = ((res, None), w')"
  shows "accountsFor res docs"
proof (cases "length docs = 1")
  case True
  with assms(3) show ?thesis
    by (cases docs) (auto simp: isolate_def accountsFor_def Total_def emptyResult_def rejectedDocs_def Let_def)
next
  case False
  with assms(1) have two: "take (length docs div 2) docs \<noteq> []" "drop (length docs div 2) docs \<noteq> []"
    by (cases docs; cases "tl docs"; auto)+
  from False assms(2,3) have depth: "depth < maxIsolationDepth" and ok: "okChWriter writer"
    by (auto simp: isolate_def Let_def not_le split: if_splits)
  obtain part1 err1 w1 where h1: "writer (take (length docs div 2) docs) w = ((part1, err1), w1)"
    by (metis prod.exhaust)
  obtain part2 err2 w2 where h2: "writer (drop (length docs div 2) docs) w1 = ((part2, err2), w2)"
    by (metis prod.exhaust)
  from isolate_halves [OF False depth h1 h2] assms(3)
  have "err1 = None" "err2 = None" "res = addResults part1 part2" by (auto split: if_splits)
  with ok two h1 h2 have "accountsFor part1 (take (length docs div 2) docs)"
    and "accountsFor part2 (drop (length docs div 2) docs)"
    unfolding okChWriter_def by metis+
  from accountsFor_halves [OF this] \<open>res = addResults part1 part2\<close> show ?thesis by simp
qed

lemma ch_loop_OK:
  assumes "\<And>status payload w res w'. narrow status payload docs w = ((res, None), w') \<Longrightarrow> accountsFor res docs"
  shows "ch_loop env s narrow body left attempt docs w = ((res, None), w') \<Longrightarrow> accountsFor res docs"
proof (induction left arbitrary: attempt w)
  case (0 attempt w)
  then show ?case using assms
    by (subst (asm) ch_loop.simps)
      (auto simp: accountsFor_def Total_def emptyResult_def split: prod.splits ch_response.splits if_splits)
next
  case (Suc left attempt w)
  then show ?case using assms
    by (subst (asm) ch_loop.simps)
      (auto simp: accountsFor_def Total_def emptyResult_def
        split: prod.splits ch_response.splits if_splits option.splits)
qed

lemma ch_writeWith_OK:
  assumes "maxIsolationDepth \<le> depth \<or> okChWriter deeper"
  shows "okChWriter (ch_writeWith env s depth deeper)"
  unfolding okChWriter_def
proof (intro allI impI)
  fix docs w res w'
  assume ne: "docs \<noteq> []" and run: "ch_writeWith env s depth deeper docs w = ((res, None), w')"
  from run obtain body where "ch_loop env s (isolate deeper depth) body
      (nat (co_MaxAttempts (cs_opts s) - 1)) 1 docs w = ((res, None), w')"
    by (auto simp: ch_writeWith_def split: sum.splits)
  then show "accountsFor res docs" by (rule ch_loop_OK [rotated]) (rule isolate_OK [OF ne assms])
qed

lemma ch_write_OK: "okChWriter (ch_write k env s)"
proof (induction k)
  case 0
  show ?case using ch_writeWith_OK [of maxIsolationDepth] by (simp add: okChWriter_def)
next
  case (Suc k)
  show ?case using ch_writeWith_OK [OF disjI2 [OF Suc.IH]] by (simp add: okChWriter_def)
qed

lemma ch_Write_accounted:
  assumes "ch_Write env s docs w = ((res, None), w')"
  shows "accountsFor res docs"
proof (cases "docs = []")
  case True
  with assms show ?thesis by (auto simp: ch_Write_def accountsFor_def emptyResult_def Total_def)
next
  case False
  with assms ch_write_OK show ?thesis unfolding ch_Write_def okChWriter_def by metis
qed

interpretation ch: accounting_sink "ch_Write env s" for env s
  by unfold_locales (auto dest: ch_Write_accounted simp: accountsFor_def)

subsection \<open>Narrowing\<close>

definition notStopped :: "ch_error option \<Rightarrow> bool" where
  "notStopped e \<longleftrightarrow> (\<forall>n depth reason. e \<noteq> Some (StoppedNarrowing n depth reason))"

lemma ch_loop_notStopped:
  assumes "\<And>status payload w. notStopped (snd (fst (narrow status payload docs w)))"
  shows "notStopped (snd (fst (ch_loop env s narrow body left attempt docs w)))"
proof (induction left arbitrary: attempt w)
  case (0 attempt w)
  show ?case using assms
    by (subst ch_loop.simps) (auto simp: notStopped_def split: prod.splits ch_response.splits)
next
  case (Suc left attempt w)
  have "ch_wait env o' a v = (Some e, v') \<Longrightarrow> e = ChContextEnded" for o' a v e v'
    by (auto simp: ch_wait_def Let_def split: prod.splits if_splits)
  then show ?case using assms Suc.IH
    by (subst ch_loop.simps)
      (fastforce simp: notStopped_def split: prod.splits ch_response.splits option.splits)
qed

lemma ch_encodeRows_notStopped: "ch_encodeRows docs = Inl e \<Longrightarrow> notStopped (Some e)"
proof (induction docs)
  case (Cons d docs)
  then show ?case
    by (auto simp: ch_encodeRows_def ch_encodeRow_def notStopped_def Let_def split: sum.splits if_splits)
qed (simp add: ch_encodeRows_def)

lemma ch_write_narrows:
  "docs \<noteq> [] \<Longrightarrow> length docs \<le> 2 ^ k \<Longrightarrow> k < maxIsolationDepth \<Longrightarrow>
     notStopped (snd (fst (ch_write k env s docs w)))"
proof (induction k arbitrary: docs w)
  case 0
  then have one: "length docs = 1" by (cases docs) auto
  have narrow: "notStopped (snd (fst (isolate x depth status payload docs w)))"
    for x :: "'a ch_writer" and depth status payload w
    using one by (simp add: isolate_def notStopped_def Let_def)
  show ?case
    using ch_encodeRows_notStopped [of docs]
    by (auto simp: ch_writeWith_def split: sum.splits intro!: ch_loop_notStopped narrow)
next
  case (Suc k)
  let ?mid = "length docs div 2"
  have narrow: "notStopped (snd (fst (isolate (ch_write k env s) (maxIsolationDepth - Suc k) status payload docs w)))"
    for status payload w
  proof (cases "length docs = 1")
    case True
    then show ?thesis by (simp add: isolate_def notStopped_def Let_def)
  next
    case False
    with Suc.prems have ne: "take ?mid docs \<noteq> []" "drop ?mid docs \<noteq> []"
      by (cases docs; cases "tl docs"; auto)+
    have depth: "maxIsolationDepth - Suc k < maxIsolationDepth" using Suc.prems(3) by simp
    have len: "length (take ?mid docs) \<le> 2 ^ k" "length (drop ?mid docs) \<le> 2 ^ k"
      using Suc.prems(2) by auto
    obtain part1 err1 w1 where h1: "ch_write k env s (take ?mid docs) w = ((part1, err1), w1)"
      by (metis prod.exhaust)
    obtain part2 err2 w2 where h2: "ch_write k env s (drop ?mid docs) w1 = ((part2, err2), w2)"
      by (metis prod.exhaust)
    have "notStopped err1" using Suc.IH [OF ne(1) len(1), of w] Suc.prems(3) h1 by simp
    moreover have "notStopped err2" using Suc.IH [OF ne(2) len(2), of w1] Suc.prems(3) h2 by simp
    ultimately show ?thesis using isolate_halves [OF False depth h1 h2] by simp
  qed
  show ?case
    using ch_encodeRows_notStopped [of docs]
    by (auto simp: ch_writeWith_def split: sum.splits intro!: ch_loop_notStopped narrow)
qed

text \<open>
  A server that refuses exactly the batches that hold a bad row, among the contiguous parts of a
  given batch.
\<close>

definition refusesBad :: "'w ch_env \<Rightarrow> ch_sink \<Rightarrow> (doc \<Rightarrow> bool) \<Rightarrow> doc list \<Rightarrow> bool" where
  "refusesBad env s bad docs \<longleftrightarrow> (\<forall>ds body w. sublist ds docs \<longrightarrow> ds \<noteq> [] \<longrightarrow> ch_encodeRows ds = Inr body \<longrightarrow>
     (\<exists>payload w'. ch_post env s body (dedupToken ds) w =
        (ChAnswered (if list_ex bad ds then 400 else 200) payload, w')))"

lemma ch_encodeRows_total:
  "list_all (\<lambda>d. \<not> isl (ch_encodeRow d)) docs \<Longrightarrow> \<exists>body. ch_encodeRows docs = Inr body"
proof -
  assume "list_all (\<lambda>d. \<not> isl (ch_encodeRow d)) docs"
  then have "\<exists>ys. mapResult ch_encodeRow docs = Inr ys"
    by (subst mapResult_Inr_iff) (auto simp: list_all_iff isl_def, metis obj_sumE)
  then show ?thesis by (auto simp: ch_encodeRows_def)
qed

definition isolated :: "(doc \<Rightarrow> bool) \<Rightarrow> doc list \<Rightarrow> result \<Rightarrow> bool" where
  "isolated bad docs res \<longleftrightarrow> map rej_Doc (res_Rejected res) = filter bad docs \<and>
     res_Applied res = length (filter (\<lambda>d. \<not> bad d) docs) \<and> res_Stale res = 0"

lemma isolated_halves:
  "isolated bad (take n docs) a \<Longrightarrow> isolated bad (drop n docs) b \<Longrightarrow> isolated bad docs (addResults a b)"
  unfolding isolated_def addResults_def
  by (metis (no_types, lifting) append_take_drop_id filter_append length_append map_append add_0
      result.select_convs(1,2,3))

lemma ch_write_isolates:
  assumes "refusesBad env s bad all" and "list_all (\<lambda>d. \<not> isl (ch_encodeRow d)) all"
  shows "docs \<noteq> [] \<Longrightarrow> sublist docs all \<Longrightarrow> length docs \<le> 2 ^ k \<Longrightarrow> k < maxIsolationDepth \<Longrightarrow>
     \<exists>res w'. ch_write k env s docs w = ((res, None), w') \<and> isolated bad docs res"
proof (induction k arbitrary: docs w)
  case (0 docs w)
  then obtain d where docs: "docs = [d]" by (cases docs) auto
  have "list_all (\<lambda>d. \<not> isl (ch_encodeRow d)) docs"
    using assms(2) 0(2) by (auto simp: list_all_iff dest: set_mono_sublist)
  then obtain body where body: "ch_encodeRows docs = Inr body" using ch_encodeRows_total by blast
  obtain payload w1 where post: "ch_post env s body (dedupToken docs) w =
      (ChAnswered (if list_ex bad docs then 400 else 200) payload, w1)"
    using assms(1) 0(1,2) body unfolding refusesBad_def by metis
  show ?case using docs body post
    by (auto simp: ch_writeWith_def ch_loop.simps isolate_def isolated_def emptyResult_def
        retryableStatus_def Let_def)
next
  case (Suc k docs w)
  have "list_all (\<lambda>d. \<not> isl (ch_encodeRow d)) docs"
    using assms(2) Suc.prems(2) by (auto simp: list_all_iff dest: set_mono_sublist)
  then obtain body where body: "ch_encodeRows docs = Inr body" using ch_encodeRows_total by blast
  obtain payload w1 where post: "ch_post env s body (dedupToken docs) w =
      (ChAnswered (if list_ex bad docs then 400 else 200) payload, w1)"
    using assms(1) Suc.prems(1,2) body unfolding refusesBad_def by metis
  let ?narrow = "isolate (ch_write k env s) (maxIsolationDepth - Suc k)"
  have run: "ch_write (Suc k) env s docs w = (if list_ex bad docs then ?narrow 400 payload docs w1
      else ((emptyResult\<lparr>res_Applied := length docs\<rparr>, None), w1))"
    using body post by (simp add: ch_writeWith_def ch_loop.simps retryableStatus_def)
  consider (good) "\<not> list_ex bad docs" | (one) d where "docs = [d]" "bad d"
    | (more) "list_ex bad docs" "length docs \<noteq> 1"
    by (cases docs; cases "tl docs"; auto)
  then show ?case
  proof cases
    case good
    then have "filter bad docs = []" "filter (\<lambda>d. \<not> bad d) docs = docs"
      by (auto simp: list_ex_iff filter_empty_conv filter_id_conv)
    with good run show ?thesis by (simp add: isolated_def emptyResult_def)
  next
    case one
    with run show ?thesis by (simp add: isolate_def isolated_def emptyResult_def Let_def)
  next
    case more
    let ?mid = "length docs div 2"
    from more Suc.prems(1) have ne: "take ?mid docs \<noteq> []" "drop ?mid docs \<noteq> []"
      by (cases docs; cases "tl docs"; auto)+
    have sub: "sublist (take ?mid docs) all" "sublist (drop ?mid docs) all"
      using Suc.prems(2) sublist_order.order_trans [OF sublist_take] sublist_order.order_trans [OF sublist_drop] by blast+
    have len: "length (take ?mid docs) \<le> 2 ^ k" "length (drop ?mid docs) \<le> 2 ^ k"
      using Suc.prems(3) by auto
    have k: "k < maxIsolationDepth" "maxIsolationDepth - Suc k < maxIsolationDepth"
      using Suc.prems(4) by simp_all
    obtain res1 w2 where h1: "ch_write k env s (take ?mid docs) w1 = ((res1, None), w2)"
      "isolated bad (take ?mid docs) res1"
      using Suc.IH [OF ne(1) sub(1) len(1) k(1)] by metis
    obtain res2 w3 where h2: "ch_write k env s (drop ?mid docs) w2 = ((res2, None), w3)"
      "isolated bad (drop ?mid docs) res2"
      using Suc.IH [OF ne(2) sub(2) len(2) k(1)] by metis
    from isolate_halves [OF more(2) k(2) h1(1) h2(1)] run more(1)
      isolated_halves [OF h1(2) h2(2)] show ?thesis by simp
  qed
qed

subsection \<open>Rows as JSON objects\<close>

lemma ch_trim_object: "ch_trim (xs @ ''}'') = xs @ ''}''"
  by (simp add: ch_trim_def trimRight_def)

lemma joinWith_eq_Nil:
  "joinWith '','' ms = [] \<longleftrightarrow> ms = [] \<or> ms = [[]]"
  by (cases ms rule: remdups_adj.cases) auto

lemma joinWith_snoc:
  "joinWith sep (ms @ [m]) = joinWith sep ms @ (if ms = [] then [] else sep) @ m"
proof (induction ms)
  case (Cons a ms)
  then show ?case by (cases ms) auto
qed simp

definition ch_versionMember :: "doc \<Rightarrow> bytes" where
  "ch_versionMember d = [CHR 0x22] @ VersionColumn @ [CHR 0x22] @ '':'' @ formatUint (doc_Version d)"

definition ch_deletedMember :: "doc \<Rightarrow> bytes" where
  "ch_deletedMember d =
     [CHR 0x22] @ DeletedColumn @ [CHR 0x22] @ '':'' @ (if doc_Deleted d then ''1'' else ''0'')"

subsection \<open>Properties\<close>

text \<open>
  C14: No row is dropped silently by the ClickHouse sink.  Whatever the server answers, a write that
  reports no error accounts for every row of the batch, and the rows it lists as refused are rows
  of the batch.
\<close>

theorem ch_Write_accounts:
  assumes "ch_Write env s docs w = ((res, None), w')"
  shows "Total res = length docs \<and> rejectedDocs (res_Rejected res) \<subseteq># mset docs"
  using ch.accounts [OF assms] ch.refuses_own [OF assms] by simp

definition exampleChSink :: ch_sink where
  "exampleChSink = \<lparr>cs_opts = \<lparr>co_DSN = ''http://c'', co_Table = ''orders'', co_Workers = 1,
       co_MaxAttempts = 5, co_BaseBackoff = 200000000, co_MaxBackoff = 30000000000,
       co_Compress = False, co_RequestTimeout = 120000000000\<rparr>,
     cs_endpoint = ''http://c'', cs_query = [], cs_user = [], cs_password = [], cs_database = ''d''\<rparr>"

text \<open>A server that refuses a batch when its body holds the byte \<^verbatim>\<open>!\<close>.\<close>

definition exampleChEnv :: "unit ch_env" where
  "exampleChEnv = \<lparr>ce_do = (\<lambda>req w. (ChAnswered (if CHR 0x21 \<in> set (cr_body req) then 400 else 200) [], w)),
     ce_gzip = id, ce_rand = (\<lambda>_ w. (0, w)), ce_sleep = (\<lambda>_ w. (False, w))\<rparr>"

definition chDoc :: "string \<Rightarrow> bytes \<Rightarrow> doc" where
  "chDoc k body = \<lparr>doc_Key = k, doc_Body = body, doc_Version = 1, doc_Deleted = False\<rparr>"

lemma exampleCh_run:
  "ch_Write exampleChEnv exampleChSink [chDoc ''a'' ''{}'', chDoc ''b'' ''{!}''] () =
     ((\<lparr>res_Applied = 1, res_Stale = 0, res_Rejected =
         [\<lparr>rej_Doc = chDoc ''b'' ''{!}'', rej_Status = 400, rej_Reason = ''status 400: ''\<rparr>]\<rparr>, None), ())"
  by code_simp

theorem ch_Write_accounts_witness:
  "Total \<lparr>res_Applied = 1, res_Stale = 0, res_Rejected =
         [\<lparr>rej_Doc = chDoc ''b'' ''{!}'', rej_Status = 400, rej_Reason = ''status 400: ''\<rparr>]\<rparr> = 2"
  using ch_Write_accounts [OF exampleCh_run] by simp

text \<open>
  Narrowing always finishes for a batch of up to 2048 rows: whatever the server answers,
  \<^verbatim>\<open>Write\<close> never gives up because it stopped splitting, so no such batch is stuck on a refused row.
\<close>

theorem ch_Write_narrows:
  assumes "length docs \<le> 2048"
  shows "snd (fst (ch_Write env s docs w)) \<noteq> Some (StoppedNarrowing n depth reason)"
proof (cases "docs = []")
  case True
  then show ?thesis by (simp add: ch_Write_def)
next
  case False
  have "notStopped (snd (fst (ch_write 11 env s docs w)))"
    by (rule ch_write_narrows) (use False assms in \<open>auto simp: maxIsolationDepth_def\<close>)
  with False show ?thesis by (simp add: ch_Write_def maxIsolationDepth_def notStopped_def)
qed

theorem ch_Write_narrows_witness:
  "snd (fst (ch_Write exampleChEnv exampleChSink [chDoc ''b'' ''{!}''] ())) \<noteq>
     Some (StoppedNarrowing 1 12 [])"
  by (rule ch_Write_narrows) simp


lemma exampleCh_refuses:
  "refusesBad exampleChEnv exampleChSink (\<lambda>d. CHR 0x21 \<in> set (doc_Body d))
     [chDoc ''a'' ''{}'', chDoc ''b'' ''{!}'']"
proof -
  have "ds = [chDoc ''a'' ''{}''] \<or> ds = [chDoc ''b'' ''{!}''] \<or> ds = [chDoc ''a'' ''{}'', chDoc ''b'' ''{!}'']"
    if "sublist ds [chDoc ''a'' ''{}'', chDoc ''b'' ''{!}'']" "ds \<noteq> []" for ds
    using that by (auto simp: sublist_Cons_right prefix_Cons)
  moreover have "ch_encodeRows [chDoc ''a'' ''{}''] = Inr body \<Longrightarrow> CHR 0x21 \<notin> set body"
    "ch_encodeRows [chDoc ''b'' ''{!}''] = Inr body \<Longrightarrow> CHR 0x21 \<in> set body"
    "ch_encodeRows [chDoc ''a'' ''{}'', chDoc ''b'' ''{!}''] = Inr body \<Longrightarrow> CHR 0x21 \<in> set body" for body
  proof -
    have "\<not> list_ex (\<lambda>c. c = CHR 0x21) (projr (ch_encodeRows [chDoc ''a'' ''{}'']))"
      "list_ex (\<lambda>c. c = CHR 0x21) (projr (ch_encodeRows [chDoc ''b'' ''{!}'']))"
      "list_ex (\<lambda>c. c = CHR 0x21) (projr (ch_encodeRows [chDoc ''a'' ''{}'', chDoc ''b'' ''{!}'']))"
      by code_simp+
    then show "ch_encodeRows [chDoc ''a'' ''{}''] = Inr body \<Longrightarrow> CHR 0x21 \<notin> set body"
      "ch_encodeRows [chDoc ''b'' ''{!}''] = Inr body \<Longrightarrow> CHR 0x21 \<in> set body"
      "ch_encodeRows [chDoc ''a'' ''{}'', chDoc ''b'' ''{!}''] = Inr body \<Longrightarrow> CHR 0x21 \<in> set body"
      by (auto simp: list_ex_iff)
  qed
  ultimately show ?thesis
    unfolding refusesBad_def by (fastforce simp: ch_post_def exampleChEnv_def exampleChSink_def chDoc_def Let_def)
qed


text \<open>
  A row is the document's object with the replication state added.  For a body that is the JSON
  object of some members, as \<^verbatim>\<open>encode\<close> builds it, the row that \<^verbatim>\<open>encodeRows\<close> writes is the object of
  those members followed by the version and the deletion flag, on a line of its own.
\<close>

theorem ch_encodeRow_object:
  assumes "doc_Body d = ''{'' @ joinWith '','' ms @ ''}''" and "ms \<noteq> [[]]"
  shows "ch_encodeRow d = Inr (''{'' @ joinWith '','' (ms @ [ch_versionMember d, ch_deletedMember d]) @
     ''}'' @ [CHR 0x0A])"
proof -
  let ?ms = "joinWith '','' ms"
  have trim: "ch_trim (doc_Body d) = ''{'' @ ?ms @ ''}''"
    using ch_trim_object [of "''{'' @ ?ms"] assms(1) by simp
  have "?ms = [] \<longleftrightarrow> ms = []" using joinWith_eq_Nil [of ms] assms(2) by auto
  then have sep: "(if 2 < length (''{'' @ ?ms @ ''}'') then '','' else []) = (if ms = [] then [] else '','')"
    by (cases ?ms) auto
  have "joinWith '','' (ms @ [ch_versionMember d, ch_deletedMember d]) =
      ?ms @ (if ms = [] then [] else '','') @ ch_stateMembers d"
    using joinWith_snoc [of "'',''" "ms @ [ch_versionMember d]" "ch_deletedMember d"]
    by (simp add: joinWith_snoc ch_stateMembers_def ch_versionMember_def ch_deletedMember_def)
  with trim sep assms(1) show ?thesis
    by (simp add: ch_encodeRow_def Let_def butlast_append)
qed

theorem ch_encodeRow_object_witness:
  "ch_encodeRow (chDoc ''a'' ''{1,2}'') =
     Inr (''{'' @ joinWith '','' ([''1'', ''2''] @ [ch_versionMember (chDoc ''a'' ''{1,2}''),
       ch_deletedMember (chDoc ''a'' ''{1,2}'')]) @ ''}'' @ [CHR 0x0A])"
  by (rule ch_encodeRow_object) (simp_all add: chDoc_def)

text \<open>
  Two different batches can have the same deduplication token.  The token names the first key,
  the first and last version and the number of rows; the rows of a scan all carry the same version,
  so a batch replayed after a row in its middle was deleted at the source, and which therefore ends
  with a further row, has the token of the batch already inserted.
\<close>

theorem dedupToken_not_unique:
  "let row = (\<lambda>k. chDoc k ''{}'')
   in dedupToken [row ''1'', row ''2'', row ''3''] = dedupToken [row ''1'', row ''3'', row ''4''] \<and>
      row ''4'' \<notin> set [row ''1'', row ''2'', row ''3'']"
  by code_simp

definition exampleChPlan :: plan where
  "exampleChPlan = projr (Compile (Some exampleTable) exampleMapping DialectClickHouse None [])"

text \<open>
  An update that changes the key cannot be written to ClickHouse.  \<^verbatim>\<open>Apply\<close> gives the deletion of
  the old key no body for either destination, and \<^verbatim>\<open>encodeRows\<close> refuses a document without a body,
  so the whole batch fails, whatever the server does, and fails again on every replay.
\<close>

theorem ch_key_change_fails:
  "\<exists>docs. Apply exampleEnv exampleChPlan (Some (exampleEvent OperationUpdate
       (Some (exampleRow 7 ''a'')) (Some (exampleRow 8 ''a'')) 2)) = Inr docs \<and>
     ch_Write env s docs w = ((emptyResult, Some (ChNoBody ''7'')), w)"
proof -
  let ?docs = "projr (Apply exampleEnv exampleChPlan (Some (exampleEvent OperationUpdate
       (Some (exampleRow 7 ''a'')) (Some (exampleRow 8 ''a'')) 2)))"
  have "\<not> isl (Apply exampleEnv exampleChPlan (Some (exampleEvent OperationUpdate
       (Some (exampleRow 7 ''a'')) (Some (exampleRow 8 ''a'')) 2)))"
    by code_simp
  moreover have "ch_encodeRows ?docs = Inl (ChNoBody ''7'')" by code_simp
  moreover have "length ?docs = 2" by code_simp
  ultimately show ?thesis
    by (intro exI [of _ ?docs]) (auto simp: ch_Write_def maxIsolationDepth_def ch_writeWith_def numeral_eq_Suc)
qed

end
