(* ===== verification/Backfill.thy ===== *)
theory Backfill
  imports Settings Runner Scanner IndexAdmin ClickHouse
begin

text \<open>
  \<^verbatim>\<open>internal/supervisor/snapshot.go\<close>, with \<^verbatim>\<open>currentPosition\<close> and \<^verbatim>\<open>estimateRows\<close> of \<^verbatim>\<open>build.go\<close>: what a stream
  does before it streams.  It notes the position of the source, reserves the version of the scan, scans
  the table through its pipeline, and only then marks the scan as done.

  The scan runs the models of the scanner and of the runner: the events of the one are the events of the
  other, and \<open>su_script\<close> says how the runner's \<^verbatim>\<open>select\<close> comes upon them (with the ticks of its timer, the
  end of the events, or a cancellation).  A scan that does not end is \<^term>\<open>None\<close>.  The queries to the source,
  the connection to a replica and the exchange with Elasticsearch are the other fields of \<open>sup_env\<close>.
  Metrics and log messages are not modelled.
\<close>

datatype built_sink = EsSink es_sink | ChSink ch_sink

record stream_runtime =
  rt_cfg :: stream_config
  rt_meta :: table_meta
  rt_sink :: built_sink
  rt_alloc :: allocator
  rt_runner :: runner

record 'w sup_env =
  su_deps :: "'w deps"
  su_scan :: "'w scan_env"
  su_script :: "change_event list \<Rightarrow> input list"
  su_time :: "'w \<Rightarrow> time"
  su_gtidExecuted :: "'w \<Rightarrow> (string + string) \<times> 'w"
  su_tableRows :: "string \<Rightarrow> string \<Rightarrow> 'w \<Rightarrow> (string + int option) \<times> 'w"
  su_openReplica :: "string \<Rightarrow> 'w \<Rightarrow> string option \<times> 'w"
  su_admin :: "'w admin_env"

datatype sup_error =
    ReadCheckpoint store_error
  | PositionUnreadable string
  | NoTransactions
  | RecordStart store_error
  | AllocateVersion alloc_error
  | RecordScanStart store_error
  | ReplicaUnreachable string
  | KeyUnusable schema_error
  | ScannerRefused scan_error
  | PipelineFailed runner_error
  | ScanFailed scan_error
  | ScanInterrupted
  | CheckpointAfterScan store_error
  | RecordScanDone store_error
  | AliasFailed admin_error

abbreviation rt_name :: "stream_runtime \<Rightarrow> string" where
  "rt_name rt \<equiv> sm_Name (rt_cfg rt)"

subsection \<open>Queries to the source (build.go)\<close>

definition currentPosition :: "'w sup_env \<Rightarrow> 'w \<Rightarrow> (sup_error + string) \<times> 'w" where
  "currentPosition env w = (case su_gtidExecuted env w of
      (Inl e, w1) \<Rightarrow> (Inl (PositionUnreadable e), w1)
    | (Inr raw, w1) \<Rightarrow>
        (let gtid = replaceByte (CHR 0x0A) [] raw
         in if trimSpace gtid = [] then (Inl NoTransactions, w1) else (Inr gtid, w1)))"

definition estimateRows :: "'w sup_env \<Rightarrow> table_meta \<Rightarrow> 'w \<Rightarrow> u64 \<times> 'w" where
  "estimateRows env meta w = (case su_tableRows env (tm_Schema meta) (tm_Table meta) w of
      (Inr (Some n), w1) \<Rightarrow> (if n < 0 then 0 else of_int n, w1)
    | (_, w1) \<Rightarrow> (0, w1))"

subsection \<open>Before the scan\<close>

definition startWithoutSnapshot ::
    "'w sup_env \<Rightarrow> stream_runtime \<Rightarrow> checkpoint \<Rightarrow> 'w \<Rightarrow> (sup_error + string) \<times> 'w" where
  "startWithoutSnapshot env rt cp w =
     (if cp_GTIDSet cp \<noteq> [] then (Inr (cp_GTIDSet cp), w)
      else (case currentPosition env w of
          (Inl e, w1) \<Rightarrow> (Inl e, w1)
        | (Inr position, w1) \<Rightarrow>
            (case d_save (su_deps env)
                (cp\<lparr>cp_Stream := rt_name rt, cp_SnapshotDone := True, cp_GTIDSet := position\<rparr>) w1 of
               (Some e, w2) \<Rightarrow> (Inl (RecordStart e), w2)
             | (None, w2) \<Rightarrow> (Inr position, w2))))"

definition markScanStarted ::
    "'w sup_env \<Rightarrow> stream_runtime \<Rightarrow> checkpoint \<Rightarrow> 'w \<Rightarrow> (sup_error + checkpoint) \<times> stream_runtime \<times> 'w" where
  "markScanStarted env rt cp w =
     (if cp_SnapshotStartGTID cp \<noteq> [] then (Inr cp, rt, w)
      else (case currentPosition env w of
          (Inl e, w1) \<Rightarrow> (Inl e, rt, w1)
        | (Inr position, w1) \<Rightarrow>
            (case Next (d_load (su_deps env)) (d_save (su_deps env)) (su_time env w1) (rt_alloc rt) w1 of
               (Inl e, a, w2) \<Rightarrow> (Inl (AllocateVersion e), rt\<lparr>rt_alloc := a\<rparr>, w2)
             | (Inr baseSeq, a, w2) \<Rightarrow>
                 (let rt1 = rt\<lparr>rt_alloc := a\<rparr>; (total, w3) = estimateRows env (rt_meta rt) w2;
                      cp1 = cp\<lparr>cp_Stream := rt_name rt, cp_SnapshotStartGTID := position,
                        cp_SnapshotBaseSeq := baseSeq, cp_SnapshotRowsTotal := total\<rparr>
                  in case d_save (su_deps env) cp1 w3 of
                       (Some e, w4) \<Rightarrow> (Inl (RecordScanStart e), rt1, w4)
                     | (None, w4) \<Rightarrow> (Inr cp1, rt1, w4)))))"

subsection \<open>The scan\<close>

definition newScanner :: "stream_runtime \<Rightarrow> checkpoint \<Rightarrow> sup_error + snapshotter" where
  "newScanner rt cp = (case ResolveKey (rt_meta rt) (mp_Key (sm_Mapping (rt_cfg rt))) of
      Inl e \<Rightarrow> Inl (KeyUnusable e)
    | Inr keyNames \<Rightarrow>
        (case sc_New \<lparr>so_hasDB = True, so_Meta = Some (rt_meta rt), so_Key = keyNames,
            so_ChunkSize = sn_ChunkSize (sm_Snapshot (rt_cfg rt)),
            so_MaxRowsPerSec = sn_MaxRateRowsPerSec (sm_Snapshot (rt_cfg rt)),
            so_Cursor = cp_SnapshotCursor cp, so_BaseSeq = cp_SnapshotBaseSeq cp\<rparr> of
           Inl e \<Rightarrow> Inl (ScannerRefused e)
         | Inr s \<Rightarrow> Inr s))"

text \<open>The pipeline on the scanner's events: \<^verbatim>\<open>rt.runner.Run(ctx, scanner.Events(ctx))\<close>.\<close>

definition driveScan ::
    "'w sup_env \<Rightarrow> snapshotter \<Rightarrow> runner \<Rightarrow> 'w \<Rightarrow> ((runner_error option \<times> snapshotter) \<times> runner \<times> 'w) option" where
  "driveScan env s r w = (case sc_Events (su_scan env) s w of
      None \<Rightarrow> None
    | Some (evs, s1, w1) \<Rightarrow> (case Run (su_deps env) (su_script env evs) r w1 of
          (Running, _, _) \<Rightarrow> None
        | (Returned e, r1, w2) \<Rightarrow> Some ((e, s1), r1, w2)))"

definition withEs :: "stream_runtime \<Rightarrow> es_sink \<Rightarrow> stream_runtime" where
  "withEs rt es = rt\<lparr>rt_sink := EsSink es\<rparr>"

definition beginBulkLoad ::
    "'w sup_env \<Rightarrow> stream_runtime \<Rightarrow> 'w \<Rightarrow> load_settings \<times> stream_runtime \<times> 'w" where
  "beginBulkLoad env rt w = (case rt_sink rt of
      ChSink _ \<Rightarrow> (noSettings, rt, w)
    | EsSink es \<Rightarrow>
        if sk_Alias (sm_Sink (rt_cfg rt)) = [] then (noSettings, rt, w)
        else (case aliasTargets (su_admin env) es w of
            (Inl e, es1, w1) \<Rightarrow> (noSettings, withEs rt es1, w1)
          | (Inr targets, es1, w1) \<Rightarrow>
              if sk_Index (sm_Sink (rt_cfg rt)) \<in> set targets then (noSettings, withEs rt es1, w1)
              else (case BeginBulkLoad (su_admin env) es1 w1 of
                  ((load, _), es2, w2) \<Rightarrow> (load, withEs rt es2, w2))))"

text \<open>The deferred restoration; a failure of it is only logged.\<close>

definition endBulkLoad ::
    "'w sup_env \<Rightarrow> load_settings \<Rightarrow> stream_runtime \<Rightarrow> 'w \<Rightarrow> stream_runtime \<times> 'w" where
  "endBulkLoad env load rt w = (case rt_sink rt of
      ChSink _ \<Rightarrow> (rt, w)
    | EsSink es \<Rightarrow>
        if \<not> Applied load then (rt, w)
        else (case EndBulkLoad (su_admin env) load es w of (_, es1, w1) \<Rightarrow> (withEs rt es1, w1)))"

definition mergeScanned ::
    "'w sup_env \<Rightarrow> load_settings \<Rightarrow> stream_runtime \<Rightarrow> 'w \<Rightarrow> stream_runtime \<times> 'w" where
  "mergeScanned env load rt w = (case rt_sink rt of
      ChSink _ \<Rightarrow> (rt, w)
    | EsSink es \<Rightarrow>
        if \<not> Applied load then (rt, w)
        else (case ForceMerge (su_admin env) es w of (_, es1, w1) \<Rightarrow> (withEs rt es1, w1)))"

definition sup_scan ::
    "'w sup_env \<Rightarrow> stream_runtime \<Rightarrow> snapshotter \<Rightarrow> 'w \<Rightarrow>
     ((sup_error option \<times> snapshotter) \<times> stream_runtime \<times> 'w) option" where
  "sup_scan env rt s w = (case beginBulkLoad env rt w of (load, rt1, w1) \<Rightarrow>
     (case driveScan env s (rt_runner rt1) w1 of
        None \<Rightarrow> None
      | Some ((e, s1), r, w2) \<Rightarrow>
          (let rt2 = rt1\<lparr>rt_runner := r\<rparr>;
               err = (case e of
                   Some x \<Rightarrow> Some (PipelineFailed x)
                 | None \<Rightarrow> map_option ScanFailed (ss_err s1));
               (rt3, w3) = (if err = None \<and> ss_done s1 then mergeScanned env load rt2 w2 else (rt2, w2));
               (rt4, w4) = endBulkLoad env load rt3 w3
           in Some ((err, s1), rt4, w4))))"

definition promoteAlias ::
    "'w sup_env \<Rightarrow> stream_runtime \<Rightarrow> 'w \<Rightarrow> sup_error option \<times> stream_runtime \<times> 'w" where
  "promoteAlias env rt w = (case rt_sink rt of
      ChSink _ \<Rightarrow> (None, rt, w)
    | EsSink es \<Rightarrow>
        if sk_Alias (sm_Sink (rt_cfg rt)) = [] then (None, rt, w)
        else (case aliasTargets (su_admin env) es w of
            (Inl e, es1, w1) \<Rightarrow> (Some (AliasFailed e), withEs rt es1, w1)
          | (Inr before, es1, w1) \<Rightarrow> (case PromoteAlias (su_admin env) es1 w1 of
                (Some e, es2, w2) \<Rightarrow> (Some (AliasFailed e), withEs rt es2, w2)
              | (None, es2, w2) \<Rightarrow> (None, withEs rt es2, w2))))"

definition finishScan ::
    "'w sup_env \<Rightarrow> stream_runtime \<Rightarrow> 'w \<Rightarrow> (sup_error + string) \<times> stream_runtime \<times> 'w" where
  "finishScan env rt w = (case d_load (su_deps env) (rt_name rt) w of
      (Inl e, w1) \<Rightarrow> (Inl (CheckpointAfterScan e), rt, w1)
    | (Inr cp, w1) \<Rightarrow>
        (case d_save (su_deps env) (cp\<lparr>cp_Stream := rt_name rt, cp_SnapshotDone := True,
            cp_SnapshotRowsTotal := cp_SnapshotRowsDone cp\<rparr>) w1 of
           (Some e, w2) \<Rightarrow> (Inl (RecordScanDone e), rt, w2)
         | (None, w2) \<Rightarrow> (case promoteAlias env rt w2 of
               (Some e, rt1, w3) \<Rightarrow> (Inl e, rt1, w3)
             | (None, rt1, w3) \<Rightarrow> (Inr (cp_SnapshotStartGTID cp), rt1, w3))))"

definition runScan ::
    "'w sup_env \<Rightarrow> source_config \<Rightarrow> stream_runtime \<Rightarrow> checkpoint \<Rightarrow> 'w \<Rightarrow>
     ((sup_error + string) \<times> stream_runtime \<times> 'w) option" where
  "runScan env source rt cp w =
     (case (if sc_SnapshotDSN source \<noteq> [] then su_openReplica env (sc_SnapshotDSN source) w else (None, w)) of
        (Some e, w1) \<Rightarrow> Some (Inl (ReplicaUnreachable e), rt, w1)
      | (None, w1) \<Rightarrow> (case newScanner rt cp of
            Inl e \<Rightarrow> Some (Inl e, rt, w1)
          | Inr s \<Rightarrow> (case sup_scan env rt s w1 of
                None \<Rightarrow> None
              | Some ((Some e, s1), rt1, w2) \<Rightarrow> Some (Inl e, rt1, w2)
              | Some ((None, s1), rt1, w2) \<Rightarrow>
                  if \<not> ss_done s1 then Some (Inl ScanInterrupted, rt1, w2)
                  else Some (finishScan env rt1 w2))))"

definition snapshotIfNeeded ::
    "'w sup_env \<Rightarrow> source_config \<Rightarrow> stream_runtime \<Rightarrow> 'w \<Rightarrow> ((sup_error + string) \<times> stream_runtime \<times> 'w) option" where
  "snapshotIfNeeded env source rt w = (case d_load (su_deps env) (rt_name rt) w of
      (Inl (StoreFailed e), w1) \<Rightarrow> Some (Inl (ReadCheckpoint (StoreFailed e)), rt, w1)
    | (loaded, w1) \<Rightarrow>
        (let cp = loadedOrZero loaded
         in if cp_SnapshotDone cp \<and> cp_GTIDSet cp \<noteq> [] then Some (Inr (cp_GTIDSet cp), rt, w1)
            else if \<not> sn_Enabled (sm_Snapshot (rt_cfg rt))
            then (case startWithoutSnapshot env rt cp w1 of (r, w2) \<Rightarrow> Some (r, rt, w2))
            else (case markScanStarted env rt cp w1 of
                (Inl e, rt1, w2) \<Rightarrow> Some (Inl e, rt1, w2)
              | (Inr cp1, rt1, w2) \<Rightarrow> runScan env source rt1 cp1 w2)))"

text \<open>The streams one after the other; each has its own pipeline, hence its own environment.\<close>

fun backfill ::
    "(string \<Rightarrow> 'w sup_env) \<Rightarrow> source_config \<Rightarrow> stream_runtime list \<Rightarrow> 'w \<Rightarrow>
     ((sup_error + (string \<times> string) list) \<times> stream_runtime list \<times> 'w) option" where
  "backfill envs source [] w = Some (Inr [], [], w)"
| "backfill envs source (rt # rts) w = (case snapshotIfNeeded (envs (rt_name rt)) source rt w of
      None \<Rightarrow> None
    | Some (Inl e, rt1, w1) \<Rightarrow> Some (Inl e, rt1 # rts, w1)
    | Some (Inr position, rt1, w1) \<Rightarrow> (case backfill envs source rts w1 of
          None \<Rightarrow> None
        | Some (Inl e, rts1, w2) \<Rightarrow> Some (Inl e, rt1 # rts1, w2)
        | Some (Inr positions, rts1, w2) \<Rightarrow>
            Some (Inr ((rt_name rt, position) # positions), rt1 # rts1, w2)))"

subsection \<open>The pipeline leaves the state of the scan alone\<close>

definition scanState :: "checkpoint \<Rightarrow> string \<times> u64 \<times> bool" where
  "scanState cp = (cp_SnapshotStartGTID cp, cp_SnapshotBaseSeq cp, cp_SnapshotDone cp)"

definition holdsScan :: "('w \<Rightarrow> string \<rightharpoonup> checkpoint) \<Rightarrow> string \<Rightarrow> string \<times> u64 \<times> bool \<Rightarrow> 'w \<Rightarrow> bool" where
  "holdsScan view stream st w \<longleftrightarrow> (\<exists>cp. view w stream = Some cp \<and> scanState cp = st)"

lemma holdsScan_view: "view w' = view w \<Longrightarrow> holdsScan view stream st w' = holdsScan view stream st w"
  by (simp add: holdsScan_def)

text \<open>The sink, the dead letter queue and the clock do not touch the checkpoint store.\<close>

definition quietDeps :: "('w \<Rightarrow> string \<rightharpoonup> checkpoint) \<Rightarrow> 'w deps \<Rightarrow> bool" where
  "quietDeps view d \<longleftrightarrow>
     (\<forall>docs w. view (snd (d_sink d docs w)) = view w) \<and>
     (\<forall>rec rejections w. d_dlq d = Some rec \<longrightarrow> view (snd (rec rejections w)) = view w) \<and>
     (\<forall>w. view (snd (d_now d w)) = view w)"

lemma quiet_sink: "quietDeps view d \<Longrightarrow> d_sink d docs w = (x, w') \<Longrightarrow> view w' = view w"
  unfolding quietDeps_def by (metis snd_conv)

lemma quiet_dlq: "quietDeps view d \<Longrightarrow> d_dlq d = Some rec \<Longrightarrow> rec rejections w = (x, w') \<Longrightarrow> view w' = view w"
  unfolding quietDeps_def by (metis snd_conv)

lemma quiet_now: "quietDeps view d \<Longrightarrow> d_now d w = (x, w') \<Longrightarrow> view w' = view w"
  unfolding quietDeps_def by (metis snd_conv)

lemma scanState_same: "sameCheckpoint cp cp' \<Longrightarrow> scanState cp' = scanState cp"
proof -
  have "scanState (settled c) = scanState c" for c by (simp add: scanState_def settled_def)
  then show "sameCheckpoint cp cp' \<Longrightarrow> scanState cp' = scanState cp" unfolding sameCheckpoint_def by metis
qed

lemma holdsScan_saved:
  assumes "savedAs cp (view w) (view w')" and "scanState cp = st"
  shows "holdsScan view (cp_Stream cp) st w'"
  using assms scanState_same by (auto simp: savedAs_def holdsScan_def)

lemma scanState_advanced: "scanState (advanced r cp) = scanState cp"
  by (simp add: scanState_def advanced_def Let_def)

lemma cp_Stream_advanced: "cp_Stream (advanced r cp) = r_stream r"
  by (simp add: advanced_def Let_def)

context checkpoint_store
begin

lemma saved_holdsScan:
  assumes "save cp w = (e, w')" and "holdsScan view (cp_Stream cp) (scanState cp) w"
  shows "holdsScan view (cp_Stream cp) (scanState cp) w'"
proof (cases e)
  case None
  with assms(1) have "savedAs cp (view w) (view w')" using save_done by simp
  then show ?thesis by (rule holdsScan_saved) simp
next
  case (Some x)
  with assms(1) have "view w' = view w \<or> savedAs cp (view w) (view w')" using save_failed by simp
  then show ?thesis using assms(2) holdsScan_saved [of cp view w w' "scanState cp"] holdsScan_view [of view w' w] by blast
qed

lemma loaded_holdsScan:
  assumes "load stream w = (loaded, w')" and "holdsScan view stream st w" and "\<nexists>e. loaded = Inl (StoreFailed e)"
  shows "holdsScan view stream st w' \<and> scanState (loadedOrZero loaded) = st"
proof -
  have v: "view w' = view w" using load_view [OF assms(1)] .
  obtain cp where cp: "view w stream = Some cp" "scanState cp = st" using assms(2) by (auto simp: holdsScan_def)
  have "loaded \<noteq> Inl ErrNotFound" using load_missing [of stream w w'] assms(1) cp by auto
  then obtain cp' where "loaded = Inr cp'" using assms(3) by (metis old.sum.exhaust store_error.exhaust)
  then show ?thesis using load_found [of stream w cp' w'] assms(1) cp v by (simp add: holdsScan_def loadedOrZero_def)
qed

lemma advance_keeps:
  assumes "d_load d = load" and "d_save d = save" and "holdsScan view (r_stream r) st w" and "advance d r w = (e, r', w')"
  shows "holdsScan view (r_stream r) st w' \<and> r' = r"
proof (cases "r_pendingGTID r = [] \<and> r_pendingCursor r = []")
  case True
  with assms(3,4) show ?thesis by (auto simp: advance_def)
next
  case False
  obtain loaded w1 where l: "load (r_stream r) w = (loaded, w1)" by force
  show ?thesis
  proof (cases "\<exists>x. loaded = Inl (StoreFailed x)")
    case True
    then show ?thesis using False assms l load_view [OF l] by (auto simp: advance_def holdsScan_def)
  next
    case ok: False
    let ?cp = "advanced r (loadedOrZero loaded)"
    note h = loaded_holdsScan [OF l assms(3) ok]
    obtain x w2 where s: "save ?cp w1 = (x, w2)" by force
    have adv: "advance d r w = (map_option (SaveCheckpoint (r_stream r)) x, r, w2)"
      using False ok assms(1,2) l s
      by (auto simp: advance_def split: sum.splits store_error.splits option.splits)
    have "holdsScan view (r_stream r) st w2"
      using saved_holdsScan [OF s] h by (simp add: cp_Stream_advanced scanState_advanced)
    then show ?thesis using assms(4) adv by simp
  qed
qed

end

text \<open>One lemma per operation of the runner, over any store that keeps its contract.\<close>

locale quiet_pipeline = checkpoint_store load save view
  for load :: "'w store_Load" and save :: "'w store_Save" and view :: "'w \<Rightarrow> string \<rightharpoonup> checkpoint" +
  fixes d :: "'w deps"
  assumes uses_load: "d_load d = load" and uses_save: "d_save d = save" and quiet: "quietDeps view d"
begin

definition stays :: "string \<times> u64 \<times> bool \<Rightarrow> runner \<Rightarrow> 'w \<Rightarrow> runner \<Rightarrow> 'w \<Rightarrow> bool" where
  "stays st r w r' w' \<longleftrightarrow> r_stream r' = r_stream r \<and>
     (holdsScan view (r_stream r) st w \<longrightarrow> holdsScan view (r_stream r) st w')"

lemma deadLetter_stays: "deadLetter d rejections r w = (e, r', w') \<Longrightarrow> stays st r w r' w'"
  using quiet_dlq [OF quiet]
  by (auto simp: deadLetter_def stays_def observe_def holdsScan_def split: option.splits prod.splits)

lemma advance_stays: "advance d r w = (e, r', w') \<Longrightarrow> stays st r w r' w'"
  using advance_keeps [OF uses_load uses_save, of r st w e r' w'] advance_def
  unfolding stays_def by (auto simp: advance_def split: if_splits prod.splits sum.splits store_error.splits option.splits)

lemma stays_refl: "stays st r w r w"
  by (simp add: stays_def)

lemma stays_trans: "stays st r w r1 w1 \<Longrightarrow> stays st r1 w1 r2 w2 \<Longrightarrow> stays st r w r2 w2"
  by (simp add: stays_def)

lemma stays_quiet: "view w' = view w \<Longrightarrow> r_stream r' = r_stream r \<Longrightarrow> stays st r w r' w'"
  by (simp add: stays_def holdsScan_def)

lemma write_batch_stays:
  assumes "write_batch d batch r w = (e, r', w')"
  shows "stays st r w r' w'"
proof -
  obtain t1 w1 where n1: "d_now d w = (t1, w1)" by force
  obtain res err w2 where sk: "d_sink d batch w1 = ((res, err), w2)" by (metis prod.exhaust)
  obtain t2 w3 where n2: "d_now d w2 = (t2, w3)" by force
  define r2 where "r2 = observe (ObsWrite (res_Applied res) (res_Stale res) (length (res_Rejected res)) (timeSub t2 t1) (err \<noteq> None))
      (observe (ObsBatch (length batch)) r)"
  have first: "stays st r w r2 w3"
    using quiet_now [OF quiet n1] quiet_sink [OF quiet sk] quiet_now [OF quiet n2]
    by (intro stays_quiet) (simp_all add: r2_def observe_def)
  obtain e3 r3 w4 where dl: "deadLetter d (res_Rejected res) r2 w3 = (e3, r3, w4)" by (rule prod_cases3)
  have rest: "write_batch d batch r w = (case err of
           Some x \<Rightarrow> (Some (WriteFailed (r_stream r) (length batch) x), r2, w3)
         | None \<Rightarrow> if Total res \<noteq> length batch then (Some (OutcomeUnknown (r_stream r) (Total res) (length batch)), r2, w3)
             else if res_Rejected res \<noteq> [] then (case e3 of Some x \<Rightarrow> (Some x, r3, w4) | None \<Rightarrow> advance d r3 w4)
             else advance d r2 w3)"
    by (simp only: write_batch_def n1 sk n2 Let_def prod.case r2_def [symmetric] dl)
  note dls = stays_trans [OF first deadLetter_stays [OF dl]]
  show ?thesis using assms first dls unfolding rest
    by (auto split: option.splits if_splits
        intro: stays_trans [OF dls advance_stays] stays_trans [OF first advance_stays])
qed

lemma flush_stays: "flush_runner d r w = (e, r', w') \<Longrightarrow> stays st r w r' w'"
proof -
  assume a: "flush_runner d r w = (e, r', w')"
  obtain batch b where f: "Flush (r_batcher r) = (batch, b)" by force
  have "stays st r w (r\<lparr>r_batcher := b\<rparr>) w" by (rule stays_quiet) simp_all
  with a f write_batch_stays [of batch "r\<lparr>r_batcher := b\<rparr>" w e r' w' st] show ?thesis
    by (auto simp: flush_runner_def Let_def split: if_splits intro: stays_trans)
qed

lemma readClock_quiet: "readClock d doc b w = (t, w') \<Longrightarrow> view w' = view w"
  using quiet_now [OF quiet] by (auto simp: readClock_def split: if_splits)

lemma addDocs_stays: "addDocs d docs r w = (e, r', w') \<Longrightarrow> stays st r w r' w'"
proof (induction docs arbitrary: r w)
  case Nil
  then show ?case by (simp add: stays_refl)
next
  case (Cons doc docs)
  obtain now w1 where c: "readClock d doc (r_batcher r) w = (now, w1)" by force
  obtain batch b where ad: "Add now doc (r_batcher r) = (batch, b)" by force
  let ?r1 = "r\<lparr>r_batcher := b\<rparr>"
  have first: "stays st r w ?r1 w1" using readClock_quiet [OF c] by (intro stays_quiet) simp_all
  show ?case
  proof (cases "batch = []")
    case True
    with Cons.prems c ad have "addDocs d docs ?r1 w1 = (e, r', w')" by simp
    then show ?thesis by (rule stays_trans [OF first Cons.IH])
  next
    case False
    obtain x r2 w2 where wb: "write_batch d batch ?r1 w1 = (x, r2, w2)" by (rule prod_cases3)
    note second = stays_trans [OF first write_batch_stays [OF wb]]
    from False Cons.prems c ad wb Cons.IH [of r2 w2] second show ?thesis
      by (auto split: option.splits intro: stays_trans)
  qed
qed

lemma handle_stays: "handle d ev r w = (e, r', w') \<Longrightarrow> stays st r w r' w'"
proof -
  assume a: "handle d ev r w = (e, r', w')"
  obtain r1 w1 where o': "observeEvent d ev r w = (r1, w1)" by force
  have "view w1 = view w" "r_stream r1 = r_stream r"
    using o' quiet_now [OF quiet] by (auto simp: observeEvent_def observe_def Let_def split: if_splits prod.splits)
  then have first: "stays st r w (notePosition ev r1) w1"
    by (intro stays_quiet) (simp_all add: notePosition_def Let_def)
  show ?thesis
  proof (cases "Apply (d_env d) (d_plan d) (Some ev)")
    case (Inl x)
    with a show ?thesis by (simp add: handle_def deadLetter_stays)
  next
    case (Inr docs)
    with a o' have "addDocs d docs (notePosition ev r1) w1 = (e, r', w')" by (simp add: handle_def)
    then show ?thesis by (rule stays_trans [OF first addDocs_stays])
  qed
qed

lemma Run_stays: "Run d is r w = (res, r', w') \<Longrightarrow> stays st r w r' w'"
proof (induction "is" arbitrary: r w)
  case Nil
  then show ?case by (simp add: stays_refl)
next
  case (Cons i "is")
  obtain t w1 where arm: "armTimer d r w = (t, w1)" by force
  have first: "stays st r w r w1"
    using arm quiet_now [OF quiet] by (intro stays_quiet) (auto simp: armTimer_def split: option.splits prod.splits)
  obtain e2 r2 w2 where fl: "flush_runner d r w1 = (e2, r2, w2)" by (rule prod_cases3)
  note flushed = stays_trans [OF first flush_stays [OF fl]]
  show ?case
  proof (cases i)
    case (Recv ev)
    obtain e3 r3 w3 where h: "handle d ev r w1 = (e3, r3, w3)" by (rule prod_cases3)
    note handled = stays_trans [OF first handle_stays [OF h]]
    show ?thesis using Cons.prems Recv arm h handled Cons.IH [of r3 w3]
      by (auto split: option.splits intro: stays_trans)
  next
    case Tick
    show ?thesis using Cons.prems Tick arm fl first flushed Cons.IH [of r2 w2] Cons.IH [of r w1]
      by (auto split: option.splits if_splits intro: stays_trans)
  next
    case Closed
    show ?thesis using Cons.prems Closed arm fl flushed by auto
  next
    case Cancelled
    show ?thesis using Cons.prems Cancelled arm fl first flushed by (auto simp: drain_def split: if_splits)
  qed
qed

end

interpretation qp: quiet_pipeline ms_Load "ms_Save 0" ms_data exampleDeps
  by unfold_locales (auto simp: exampleDeps_def quietDeps_def exampleSink_def)

subsection \<open>The life of a scan\<close>

text \<open>Nothing but the store's own calls touches the checkpoints.\<close>

definition quietEnv :: "('w \<Rightarrow> string \<rightharpoonup> checkpoint) \<Rightarrow> 'w sup_env \<Rightarrow> bool" where
  "quietEnv view env \<longleftrightarrow> quietDeps view (su_deps env) \<and>
     (\<forall>w. view (snd (su_gtidExecuted env w)) = view w) \<and>
     (\<forall>a b w. view (snd (su_tableRows env a b w)) = view w) \<and>
     (\<forall>dsn w. view (snd (su_openReplica env dsn w)) = view w) \<and>
     (\<forall>s w evs s' w'. sc_Events (su_scan env) s w = Some (evs, s', w') \<longrightarrow> view w' = view w) \<and>
     (\<forall>verb url body auth w. view (snd (ae_do (su_admin env) verb url body auth w)) = view w)"

locale quiet_supervisor = quiet_pipeline load save view "su_deps env"
  for load :: "'w store_Load" and save :: "'w store_Save" and view :: "'w \<Rightarrow> string \<rightharpoonup> checkpoint" and env :: "'w sup_env" +
  assumes quiet_env: "quietEnv view env"
begin

lemma quiet_es_do: "es_do (su_admin env) verb path body s w = (resp, s1, w1) \<Longrightarrow> view w1 = view w"
  using es_do_sends quiet_env unfolding quietEnv_def by (metis snd_conv)

lemma quiet_putSettings: "putSettings (su_admin env) body s w = (e, s1, w1) \<Longrightarrow> view w1 = view w"
  by (auto simp: putSettings_def split: prod.splits sum.splits dest: quiet_es_do)

lemma quiet_aliasTargets: "aliasTargets (su_admin env) s w = (r, s1, w1) \<Longrightarrow> view w1 = view w"
  by (auto simp: aliasTargets_def split: prod.splits sum.splits if_splits dest: quiet_es_do)

lemma quiet_BeginBulkLoad: "BeginBulkLoad (su_admin env) s w = (r, s1, w1) \<Longrightarrow> view w1 = view w"
  by (auto simp: BeginBulkLoad_def Let_def split: prod.splits sum.splits option.splits dest!: quiet_es_do quiet_putSettings)

lemma quiet_EndBulkLoad: "EndBulkLoad (su_admin env) l s w = (r, s1, w1) \<Longrightarrow> view w1 = view w"
  by (auto simp: EndBulkLoad_def split: prod.splits sum.splits option.splits if_splits dest!: quiet_es_do quiet_putSettings)

lemma quiet_ForceMerge: "ForceMerge (su_admin env) s w = (r, s1, w1) \<Longrightarrow> view w1 = view w"
  by (auto simp: ForceMerge_def split: prod.splits sum.splits dest: quiet_es_do)

lemma quiet_PromoteAlias: "PromoteAlias (su_admin env) s w = (r, s1, w1) \<Longrightarrow> view w1 = view w"
  by (auto simp: PromoteAlias_def Let_def split: prod.splits sum.splits if_splits dest!: quiet_es_do quiet_aliasTargets)

lemma quiet_beginBulkLoad:
  "beginBulkLoad env rt w = (l, rt1, w1) \<Longrightarrow> view w1 = view w \<and> rt_runner rt1 = rt_runner rt \<and> rt_cfg rt1 = rt_cfg rt"
  by (auto simp: beginBulkLoad_def withEs_def split: built_sink.splits if_splits prod.splits sum.splits
      dest!: quiet_aliasTargets quiet_BeginBulkLoad)

lemma quiet_endBulkLoad: "endBulkLoad env l rt w = (rt1, w1) \<Longrightarrow> view w1 = view w \<and> rt_cfg rt1 = rt_cfg rt"
  by (auto simp: endBulkLoad_def withEs_def split: built_sink.splits if_splits prod.splits dest!: quiet_EndBulkLoad)

lemma quiet_mergeScanned: "mergeScanned env l rt w = (rt1, w1) \<Longrightarrow> view w1 = view w \<and> rt_cfg rt1 = rt_cfg rt"
  by (auto simp: mergeScanned_def withEs_def split: built_sink.splits if_splits prod.splits dest!: quiet_ForceMerge)

lemma quiet_promoteAlias: "promoteAlias env rt w = (e, rt1, w1) \<Longrightarrow> view w1 = view w \<and> rt_cfg rt1 = rt_cfg rt"
  by (auto simp: promoteAlias_def withEs_def split: built_sink.splits if_splits prod.splits sum.splits option.splits
      dest!: quiet_aliasTargets quiet_PromoteAlias)

lemma quiet_currentPosition: "currentPosition env w = (r, w1) \<Longrightarrow> view w1 = view w \<and> r \<noteq> Inr []"
proof -
  assume a: "currentPosition env w = (r, w1)"
  have "view (snd (su_gtidExecuted env w)) = view w" using quiet_env by (simp add: quietEnv_def)
  moreover have "trimSpace [] = []" by (simp add: trimSpace_def trimRight_def)
  ultimately show ?thesis using a by (auto simp: currentPosition_def Let_def split: prod.splits sum.splits if_splits)
qed

lemma quiet_estimateRows: "estimateRows env meta w = (n, w1) \<Longrightarrow> view w1 = view w"
proof -
  assume a: "estimateRows env meta w = (n, w1)"
  have "view (snd (su_tableRows env (tm_Schema meta) (tm_Table meta) w)) = view w" using quiet_env by (simp add: quietEnv_def)
  then show ?thesis using a by (auto simp: estimateRows_def split: prod.splits sum.splits option.splits)
qed

text \<open>The scan ran to its end, its events through the pipeline without an error, from the recorded start.\<close>

definition scannedFrom :: "stream_runtime \<Rightarrow> string \<Rightarrow> u64 \<Rightarrow> bool" where
  "scannedFrom rt start base \<longleftrightarrow> (\<exists>s evs s1 w0 w1 r2 w2 dn.
     holdsScan view (rt_name rt) (start, base, dn) w0 \<and> so_BaseSeq (ss_opts s) = base \<and>
     sc_Events (su_scan env) s w0 = Some (evs, s1, w1) \<and> ss_done s1 \<and> ss_err s1 = None \<and>
     Run (su_deps env) (su_script env evs) (rt_runner rt) w1 = (Returned None, r2, w2))"

lemma sup_scan_spec:
  assumes "sup_scan env rt s w = Some ((e, s1), rt1, w')" and "r_stream (rt_runner rt) = rt_name rt"
    and "holdsScan view (rt_name rt) st w"
  shows "rt_cfg rt1 = rt_cfg rt \<and> holdsScan view (rt_name rt) st w' \<and>
     (e = None \<and> ss_done s1 \<longrightarrow> (\<exists>evs w0 w1 r2 w2. holdsScan view (rt_name rt) st w0 \<and>
        sc_Events (su_scan env) s w0 = Some (evs, s1, w1) \<and> ss_err s1 = None \<and>
        Run (su_deps env) (su_script env evs) (rt_runner rt) w1 = (Returned None, r2, w2)))"
proof -
  obtain load rt0 w0 where b: "beginBulkLoad env rt w = (load, rt0, w0)" by (rule prod_cases3)
  note b' = quiet_beginBulkLoad [OF b]
  obtain x r w2 where dr: "driveScan env s (rt_runner rt0) w0 = Some ((x, s1), r, w2)"
    and e: "e = (case x of Some y \<Rightarrow> Some (PipelineFailed y) | None \<Rightarrow> map_option ScanFailed (ss_err s1))"
    using assms(1) b by (auto simp: sup_scan_def Let_def split: option.splits prod.splits)
  obtain evs w1 where ev: "sc_Events (su_scan env) s w0 = Some (evs, s1, w1)"
    and run: "Run (su_deps env) (su_script env evs) (rt_runner rt) w1 = (Returned x, r, w2)"
    using dr b' by (auto simp: driveScan_def split: option.splits prod.splits run_result.splits)
  have v1: "view w1 = view w0" using ev quiet_env unfolding quietEnv_def by blast
  have h0: "holdsScan view (rt_name rt) st w0" using assms(3) b' by (simp add: holdsScan_def)
  have h2: "holdsScan view (rt_name rt) st w2"
    using Run_stays [OF run, of st] h0 v1 assms(2) by (simp add: stays_def holdsScan_def)
  obtain rt3 w3 where m: "(if e = None \<and> ss_done s1 then mergeScanned env load (rt0\<lparr>rt_runner := r\<rparr>) w2
      else (rt0\<lparr>rt_runner := r\<rparr>, w2)) = (rt3, w3)" by force
  have "view w3 = view w2 \<and> rt_cfg rt3 = rt_cfg rt"
    using m quiet_mergeScanned [of load "rt0\<lparr>rt_runner := r\<rparr>" w2 rt3 w3] b' by (auto split: if_splits)
  moreover have "endBulkLoad env load rt3 w3 = (rt1, w')"
    using assms(1) b dr m e by (auto simp: sup_scan_def Let_def split: prod.splits)
  ultimately have "rt_cfg rt1 = rt_cfg rt \<and> holdsScan view (rt_name rt) st w'"
    using quiet_endBulkLoad [of load rt3 w3 rt1 w'] h2 by (simp add: holdsScan_def)
  moreover have "ss_err s1 = None \<and> x = None" if "e = None" using e that by (auto split: option.splits)
  ultimately show ?thesis using h0 ev run by blast
qed

lemma finishScan_spec:
  assumes "finishScan env rt w = (r, rt', w')" and "holdsScan view (rt_name rt) (g, b, dn) w"
  shows "(\<exists>dn'. holdsScan view (rt_name rt) (g, b, dn') w') \<and>
    (\<forall>pos. r = Inr pos \<longrightarrow> pos = g \<and> holdsScan view (rt_name rt) (g, b, True) w')"
proof -
  obtain loaded w1 where l: "load (rt_name rt) w = (loaded, w1)" by force
  note v1 = load_view [OF l]
  show ?thesis
  proof (cases loaded)
    case (Inl e)
    then show ?thesis using assms l v1 uses_load by (auto simp: finishScan_def holdsScan_def)
  next
    case (Inr cp)
    have cp: "view w (rt_name rt) = Some cp" "scanState cp = (g, b, dn)"
      using load_found [of "rt_name rt" w cp w1] l Inr assms(2) by (auto simp: holdsScan_def)
    let ?cp = "cp\<lparr>cp_Stream := rt_name rt, cp_SnapshotDone := True, cp_SnapshotRowsTotal := cp_SnapshotRowsDone cp\<rparr>"
    have st: "scanState ?cp = (g, b, True)" "cp_Stream ?cp = rt_name rt" using cp(2) by (simp_all add: scanState_def)
    obtain e w2 where sv: "save ?cp w1 = (e, w2)" by force
    have h1: "holdsScan view (rt_name rt) (g, b, dn) w1" using assms(2) v1 by (simp add: holdsScan_def)
    have h2: "holdsScan view (rt_name rt) (g, b, True) w2 \<or> e \<noteq> None \<and> holdsScan view (rt_name rt) (g, b, dn) w2"
      using save_done [of ?cp w1 w2] save_failed [of ?cp w1 _ w2] sv h1 st holdsScan_saved [of ?cp view w1 w2 "(g, b, True)"]
        holdsScan_view [of view w2 w1] by (cases e) auto
    show ?thesis
    proof (cases e)
      case (Some x)
      then have "r = Inl (RecordScanDone x)" "w' = w2"
        using assms(1) l Inr sv uses_load uses_save by (auto simp: finishScan_def)
      then show ?thesis using h2 by auto
    next
      case None
      obtain e3 rt3 w3 where p: "promoteAlias env rt w2 = (e3, rt3, w3)" by (rule prod_cases3)
      have "w' = w3" "\<forall>pos. r = Inr pos \<longrightarrow> pos = cp_SnapshotStartGTID cp"
        using assms(1) l Inr sv None p uses_load uses_save by (auto simp: finishScan_def split: option.splits)
      moreover have "holdsScan view (rt_name rt) (g, b, True) w3"
        using h2 None quiet_promoteAlias [OF p] by (simp add: holdsScan_def)
      ultimately show ?thesis using cp(2) by (auto simp: scanState_def)
    qed
  qed
qed

lemma newScanner_opts: "newScanner rt cp = Inr s \<Longrightarrow> so_BaseSeq (ss_opts s) = cp_SnapshotBaseSeq cp"
  by (auto simp: newScanner_def sc_New_def split: sum.splits if_splits option.splits)

lemma runScan_spec:
  assumes "runScan env source rt cp w = Some (r, rt', w')" and "r_stream (rt_runner rt) = rt_name rt"
    and "holdsScan view (rt_name rt) (g, cp_SnapshotBaseSeq cp, dn) w"
  shows "(\<exists>dn'. holdsScan view (rt_name rt) (g, cp_SnapshotBaseSeq cp, dn') w') \<and>
    (\<forall>pos. r = Inr pos \<longrightarrow> pos = g \<and> holdsScan view (rt_name rt) (g, cp_SnapshotBaseSeq cp, True) w' \<and>
       scannedFrom rt g (cp_SnapshotBaseSeq cp))"
proof -
  let ?st = "(g, cp_SnapshotBaseSeq cp, dn)"
  obtain oe w1 where rep: "(if sc_SnapshotDSN source \<noteq> [] then su_openReplica env (sc_SnapshotDSN source) w else (None, w)) = (oe, w1)"
    by force
  have "view (snd (su_openReplica env dsn w)) = view w" for dsn using quiet_env by (simp add: quietEnv_def)
  then have "view w1 = view w" using rep by (metis snd_conv)
  then have h1: "holdsScan view (rt_name rt) ?st w1" using assms(3) by (simp add: holdsScan_def)
  show ?thesis
  proof (cases "oe = None \<and> (\<exists>s. newScanner rt cp = Inr s)")
    case False
    then show ?thesis using assms(1) rep h1 by (auto simp: runScan_def split: option.splits sum.splits)
  next
    case True
    then obtain s where s: "newScanner rt cp = Inr s" and oe: "oe = None" by blast
    obtain e s1 rt1 w2 where sc: "sup_scan env rt s w1 = Some ((e, s1), rt1, w2)"
      using assms(1) rep s oe by (auto simp: runScan_def split: option.splits)
    note spec = sup_scan_spec [OF sc assms(2) h1]
    show ?thesis
    proof (cases "e = None \<and> ss_done s1")
      case False
      then show ?thesis using assms(1) rep s oe sc spec by (auto simp: runScan_def split: option.splits if_splits)
    next
      case True
      then have fin: "finishScan env rt1 w2 = (r, rt', w')" using assms(1) rep s oe sc by (auto simp: runScan_def)
      have "holdsScan view (rt_name rt1) ?st w2" using spec by simp
      note f = finishScan_spec [OF fin this]
      have "scannedFrom rt g (cp_SnapshotBaseSeq cp)"
        using spec True newScanner_opts [OF s] unfolding scannedFrom_def by blast
      then show ?thesis using f spec by auto
    qed
  qed
qed

lemma Next_same_state:
  assumes "Next load save now a w = (r, a', w')" and "a_stream a = stream" and "holdsScan view stream st w"
  shows "holdsScan view stream st w'"
proof (cases "a_end a < a_next a")
  case False
  with assms show ?thesis by (auto simp: Next_def)
next
  case True
  obtain q a1 w2 where res: "reserve load save now a w = (q, a1, w2)" by (rule prod_cases3)
  obtain loaded w1 where l: "load stream w = (loaded, w1)" by force
  note v1 = load_view [OF l]
  have h1: "holdsScan view stream st w1" using assms(3) v1 by (simp add: holdsScan_def)
  have "holdsScan view stream st w2"
  proof (cases "w2 = w1")
    case True
    then show ?thesis using h1 by simp
  next
    case False
    obtain cp0 where cp0: "view w stream = Some cp0" "scanState cp0 = st" using assms(3) by (auto simp: holdsScan_def)
    have "loaded \<noteq> Inl ErrNotFound" using load_missing [of stream w w1] l cp0 by auto
    then obtain cp where cp: "loaded = Inr cp" using False res l assms(2)
      by (auto simp: reserve_def split: sum.splits store_error.splits)
    have "scanState cp = st" using load_found [of stream w cp w1] l cp cp0 by simp
    then obtain cp' e where "save cp' w1 = (e, w2)" "scanState cp' = st" "cp_Stream cp' = stream"
      using False res l cp assms(2)
      by (auto simp: reserve_def Let_def scanState_def split: if_splits prod.splits option.splits)
    then show ?thesis using saved_holdsScan [of cp' w1 e w2] h1 by simp
  qed
  then show ?thesis using assms(1) True res by (auto simp: Next_def split: sum.splits)
qed

lemma markScanStarted_spec:
  assumes "markScanStarted env rt cp w = (Inr cp1, rt1, w')"
    and "cp_SnapshotStartGTID cp \<noteq> [] \<Longrightarrow> holdsScan view (rt_name rt) (scanState cp) w"
  shows "holdsScan view (rt_name rt) (scanState cp1) w' \<and> cp_SnapshotStartGTID cp1 \<noteq> [] \<and>
    rt_cfg rt1 = rt_cfg rt \<and> rt_runner rt1 = rt_runner rt \<and> (cp_SnapshotStartGTID cp \<noteq> [] \<longrightarrow> cp1 = cp)"
proof (cases "cp_SnapshotStartGTID cp = []")
  case False
  with assms show ?thesis by (auto simp: markScanStarted_def)
next
  case True
  obtain position w1 where pos: "currentPosition env w = (Inr position, w1)"
    using True assms(1) by (auto simp: markScanStarted_def split: prod.splits sum.splits)
  obtain baseSeq a w2 where nx: "Next load save (su_time env w1) (rt_alloc rt) w1 = (Inr baseSeq, a, w2)"
    using True assms(1) pos uses_load uses_save by (auto simp: markScanStarted_def split: prod.splits sum.splits)
  obtain total w3 where est: "estimateRows env (rt_meta rt) w2 = (total, w3)" by force
  let ?cp = "cp\<lparr>cp_Stream := rt_name rt, cp_SnapshotStartGTID := position, cp_SnapshotBaseSeq := baseSeq,
      cp_SnapshotRowsTotal := total\<rparr>"
  have sv: "save ?cp w3 = (None, w')" and cp1: "cp1 = ?cp" "rt1 = rt\<lparr>rt_alloc := a\<rparr>"
    using True assms(1) pos nx est uses_load uses_save
    by (auto simp: markScanStarted_def Let_def split: prod.splits option.splits)
  have "holdsScan view (rt_name rt) (scanState ?cp) w'"
    using holdsScan_saved [OF save_done [OF sv], of "scanState ?cp"] by simp
  then show ?thesis using cp1 True quiet_currentPosition [OF pos] by auto
qed

lemma snapshotIfNeeded_spec:
  assumes run: "snapshotIfNeeded env source rt w = Some (r, rt', w')"
    and stream: "r_stream (rt_runner rt) = rt_name rt" and enabled: "sn_Enabled (sm_Snapshot (rt_cfg rt))"
  shows "(view w (rt_name rt) = Some cp \<longrightarrow> cp_SnapshotStartGTID cp \<noteq> [] \<longrightarrow>
      (\<exists>dn. holdsScan view (rt_name rt) (cp_SnapshotStartGTID cp, cp_SnapshotBaseSeq cp, dn) w')) \<and>
    (r = Inr pos \<longrightarrow>
      (\<exists>cp'. view w (rt_name rt) = Some cp' \<and> view w' (rt_name rt) = Some cp' \<and> cp_SnapshotDone cp' \<and> pos = cp_GTIDSet cp') \<or>
      (\<exists>b. holdsScan view (rt_name rt) (pos, b, True) w' \<and> scannedFrom rt pos b))"
proof -
  obtain loaded w1 where l: "load (rt_name rt) w = (loaded, w1)" by force
  note v1 = load_view [OF l]
  let ?c = "loadedOrZero loaded"
  show ?thesis
  proof (cases "\<exists>e. loaded = Inl (StoreFailed e)")
    case True
    then have "r \<noteq> Inr pos" "w' = w1" using run l uses_load by (auto simp: snapshotIfNeeded_def)
    then show ?thesis using v1 by (auto simp: holdsScan_def scanState_def)
  next
    case ok: False
    have found: "view w (rt_name rt) = Some ?c \<or> ?c = zeroCheckpoint \<and> view w (rt_name rt) = None"
      using ok l load_found [of "rt_name rt" w _ w1] load_missing [of "rt_name rt" w w1]
      by (cases loaded) (auto simp: loadedOrZero_def, metis store_error.exhaust)
    have snap: "snapshotIfNeeded env source rt w =
        (if cp_SnapshotDone ?c \<and> cp_GTIDSet ?c \<noteq> [] then Some (Inr (cp_GTIDSet ?c), rt, w1)
         else (case markScanStarted env rt ?c w1 of
                (Inl e, rt1, w2) \<Rightarrow> Some (Inl e, rt1, w2)
              | (Inr cp1, rt1, w2) \<Rightarrow> runScan env source rt1 cp1 w2))"
      using ok l enabled uses_load
      by (auto simp: snapshotIfNeeded_def Let_def split: sum.splits store_error.splits)
    show ?thesis
    proof (cases "cp_SnapshotDone ?c \<and> cp_GTIDSet ?c \<noteq> []")
      case True
      then have "r = Inr (cp_GTIDSet ?c)" "w' = w1" using run snap by simp_all
      moreover have "view w (rt_name rt) = Some ?c" using found True by (auto simp: zeroCheckpoint_def)
      ultimately show ?thesis using v1 True by (auto simp: holdsScan_def scanState_def)
    next
      case scan: False
      obtain m rt1 w2 where mk: "markScanStarted env rt ?c w1 = (m, rt1, w2)" by (rule prod_cases3)
      have pre: "holdsScan view (rt_name rt) (scanState ?c) w1" if "cp_SnapshotStartGTID ?c \<noteq> []"
        using found that v1 by (auto simp: holdsScan_def zeroCheckpoint_def)
      show ?thesis
      proof (cases m)
        case (Inl e)
        have "r = Inl e" "w' = w2" using run snap scan mk Inl by simp_all
        moreover have "w2 = w1" if "cp_SnapshotStartGTID ?c \<noteq> []" using mk Inl that by (simp add: markScanStarted_def)
        ultimately show ?thesis using found pre by (auto simp: scanState_def)
      next
        case (Inr cp1)
        note ms = markScanStarted_spec [OF mk [unfolded Inr] pre]
        have rs: "runScan env source rt1 cp1 w2 = Some (r, rt', w')" using run snap scan mk Inr by simp
        have "holdsScan view (rt_name rt1) (cp_SnapshotStartGTID cp1, cp_SnapshotBaseSeq cp1, cp_SnapshotDone cp1) w2"
          using ms by (simp add: scanState_def)
        from runScan_spec [OF rs _ this] ms stream
        have "(\<exists>dn'. holdsScan view (rt_name rt) (cp_SnapshotStartGTID cp1, cp_SnapshotBaseSeq cp1, dn') w') \<and>
            (r = Inr pos \<longrightarrow> pos = cp_SnapshotStartGTID cp1 \<and>
              holdsScan view (rt_name rt) (cp_SnapshotStartGTID cp1, cp_SnapshotBaseSeq cp1, True) w' \<and>
              scannedFrom rt1 (cp_SnapshotStartGTID cp1) (cp_SnapshotBaseSeq cp1))" by auto
        moreover have "scannedFrom rt1 = scannedFrom rt" using ms by (simp add: scannedFrom_def fun_eq_iff)
        ultimately show ?thesis using ms found by auto
      qed
    qed
  qed
qed

end

text \<open>What a stream's backfill may rely on, written out for any environment.\<close>

lemma quiet_supervisorI:
  assumes "checkpoint_store (d_load (su_deps env)) (d_save (su_deps env)) view" and "quietEnv view env"
  shows "quiet_supervisor (d_load (su_deps env)) (d_save (su_deps env)) view env"
  using assms by (simp add: quiet_supervisor_def quiet_supervisor_axioms_def quiet_pipeline_def quiet_pipeline_axioms_def quietEnv_def)

subsection \<open>Properties\<close>

text \<open>
  C6: A stream streams only after a complete scan, and a scan that was interrupted goes on as it began.
  Over any store that keeps its contract: when a stream with snapshots enabled is given a position to
  stream from, its checkpoint says that the scan is done, and either it said so before and the position
  is the one it holds, or the scan has just read to its end without an error, all of its events went
  through the pipeline without an error, its version is the recorded base version, and the position is
  the one that had been recorded before the scan read its first row.  However the attempt ends, a
  start position and a base version that were recorded earlier are still the recorded ones.
\<close>

theorem backfill_scans_first:
  assumes store: "checkpoint_store (d_load (su_deps env)) (d_save (su_deps env)) view" and quiet: "quietEnv view env"
    and run: "snapshotIfNeeded env source rt w = Some (r, rt', w')"
    and stream: "r_stream (rt_runner rt) = rt_name rt" and enabled: "sn_Enabled (sm_Snapshot (rt_cfg rt))"
  shows "(\<forall>cp. view w (rt_name rt) = Some cp \<longrightarrow> cp_SnapshotStartGTID cp \<noteq> [] \<longrightarrow>
      (\<exists>cp'. view w' (rt_name rt) = Some cp' \<and> cp_SnapshotStartGTID cp' = cp_SnapshotStartGTID cp \<and>
         cp_SnapshotBaseSeq cp' = cp_SnapshotBaseSeq cp)) \<and>
    (\<forall>pos. r = Inr pos \<longrightarrow> (\<exists>cp'. view w' (rt_name rt) = Some cp' \<and> cp_SnapshotDone cp' \<and>
      (view w (rt_name rt) = Some cp' \<and> pos = cp_GTIDSet cp' \<or>
       pos = cp_SnapshotStartGTID cp' \<and>
       (\<exists>s evs s1 w0 w1 r2 w2 cp0. view w0 (rt_name rt) = Some cp0 \<and> cp_SnapshotStartGTID cp0 = pos \<and>
          so_BaseSeq (ss_opts s) = cp_SnapshotBaseSeq cp' \<and>
          sc_Events (su_scan env) s w0 = Some (evs, s1, w1) \<and> ss_done s1 \<and> ss_err s1 = None \<and>
          Run (su_deps env) (su_script env evs) (rt_runner rt) w1 = (Returned None, r2, w2)))))"
proof -
  note sup = quiet_supervisorI [OF store quiet]
  note spec = quiet_supervisor.snapshotIfNeeded_spec [OF sup run stream enabled]
  show ?thesis
  proof (intro conjI allI impI)
    fix cp
    assume "view w (rt_name rt) = Some cp" and "cp_SnapshotStartGTID cp \<noteq> []"
    then show "\<exists>cp'. view w' (rt_name rt) = Some cp' \<and> cp_SnapshotStartGTID cp' = cp_SnapshotStartGTID cp \<and>
         cp_SnapshotBaseSeq cp' = cp_SnapshotBaseSeq cp"
      using spec [of cp "[]"] by (auto simp: holdsScan_def scanState_def)
  next
    fix pos
    assume "r = Inr pos"
    with spec [of undefined pos] consider
        cp' where "view w (rt_name rt) = Some cp'" "view w' (rt_name rt) = Some cp'" "cp_SnapshotDone cp'" "pos = cp_GTIDSet cp'"
      | b where "holdsScan view (rt_name rt) (pos, b, True) w'" "quiet_supervisor.scannedFrom view env rt pos b" by blast
    then show "\<exists>cp'. view w' (rt_name rt) = Some cp' \<and> cp_SnapshotDone cp' \<and>
      (view w (rt_name rt) = Some cp' \<and> pos = cp_GTIDSet cp' \<or>
       pos = cp_SnapshotStartGTID cp' \<and>
       (\<exists>s evs s1 w0 w1 r2 w2 cp0. view w0 (rt_name rt) = Some cp0 \<and> cp_SnapshotStartGTID cp0 = pos \<and>
          so_BaseSeq (ss_opts s) = cp_SnapshotBaseSeq cp' \<and>
          sc_Events (su_scan env) s w0 = Some (evs, s1, w1) \<and> ss_done s1 \<and> ss_err s1 = None \<and>
          Run (su_deps env) (su_script env evs) (rt_runner rt) w1 = (Returned None, r2, w2)))"
    proof cases
      case 1
      then show ?thesis by blast
    next
      case 2
      obtain cp' where cp': "view w' (rt_name rt) = Some cp'" "cp_SnapshotDone cp'" "pos = cp_SnapshotStartGTID cp'" "cp_SnapshotBaseSeq cp' = b"
        using 2(1) by (auto simp: holdsScan_def scanState_def)
      obtain s evs s1 w0 w1 r2 w2 cp0 where "view w0 (rt_name rt) = Some cp0" "cp_SnapshotStartGTID cp0 = pos"
        "so_BaseSeq (ss_opts s) = b" "sc_Events (su_scan env) s w0 = Some (evs, s1, w1)" "ss_done s1" "ss_err s1 = None"
        "Run (su_deps env) (su_script env evs) (rt_runner rt) w1 = (Returned None, r2, w2)"
        using 2(2) unfolding quiet_supervisor.scannedFrom_def [OF sup] by (auto simp: holdsScan_def scanState_def)
      with cp' show ?thesis by blast
    qed
  qed
qed

text \<open>A stream over an empty table, with its checkpoints in memory.\<close>

definition emptyScanEnv :: "memory_store scan_env" where
  "emptyScanEnv = \<lparr>se_go = exampleEnv, se_formatTime = (\<lambda>_. []), se_decimal = (\<lambda>_. Inl []), se_parseFloat = (\<lambda>_. Inl []),
     se_conn = (\<lambda>w. (None, w)), se_query = (\<lambda>_ _ w. (Inr ([], None), w)), se_send = (\<lambda>_ w. (True, w)),
     se_pace = (\<lambda>_ _ w. (False, w))\<rparr>"

definition exampleSupEnv :: "memory_store sup_env" where
  "exampleSupEnv = \<lparr>su_deps = exampleDeps, su_scan = emptyScanEnv, su_script = (\<lambda>evs. map Recv evs @ [Closed]),
     su_time = (\<lambda>_. 0), su_gtidExecuted = (\<lambda>w. (Inr ''uuid:1-9'', w)), su_tableRows = (\<lambda>_ _ w. (Inr (Some 7), w)),
     su_openReplica = (\<lambda>_ w. (None, w)),
     su_admin = \<lparr>ae_do = (\<lambda>_ _ _ _ w. (Answered 500 [], w)), ae_aliasNames = (\<lambda>_. Inr []), ae_settings = (\<lambda>_. Inr []),
       ae_mappings = (\<lambda>_. Inr [])\<rparr>\<rparr>"

definition exampleSource :: source_config where
  "exampleSource = \<lparr>sc_DSN = ''dsn'', sc_ServerID = 7, sc_SnapshotDSN = [], sc_TimeZone = ''UTC'', sc_HeartbeatPeriod = 1,
     sc_ReadTimeout = 1, sc_TLS = []\<rparr>"

definition exampleStream :: stream_config where
  "exampleStream = \<lparr>sm_Name = ''s'', sm_Table = ''shop.orders'',
     sm_Snapshot = \<lparr>sn_EnabledRaw = None, sn_ChunkSizeRaw = None, sn_MaxRateRowsPerSecRaw = None, sn_Enabled = True,
       sn_ChunkSize = 2, sn_MaxRateRowsPerSec = 0\<rparr>,
     sm_Batch = \<lparr>bc_MaxRowsRaw = None, bc_MaxBytesRaw = None, bc_FlushInterval = 1000, bc_MaxRows = 10, bc_MaxBytes = 40\<rparr>,
     sm_Sink = \<lparr>sk_Type = ''elasticsearch'', sk_WorkersRaw = None, sk_Workers = 1, sk_Addresses = [''http://es''],
       sk_Index = ''orders_v2'', sk_Alias = [], sk_DSN = [], sk_Table = []\<rparr>,
     sm_Mapping = exampleMapping\<rparr>"

definition exampleRuntime :: stream_runtime where
  "exampleRuntime = \<lparr>rt_cfg = exampleStream, rt_meta = exampleTable, rt_sink = EsSink exampleAliasSink,
     rt_alloc = exampleAllocator, rt_runner = exampleRunner\<rparr>"

lemma example_scan_ends: "sc_Events emptyScanEnv s w = Some (evs, s', w') \<Longrightarrow> w' = w"
proof -
  have "scanLoop emptyScanEnv s cursor out w = Some (None, out, s, w)" for s cursor out w
    by (subst scanLoop.simps) (simp add: readChunk_def emptyScanEnv_def split_beta)
  then show "sc_Events emptyScanEnv s w = Some (evs, s', w') \<Longrightarrow> w' = w"
    by (auto simp: sc_Events_def scan_run_def emptyScanEnv_def split: sum.splits)
qed

lemma example_quietEnv: "quietEnv ms_data exampleSupEnv"
  using qp.quiet by (auto simp: quietEnv_def exampleSupEnv_def dest: example_scan_ends)

interpretation qs: quiet_supervisor ms_Load "ms_Save 0" ms_data exampleSupEnv
  using quiet_supervisorI [of exampleSupEnv ms_data] ms_contract [of 0] example_quietEnv
  by (simp add: exampleSupEnv_def exampleDeps_def)

lemma example_snapshot:
  "map_option fst (snapshotIfNeeded exampleSupEnv exampleSource exampleRuntime NewMemoryStore) = Some (Inr ''uuid:1-9'')"
  by code_simp

theorem backfill_scans_first_witness:
  "\<exists>rt' w' cp'. snapshotIfNeeded exampleSupEnv exampleSource exampleRuntime NewMemoryStore = Some (Inr ''uuid:1-9'', rt', w') \<and>
     ms_data w' ''s'' = Some cp' \<and> cp_SnapshotDone cp' \<and> cp_SnapshotStartGTID cp' = ''uuid:1-9''"
proof -
  obtain rt' w' where run: "snapshotIfNeeded exampleSupEnv exampleSource exampleRuntime NewMemoryStore = Some (Inr ''uuid:1-9'', rt', w')"
    using example_snapshot by (auto simp: map_option_case split: option.splits)
  have store: "checkpoint_store (d_load (su_deps exampleSupEnv)) (d_save (su_deps exampleSupEnv)) ms_data"
    using ms_contract [of 0] by (simp add: exampleSupEnv_def exampleDeps_def)
  have "r_stream (rt_runner exampleRuntime) = rt_name exampleRuntime" "sn_Enabled (sm_Snapshot (rt_cfg exampleRuntime))"
    by (simp_all add: exampleRuntime_def exampleStream_def exampleRunner_def NewRunner_def NewBatcher_def)
  note f = backfill_scans_first [OF store example_quietEnv run this]
  moreover have "ms_data NewMemoryStore ''s'' = None" by (simp add: NewMemoryStore_def)
  ultimately show ?thesis using run by (auto simp: exampleRuntime_def exampleStream_def)
qed

text \<open>
  Starting a scan forgets the reservation of its version.  The checkpoint that records the start was loaded
  before the version was reserved, and saving it puts the watermark back to what it was before.
\<close>

theorem scan_start_forgets_reservation:
  assumes "checkpoint_store (d_load (su_deps env)) (d_save (su_deps env)) view"
    and "markScanStarted env rt cp w = (Inr cp1, rt1, w')" and "cp_SnapshotStartGTID cp = []"
  shows "watermark (view w') (rt_name rt) = unat (cp_SeqWatermark cp)"
proof -
  obtain w3 cp2 where "d_save (su_deps env) cp2 w3 = (None, w')" "cp_SeqWatermark cp2 = cp_SeqWatermark cp" "cp_Stream cp2 = rt_name rt"
    using assms(2,3) by (auto simp: markScanStarted_def Let_def split: prod.splits sum.splits option.splits)
  with checkpoint_store.save_done [OF assms(1)] show ?thesis by (metis watermark_savedAs)
qed

text \<open>
  The versions of the shared reader can lie below a stream's snapshot.  Two streams are scanned one after
  the other, a second apart; the reader then takes its versions from the first stream's allocator, which
  still has the block it reserved before the second scan began: the changes it reads for the second
  stream have lower versions than the rows of that stream's snapshot, and a destination that keeps the
  highest version drops them.
\<close>

definition clockedEnv :: "memory_store sup_env" where
  "clockedEnv = exampleSupEnv\<lparr>su_time := (\<lambda>w. int (ms_saves w + 1) * 1000000000)\<rparr>"

definition namedRuntime :: "string \<Rightarrow> stream_runtime" where
  "namedRuntime name = exampleRuntime\<lparr>rt_cfg := exampleStream\<lparr>sm_Name := name\<rparr>, rt_alloc := exampleAllocator\<lparr>a_stream := name\<rparr>,
     rt_runner := exampleRunner\<lparr>r_stream := name\<rparr>\<rparr>"

definition firstVersionAfter :: "(((sup_error + (string \<times> string) list) \<times> stream_runtime list \<times> memory_store) option) \<Rightarrow> (u64 \<times> u64) option" where
  "firstVersionAfter done = (case done of
      Some (Inr _, rt # _, w) \<Rightarrow>
        (case (Next ms_Load (ms_Save 0) (su_time clockedEnv w) (rt_alloc rt) w, ms_data w ''b'') of
           ((Inr v, _, _), Some cp) \<Rightarrow> Some (v, cp_SnapshotBaseSeq cp)
         | _ \<Rightarrow> None)
    | _ \<Rightarrow> None)"

theorem shared_versions_below_snapshot:
  "\<exists>v base. firstVersionAfter (backfill (\<lambda>_. clockedEnv) exampleSource [namedRuntime ''a'', namedRuntime ''b''] NewMemoryStore) =
     Some (v, base) \<and> v < base"
proof -
  have "(case firstVersionAfter (backfill (\<lambda>_. clockedEnv) exampleSource [namedRuntime ''a'', namedRuntime ''b''] NewMemoryStore) of
      None \<Rightarrow> False | Some (v, base) \<Rightarrow> v < base)" by code_simp
  then show ?thesis by (auto split: option.splits)
qed

text \<open>
  The start of a rescan is forgotten by a restart.  A stream that was asked to scan again keeps its old
  position; when its new scan is done it is told to stream from the position recorded before the scan,
  but nothing stores that position: started again before the first batch, it is told to stream from the
  old one, which the source may have purged.
\<close>

definition rescannedStore :: memory_store where
  "rescannedStore = snd (ms_Save 0 (ClearSnapshot (zeroCheckpoint\<lparr>cp_Stream := ''s'', cp_GTIDSet := ''uuid:1-3'',
     cp_SnapshotDone := True, cp_SnapshotStartGTID := ''uuid:1-2'', cp_SnapshotBaseSeq := 1, cp_SeqWatermark := 5,
     cp_SchemaVersion := 1\<rparr>)) NewMemoryStore)"

definition startTwice :: "memory_store \<Rightarrow> ((sup_error + string) \<times> (sup_error + string)) option" where
  "startTwice w = (case snapshotIfNeeded exampleSupEnv exampleSource exampleRuntime w of
      None \<Rightarrow> None
    | Some (r1, _, w1) \<Rightarrow> map_option (\<lambda>(r2, _). (r1, r2)) (snapshotIfNeeded exampleSupEnv exampleSource exampleRuntime w1))"

theorem rescan_start_is_forgotten: "startTwice rescannedStore = Some (Inr ''uuid:1-9'', Inr ''uuid:1-3'')"
  by code_simp

end
