(* ===== verification/SchemaStore.thy ===== *)
theory SchemaStore
  imports Schema "HOL-Library.AList"
begin

text \<open>
  \<^verbatim>\<open>internal/schema/store.go\<close>: reading a table's definition from \<^verbatim>\<open>information_schema\<close>, and the cache
  that keeps definitions until DDL makes them stale.

  The two queries of \<^verbatim>\<open>DBLoader\<close> are the fields of \<open>loader_env\<close>: each returns the rows it read, every
  row scanned or failing with a message, and the error its cursor ended with.  \<^verbatim>\<open>ordinal_position\<close>
  counts from one, so that \<^verbatim>\<open>ordinal - 1\<close> is a position.  The lock of the cache is not modelled; its
  two critical sections are \<open>lookup\<close> and \<open>remember\<close>.
\<close>

subsection \<open>Member lists\<close>

fun indexOfSub :: "string \<Rightarrow> string \<Rightarrow> nat option" where
  "indexOfSub s sub = (if hasPrefix s sub then Some 0
     else (case s of [] \<Rightarrow> None | _ # r \<Rightarrow> map_option Suc (indexOfSub r sub)))"

declare indexOfSub.simps [simp del]

text \<open>The text before the last occurrence of a byte, or all of it.\<close>

definition beforeLast :: "char \<Rightarrow> string \<Rightarrow> string" where
  "beforeLast c s = (if c \<in> set s then rev (tl (dropWhile (\<lambda>x. x \<noteq> c) (rev s))) else s)"

text \<open>The scan over the body: the members found, the one being read, and whether it is quoted.\<close>

function memberLoop :: "string list \<Rightarrow> string \<Rightarrow> bool \<Rightarrow> string \<Rightarrow> string list" where
  "memberLoop out current inQuote body = (case body of
      [] \<Rightarrow> out
    | ch # rest \<Rightarrow>
        if ch = CHR 0x27 \<and> inQuote \<and> rest \<noteq> [] \<and> hd rest = CHR 0x27
        then memberLoop out (current @ [CHR 0x27]) inQuote (tl rest)
        else if ch = CHR 0x27 then
          (if inQuote then memberLoop (out @ [current]) [] False rest
           else memberLoop out current True rest)
        else if inQuote then memberLoop out (current @ [ch]) inQuote rest
        else memberLoop out current inQuote rest)"
  by pat_completeness auto
termination
  by (relation "measure (\<lambda>(_, _, _, body). length body)") auto

declare memberLoop.simps [simp del]

definition parseMemberList :: "string \<Rightarrow> string \<Rightarrow> string list" where
  "parseMemberList columnType keyword =
     (case indexOfSub (toLower columnType) (keyword @ ''('') of
        None \<Rightarrow> []
      | Some open' \<Rightarrow>
          memberLoop [] [] False (beforeLast (CHR '')'') (drop (open' + length keyword + 1) columnType)))"

subsection \<open>The loader\<close>

record column_row =
  cr_name :: string
  cr_ordinal :: int
  cr_dataType :: string
  cr_columnType :: string
  cr_isNullable :: string
  cr_characterSet :: string
  cr_collation :: string
  cr_numericPrecision :: int
  cr_numericScale :: int
  cr_dateTimePrecision :: int
  cr_generation :: string

datatype load_error =
    ReadColumns string string string
  | ScanColumn string string string
  | ColumnsEnded string
  | NoSuchTable string string
  | ReadKey string string string
  | ScanKey string string string
  | KeyEnded string

record 'w loader_env =
  le_columns :: "string \<Rightarrow> string \<Rightarrow> 'w \<Rightarrow> (string + (string + column_row) list \<times> string option) \<times> 'w"
  le_primary :: "string \<Rightarrow> string \<Rightarrow> 'w \<Rightarrow> (string + (string + string) list \<times> string option) \<times> 'w"

definition columnOf :: "column_row \<Rightarrow> column" where
  "columnOf r =
     (let t = toLower (cr_dataType r)
      in \<lparr>col_Name = cr_name r, col_Position = nat (cr_ordinal r - 1), col_DataType = cr_dataType r,
          col_ColumnType = cr_columnType r,
          col_Unsigned = strContains (toLower (cr_columnType r)) ''unsigned'',
          col_Nullable = equalFold (cr_isNullable r) ''YES'', col_Generated = (cr_generation r \<noteq> []),
          col_CharacterSet = cr_characterSet r, col_Collation = cr_collation r,
          col_NumericPrecision = cr_numericPrecision r, col_NumericScale = cr_numericScale r,
          col_DateTimePrecision = cr_dateTimePrecision r,
          col_EnumValues = (if t = ''enum'' then parseMemberList (cr_columnType r) ''enum'' else []),
          col_SetValues = (if t = ''set'' then parseMemberList (cr_columnType r) ''set'' else [])\<rparr>)"

definition loadPrimaryKey ::
    "'w loader_env \<Rightarrow> string \<Rightarrow> string \<Rightarrow> 'w \<Rightarrow> (load_error + string list) \<times> 'w" where
  "loadPrimaryKey env schemaName table w = (case le_primary env schemaName table w of
      (Inl e, w1) \<Rightarrow> (Inl (ReadKey schemaName table e), w1)
    | (Inr (rows, ended), w1) \<Rightarrow>
        (case mapResult (\<lambda>r. map_sum (ScanKey schemaName table) id r) rows of
           Inl e \<Rightarrow> (Inl e, w1)
         | Inr pk \<Rightarrow> (case ended of Some e \<Rightarrow> (Inl (KeyEnded e), w1) | None \<Rightarrow> (Inr pk, w1))))"

definition loadTable ::
    "'w loader_env \<Rightarrow> string \<Rightarrow> string \<Rightarrow> 'w \<Rightarrow> (load_error + table_meta) \<times> 'w" where
  "loadTable env schemaName table w = (case le_columns env schemaName table w of
      (Inl e, w1) \<Rightarrow> (Inl (ReadColumns schemaName table e), w1)
    | (Inr (rows, ended), w1) \<Rightarrow>
        (case mapResult (\<lambda>r. map_sum (ScanColumn schemaName table) columnOf r) rows of
           Inl e \<Rightarrow> (Inl e, w1)
         | Inr columns \<Rightarrow> (case ended of
               Some e \<Rightarrow> (Inl (ColumnsEnded e), w1)
             | None \<Rightarrow>
                 if columns = [] then (Inl (NoSuchTable schemaName table), w1)
                 else (case loadPrimaryKey env schemaName table w1 of
                     (Inl e, w2) \<Rightarrow> (Inl e, w2)
                   | (Inr pk, w2) \<Rightarrow>
                       (Inr \<lparr>tm_Schema = schemaName, tm_Table = table, tm_Columns = columns,
                             tm_PrimaryKey = pk\<rparr>, w2)))))"

subsection \<open>The cache\<close>

record schema_store =
  st_cache :: "(string \<times> table_meta) list"

definition NewStore :: schema_store where
  "NewStore = \<lparr>st_cache = []\<rparr>"

definition cacheKey :: "string \<Rightarrow> string \<Rightarrow> string" where
  "cacheKey schemaName table = toLower schemaName @ ''.'' @ toLower table"

text \<open>The second critical section: a definition another caller stored in the meantime wins.\<close>

definition remember :: "string \<Rightarrow> table_meta \<Rightarrow> schema_store \<Rightarrow> table_meta \<times> schema_store" where
  "remember key meta s = (case map_of (st_cache s) key of
      Some existing \<Rightarrow> (existing, s)
    | None \<Rightarrow> (meta, s\<lparr>st_cache := AList.update key meta (st_cache s)\<rparr>))"

definition storeTable ::
    "(string \<Rightarrow> string \<Rightarrow> 'w \<Rightarrow> ('e + table_meta) \<times> 'w) \<Rightarrow> string \<Rightarrow> string \<Rightarrow> schema_store \<Rightarrow> 'w \<Rightarrow>
     ('e + table_meta) \<times> schema_store \<times> 'w" where
  "storeTable load schemaName table s w = (case map_of (st_cache s) (cacheKey schemaName table) of
      Some meta \<Rightarrow> (Inr meta, s, w)
    | None \<Rightarrow> (case load schemaName table w of
          (Inl e, w1) \<Rightarrow> (Inl e, s, w1)
        | (Inr meta, w1) \<Rightarrow> (case remember (cacheKey schemaName table) meta s of
              (meta', s') \<Rightarrow> (Inr meta', s', w1))))"

definition Invalidate :: "string \<Rightarrow> string \<Rightarrow> schema_store \<Rightarrow> schema_store" where
  "Invalidate schemaName table s = s\<lparr>st_cache := AList.delete (cacheKey schemaName table) (st_cache s)\<rparr>"

definition InvalidateAll :: "schema_store \<Rightarrow> schema_store" where
  "InvalidateAll s = s\<lparr>st_cache := []\<rparr>"

definition Cached :: "schema_store \<Rightarrow> nat" where
  "Cached s = length (st_cache s)"

subsection \<open>The cache answers with the latest definition\<close>

lemma remember_map_of:
  "remember key meta s = (meta', s') \<Longrightarrow> map_of (st_cache s') key = Some meta'"
  by (auto simp: remember_def update_conv' split: option.splits)

lemma Invalidate_map_of:
  "map_of (st_cache (Invalidate a b s)) key =
     (if key = cacheKey a b then None else map_of (st_cache s) key)"
  by (auto simp: Invalidate_def delete_conv')

text \<open>
  A definition that was returned is returned again without a query, until its own table or the whole
  cache is invalidated; then the next request is a new load.
\<close>

lemma storeTable_again:
  assumes "storeTable load a b s w = (Inr m, s', w')"
  shows "storeTable load a b s' w'' = (Inr m, s', w'')"
    and "cacheKey c d \<noteq> cacheKey a b \<Longrightarrow>
      storeTable load a b (Invalidate c d s') w'' = (Inr m, Invalidate c d s', w'')"
proof -
  have m: "map_of (st_cache s') (cacheKey a b) = Some m"
    using assms remember_map_of by (fastforce simp: storeTable_def split: option.splits sum.splits prod.splits)
  then show "storeTable load a b s' w'' = (Inr m, s', w'')" by (simp add: storeTable_def)
  assume "cacheKey c d \<noteq> cacheKey a b"
  with m show "storeTable load a b (Invalidate c d s') w'' = (Inr m, Invalidate c d s', w'')"
    by (simp add: storeTable_def Invalidate_map_of)
qed

lemma storeTable_fresh:
  assumes "map_of (st_cache s) (cacheKey a b) = None"
  shows "storeTable load a b s w = (case load a b w of
      (Inl e, w1) \<Rightarrow> (Inl e, s, w1)
    | (Inr m, w1) \<Rightarrow> (Inr m, s\<lparr>st_cache := AList.update (cacheKey a b) m (st_cache s)\<rparr>, w1))"
  using assms by (auto simp: storeTable_def remember_def split: sum.splits prod.splits)

lemma storeTable_invalidated:
  "fst (storeTable load a b (Invalidate a b s) w) = fst (load a b w)"
  "fst (storeTable load a b (InvalidateAll s) w) = fst (load a b w)"
  by (simp_all add: storeTable_fresh Invalidate_map_of InvalidateAll_def split: prod.split sum.split)

subsection \<open>Member lists are read back\<close>

definition quoteMember :: "string \<Rightarrow> string" where
  "quoteMember label = [CHR 0x27] @ replaceByte (CHR 0x27) [CHR 0x27, CHR 0x27] label @ [CHR 0x27]"

definition memberList :: "string \<Rightarrow> string list \<Rightarrow> string" where
  "memberList keyword labels = keyword @ ''('' @ joinWith '','' (map quoteMember labels) @ '')''"

lemma memberLoop_label:
  assumes "rest = [] \<or> hd rest \<noteq> CHR 0x27"
  shows "memberLoop out current True (replaceByte (CHR 0x27) [CHR 0x27, CHR 0x27] label @ CHR 0x27 # rest) =
     memberLoop (out @ [current @ label]) [] False rest"
proof (induction label arbitrary: current)
  case Nil
  from assms show ?case by (subst memberLoop.simps) (auto simp: replaceByte_def)
next
  case (Cons c label)
  then show ?case by (subst memberLoop.simps) (auto simp: replaceByte_def)
qed

lemma memberLoop_members:
  "memberLoop out [] False (joinWith '','' (map quoteMember labels)) = out @ labels"
proof (induction labels arbitrary: out rule: induct_list012)
  case 1
  then show ?case by (subst memberLoop.simps) simp
next
  case (2 l)
  have "memberLoop out [] False (quoteMember l) = memberLoop (out @ [l]) [] False []"
    using memberLoop_label [of "[]" out "[]" l] by (subst memberLoop.simps) (simp add: quoteMember_def)
  then show ?case by (subst (asm) memberLoop.simps [of _ _ _ "[]"]) simp
next
  case (3 l k labels)
  let ?rest = "joinWith '','' (map quoteMember (k # labels))"
  have "memberLoop out [] False (quoteMember l @ CHR '','' # ?rest) = memberLoop (out @ [l]) [] False (CHR '','' # ?rest)"
    using memberLoop_label [of "CHR '','' # ?rest" out "[]" l]
    by (subst memberLoop.simps) (simp add: quoteMember_def)
  also have "\<dots> = memberLoop (out @ [l]) [] False ?rest" by (subst memberLoop.simps) simp
  finally show ?case using 3(2) [of "out @ [l]"] by simp
qed

lemma beforeLast_append: "beforeLast c (s @ [c]) = s"
  by (simp add: beforeLast_def)

subsection \<open>Properties\<close>

text \<open>
  The labels of an ENUM or SET column are read back from the column type exactly as they are
  declared, in order, whatever bytes they hold: quotes are undoubled, and commas and parentheses
  inside a label do not end it.
\<close>

theorem parseMemberList_roundtrip:
  assumes "toLower keyword = toLower keyword'" and "keyword' = toLower keyword'"
  shows "parseMemberList (memberList keyword labels) keyword' = labels"
proof -
  have len: "length keyword = length keyword'"
    using arg_cong [OF assms(1), of length] by (simp add: toLower_def)
  have "hasPrefix (toLower (memberList keyword labels)) (keyword' @ ''('')"
    using assms by (simp add: memberList_def toLower_def toLowerByte_def hasPrefix_def byteVal_def)
  then have "indexOfSub (toLower (memberList keyword labels)) (keyword' @ ''('') = Some 0"
    by (subst indexOfSub.simps) simp
  moreover have "drop (length keyword' + 1) (memberList keyword labels) =
      joinWith '','' (map quoteMember labels) @ '')''"
    using len by (simp add: memberList_def)
  ultimately show ?thesis
    by (simp add: parseMemberList_def beforeLast_append memberLoop_members)
qed

theorem parseMemberList_roundtrip_witness:
  "parseMemberList (memberList ''ENUM'' [''it'' @ [CHR 0x27] @ ''s'', ''a,b'', ''x)'']) ''enum'' =
     [''it'' @ [CHR 0x27] @ ''s'', ''a,b'', ''x)'']"
proof -
  have "toLower ''ENUM'' = toLower ''enum''" "''enum'' = toLower ''enum''" by code_simp+
  from parseMemberList_roundtrip [OF this] show ?thesis .
qed

text \<open>
  A definition read from the catalogue is well formed (column \<^verbatim>\<open>i\<close> is at position \<^verbatim>\<open>i\<close> and no two
  columns have the same name up to case), belongs to the table asked for and has at least one column,
  provided the catalogue numbers the columns from one and names each once, as MySQL does.
\<close>

theorem loadTable_wellFormed:
  assumes "loadTable env schemaName table w = (Inr meta, w')"
    and "le_columns env schemaName table w = (Inr (rows, ended), w1)"
    and "map cr_ordinal (map projr rows) = map int [1..<length rows + 1]"
    and "distinct (map (toLower \<circ> cr_name) (map projr rows))"
  shows "wellFormed meta \<and> tm_Columns meta \<noteq> [] \<and> Name meta = schemaName @ ''.'' @ table"
proof -
  let ?f = "map_sum (ScanColumn schemaName table) columnOf"
  from assms(1,2) obtain columns pk where cols: "mapResult ?f rows = Inr columns" "columns \<noteq> []"
    and meta: "meta = \<lparr>tm_Schema = schemaName, tm_Table = table, tm_Columns = columns, tm_PrimaryKey = pk\<rparr>"
    by (auto simp: loadTable_def split: sum.splits option.splits if_splits prod.splits)
  have len: "length columns = length rows" by (rule mapResult_length [OF cols(1)])
  have nth: "columns ! i = columnOf (projr (rows ! i))" if "i < length rows" for i
    using mapResult_nth [OF cols(1) that] by (cases "rows ! i") auto
  have ord: "cr_ordinal (projr (rows ! i)) = int i + 1" if "i < length rows" for i
  proof -
    have "cr_ordinal (projr (rows ! i)) = map cr_ordinal (map projr rows) ! i" using that by simp
    also have "\<dots> = map int [1..<length rows + 1] ! i" by (simp only: assms(3))
    also have "\<dots> = int i + 1" using that by (simp del: upt_Suc)
    finally show ?thesis .
  qed
  have "map col_Position columns = [0..<length columns]"
    by (rule nth_equalityI) (auto simp: len nth ord columnOf_def Let_def)
  moreover have "map (toLower \<circ> col_Name) columns = map (toLower \<circ> cr_name) (map projr rows)"
    by (rule nth_equalityI) (auto simp: len nth columnOf_def Let_def)
  ultimately show ?thesis using assms(4) cols(2) by (simp add: meta wellFormed_def Name_def)
qed

definition exampleColumnRow :: "string \<Rightarrow> int \<Rightarrow> string \<Rightarrow> column_row" where
  "exampleColumnRow name ordinal ty = \<lparr>cr_name = name, cr_ordinal = ordinal, cr_dataType = ty, cr_columnType = ty,
     cr_isNullable = ''NO'', cr_characterSet = [], cr_collation = [], cr_numericPrecision = 0,
     cr_numericScale = 0, cr_dateTimePrecision = 0, cr_generation = []\<rparr>"

definition exampleLoader :: "unit loader_env" where
  "exampleLoader = \<lparr>
     le_columns = (\<lambda>_ _ w. (Inr ([Inr (exampleColumnRow ''id'' 1 ''bigint''), Inr (exampleColumnRow ''name'' 2 ''text'')], None), w)),
     le_primary = (\<lambda>_ _ w. (Inr ([Inr ''id''], None), w))\<rparr>"

theorem loadTable_wellFormed_witness:
  "\<exists>meta. loadTable exampleLoader ''shop'' ''orders'' () = (Inr meta, ()) \<and> wellFormed meta \<and> tm_Columns meta \<noteq> []"
proof -
  obtain meta where "loadTable exampleLoader ''shop'' ''orders'' () = (Inr meta, ())"
    by (simp add: loadTable_def exampleLoader_def loadPrimaryKey_def)
  moreover from loadTable_wellFormed [OF this, of "[Inr (exampleColumnRow ''id'' 1 ''bigint''), Inr (exampleColumnRow ''name'' 2 ''text'')]" None "()"]
  have "wellFormed meta \<and> tm_Columns meta \<noteq> []"
    by (simp add: exampleLoader_def exampleColumnRow_def toLower_def)
  ultimately show ?thesis by blast
qed

end
