(* ===== verification/Streamer.thy ===== *)
theory Streamer
  imports SchemaStore Checkpoint "HOL-Library.Sublist"
begin

text \<open>
  \<^verbatim>\<open>internal/source/binlog/streamer.go\<close>: the reader of the replication stream, which keeps the set of
  executed transactions, and turns the row images of watched tables into change events.

  The replication library, the GTID sets of the MySQL package, the loader behind the schema store,
  the sequencer and the channel of events are the fields of \<open>binlog_env\<close>.  A GTID set is of type
  \<^typ>\<open>'g\<close>, the sequencer's state of type \<^typ>\<open>'q\<close> and everything else outside of type \<^typ>\<open>'w\<close>.  The
  state of the reader is \<open>reader\<close>; its last field is what has been sent.  The \<^verbatim>\<open>watched\<close> map is a list,
  in the order in which the map happens to be iterated.  Logging and the mutex are not modelled.
\<close>

subsection \<open>Construction\<close>

record binlog_options =
  bo_Host :: string
  bo_Port :: "16 word"
  bo_User :: string
  bo_Password :: string
  bo_ServerID :: "32 word"
  bo_StartGTID :: string
  bo_Tables :: "string list"
  bo_hasSchemas :: bool
  bo_hasSequencer :: bool
  bo_HeartbeatPeriod :: int
  bo_ReadTimeout :: int
  bo_Buffer :: int

datatype sync_error = MyError nat string | SyncFailed string | SyncCancelled

datatype stream_error =
    HostRequired
  | ServerIDRequired
  | StartRequired
  | SchemasRequired
  | SequencerRequired
  | TableUnqualified string
  | StartUnparsable string string
  | StartFailed string stream_error
  | ErrPositionPurged string
  | SourceFailed sync_error
  | StreamCancelled
  | TxUnreadable string
  | FoldFailed string string
  | DefinitionFailed load_error
  | ReloadFailed string string load_error
  | RowWidth string string nat nat nat
  | VersionFailed alloc_error
  | StreamPanic

definition errBinlogReadFailure :: nat where
  "errBinlogReadFailure = 1236"

definition explain :: "sync_error \<Rightarrow> stream_error" where
  "explain err = (case err of
      MyError code message \<Rightarrow>
        if code = errBinlogReadFailure then ErrPositionPurged message else SourceFailed err
    | SyncCancelled \<Rightarrow> StreamCancelled
    | SyncFailed _ \<Rightarrow> SourceFailed err)"

record binlog_setup =
  bs_opts :: binlog_options
  bs_watched :: "string list"

text \<open>The tables must be qualified; their names are watched in lower case, each once.\<close>

fun watchTables :: "string list \<Rightarrow> string list \<Rightarrow> stream_error + string list" where
  "watchTables watched [] = Inr watched"
| "watchTables watched (t # ts) =
     (if \<not> strContains t ''.'' then Inl (TableUnqualified t)
      else watchTables (List.insert (toLower t) watched) ts)"

definition bl_New :: "binlog_options \<Rightarrow> stream_error + binlog_setup" where
  "bl_New opts =
     (if bo_Host opts = [] then Inl HostRequired
      else if bo_ServerID opts = 0 then Inl ServerIDRequired
      else if bo_StartGTID opts = [] then Inl StartRequired
      else if \<not> bo_hasSchemas opts then Inl SchemasRequired
      else if \<not> bo_hasSequencer opts then Inl SequencerRequired
      else
        (let opts' = opts\<lparr>
               bo_HeartbeatPeriod := (if bo_HeartbeatPeriod opts \<le> 0 then 5 * 1000000000 else bo_HeartbeatPeriod opts),
               bo_ReadTimeout := (if bo_ReadTimeout opts \<le> 0 then 90 * 1000000000 else bo_ReadTimeout opts),
               bo_Buffer := (if bo_Buffer opts \<le> 0 then 1024 else bo_Buffer opts),
               bo_Port := (if bo_Port opts = 0 then 3306 else bo_Port opts)\<rparr>
         in case watchTables [] (bo_Tables opts) of
              Inl e \<Rightarrow> Inl e
            | Inr watched \<Rightarrow> Inr \<lparr>bs_opts = opts', bs_watched = watched\<rparr>))"

subsection \<open>Events of the replication library\<close>

datatype event_type =
    WRITE_ROWS_EVENTv0 | WRITE_ROWS_EVENTv1 | WRITE_ROWS_EVENTv2
  | DELETE_ROWS_EVENTv0 | DELETE_ROWS_EVENTv1 | DELETE_ROWS_EVENTv2
  | UPDATE_ROWS_EVENTv0 | UPDATE_ROWS_EVENTv1 | UPDATE_ROWS_EVENTv2
  | OTHER_EVENT

record rows_event =
  re_Type :: event_type
  re_Timestamp :: "32 word"
  re_Schema :: string
  re_Table :: string
  re_ColumnNames :: "string list"
  re_Rows :: "row list"

datatype binlog_event =
    GTIDEvent "string + string"
  | XIDEvent
  | QueryEvent string string
  | RowsEvent rows_event
  | OtherEvent

definition operationFor :: "event_type \<Rightarrow> (operation \<times> bool) option" where
  "operationFor t =
     (if t \<in> {WRITE_ROWS_EVENTv0, WRITE_ROWS_EVENTv1, WRITE_ROWS_EVENTv2} then Some (OperationInsert, False)
      else if t \<in> {DELETE_ROWS_EVENTv0, DELETE_ROWS_EVENTv1, DELETE_ROWS_EVENTv2} then Some (OperationDelete, False)
      else if t \<in> {UPDATE_ROWS_EVENTv0, UPDATE_ROWS_EVENTv1, UPDATE_ROWS_EVENTv2} then Some (OperationUpdate, True)
      else None)"

record ('g, 'q, 'w) binlog_env =
  be_parse :: "string \<Rightarrow> string + 'g"
  be_update :: "'g \<Rightarrow> string \<Rightarrow> string + 'g"
  be_text :: "'g \<Rightarrow> string"
  be_load :: "string \<Rightarrow> string \<Rightarrow> 'w \<Rightarrow> (load_error + table_meta) \<times> 'w"
  be_next :: "'q \<Rightarrow> (alloc_error + u64) \<times> 'q"
  be_send :: "change_event \<Rightarrow> 'w \<Rightarrow> bool \<times> 'w"
  be_start :: "'g \<Rightarrow> 'w \<Rightarrow> sync_error option \<times> 'w"
  be_event :: "'w \<Rightarrow> (sync_error + binlog_event) \<times> 'w"

record ('g, 'q, 'w) reader =
  rd_watched :: "string list"
  rd_executed :: "'g option"
  rd_currentTx :: string
  rd_schemas :: schema_store
  rd_seq :: 'q
  rd_world :: 'w
  rd_out :: "change_event list"

subsection \<open>Alignment of rows\<close>

record alignment =
  al_meta :: table_meta
  al_positions :: "nat option list"
  al_direct :: bool

text \<open>The loop of \<^verbatim>\<open>row\<close> over the values; \<^verbatim>\<open>None\<close> is the position -1.\<close>

fun placeValues :: "row \<Rightarrow> (val \<times> nat option) list \<Rightarrow> stream_error + row" where
  "placeValues out [] = Inr out"
| "placeValues out ((v, None) # rest) = placeValues out rest"
| "placeValues out ((v, Some pos) # rest) =
     (if length out \<le> pos then Inl StreamPanic else placeValues (out[pos := v]) rest)"

definition alignRow :: "alignment \<Rightarrow> row \<Rightarrow> stream_error + row" where
  "alignRow a values =
     (if al_direct a then Inr values
      else placeValues (replicate (length (tm_Columns (al_meta a))) VNil) (zip values (al_positions a)))"

definition namedPositions :: "table_meta \<Rightarrow> string list \<Rightarrow> nat option list" where
  "namedPositions meta names = map (\<lambda>name. map_option col_Position (Column meta name)) names"

definition st_alignment ::
    "('g, 'q, 'w) binlog_env \<Rightarrow> rows_event \<Rightarrow> table_meta \<Rightarrow> ('g, 'q, 'w) reader \<Rightarrow>
     (stream_error + alignment) \<times> ('g, 'q, 'w) reader" where
  "st_alignment env e meta st =
     (if re_Rows e = [] \<or> length (hd (re_Rows e)) = length (tm_Columns meta)
      then (Inr \<lparr>al_meta = meta, al_positions = [], al_direct = True\<rparr>, st)
      else
        (let width = length (hd (re_Rows e))
         in case storeTable (be_load env) (re_Schema e) (re_Table e)
                   (Invalidate (re_Schema e) (re_Table e) (rd_schemas st)) (rd_world st) of
              (res, schemas, w) \<Rightarrow>
                (let st1 = st\<lparr>rd_schemas := schemas, rd_world := w\<rparr>
                 in case res of
                      Inl err \<Rightarrow> (Inl (ReloadFailed (re_Schema e) (re_Table e) err), st1)
                    | Inr reloaded \<Rightarrow>
                        if width = length (tm_Columns reloaded)
                        then (Inr \<lparr>al_meta = reloaded, al_positions = [], al_direct = True\<rparr>, st1)
                        else if length (re_ColumnNames e) \<noteq> width
                        then (Inl (RowWidth (re_Schema e) (re_Table e) width
                                (length (tm_Columns reloaded)) (length (re_ColumnNames e))), st1)
                        else (Inr \<lparr>al_meta = reloaded,
                                al_positions = namedPositions reloaded (re_ColumnNames e),
                                al_direct = False\<rparr>, st1))))"

subsection \<open>Emission\<close>

record emission =
  em_align :: alignment
  em_timestamp :: time
  em_gtid :: string

definition st_build ::
    "('g, 'q, 'w) binlog_env \<Rightarrow> table_meta \<Rightarrow> operation \<Rightarrow> row option \<Rightarrow> row option \<Rightarrow> time \<Rightarrow> string \<Rightarrow>
     ('g, 'q, 'w) reader \<Rightarrow> (stream_error + change_event) \<times> ('g, 'q, 'w) reader" where
  "st_build env meta op before after ts gtid st = (case be_next env (rd_seq st) of
      (Inl e, q) \<Rightarrow> (Inl (VersionFailed e), st\<lparr>rd_seq := q\<rparr>)
    | (Inr seq, q) \<Rightarrow>
        (Inr \<lparr>ev_Meta = Some meta, ev_Operation = op, ev_Before = before, ev_After = after,
              ev_Timestamp = ts, ev_GTID = gtid, ev_TxID = 0, ev_Seq = seq, ev_Cursor = [],
              ev_RowsScanned = 0\<rparr>, st\<lparr>rd_seq := q\<rparr>))"

definition st_send ::
    "('g, 'q, 'w) binlog_env \<Rightarrow> change_event \<Rightarrow> ('g, 'q, 'w) reader \<Rightarrow>
     stream_error option \<times> ('g, 'q, 'w) reader" where
  "st_send env ev st = (case be_send env ev (rd_world st) of
      (True, w) \<Rightarrow> (None, st\<lparr>rd_world := w, rd_out := rd_out st @ [ev]\<rparr>)
    | (False, w) \<Rightarrow> (Some StreamCancelled, st\<lparr>rd_world := w\<rparr>))"

text \<open>The body of both loops: version the change, then send it.\<close>

definition emitOne ::
    "('g, 'q, 'w) binlog_env \<Rightarrow> emission \<Rightarrow> operation \<Rightarrow> row option \<Rightarrow> row option \<Rightarrow>
     ('g, 'q, 'w) reader \<Rightarrow> stream_error option \<times> ('g, 'q, 'w) reader" where
  "emitOne env em op before after st =
     (case st_build env (al_meta (em_align em)) op before after (em_timestamp em) (em_gtid em) st of
        (Inl e, st1) \<Rightarrow> (Some e, st1)
      | (Inr ev, st1) \<Rightarrow> st_send env ev st1)"

fun emitUpdates ::
    "('g, 'q, 'w) binlog_env \<Rightarrow> emission \<Rightarrow> row list \<Rightarrow> ('g, 'q, 'w) reader \<Rightarrow>
     stream_error option \<times> ('g, 'q, 'w) reader" where
  "emitUpdates env em (r1 # r2 # rows) st =
     (case (alignRow (em_align em) r1, alignRow (em_align em) r2) of
        (Inr before, Inr after) \<Rightarrow>
          (case emitOne env em OperationUpdate (Some before) (Some after) st of
             (Some e, st1) \<Rightarrow> (Some e, st1)
           | (None, st1) \<Rightarrow> emitUpdates env em rows st1)
      | _ \<Rightarrow> (Some StreamPanic, st))"
| "emitUpdates env em rows st = (None, st)"

fun emitEach ::
    "('g, 'q, 'w) binlog_env \<Rightarrow> emission \<Rightarrow> operation \<Rightarrow> row list \<Rightarrow> ('g, 'q, 'w) reader \<Rightarrow>
     stream_error option \<times> ('g, 'q, 'w) reader" where
  "emitEach env em op [] st = (None, st)"
| "emitEach env em op (row # rows) st = (case alignRow (em_align em) row of
      Inl e \<Rightarrow> (Some e, st)
    | Inr r \<Rightarrow>
        (case (if op = OperationDelete then emitOne env em op (Some r) None st
               else emitOne env em op None (Some r) st) of
           (Some e, st1) \<Rightarrow> (Some e, st1)
         | (None, st1) \<Rightarrow> emitEach env em op rows st1))"

definition positionForRows :: "('g, 'q, 'w) binlog_env \<Rightarrow> ('g, 'q, 'w) reader \<Rightarrow> string" where
  "positionForRows env st = (case rd_executed st of None \<Rightarrow> [] | Some g \<Rightarrow> be_text env g)"

definition emitRows ::
    "('g, 'q, 'w) binlog_env \<Rightarrow> rows_event \<Rightarrow> ('g, 'q, 'w) reader \<Rightarrow>
     stream_error option \<times> ('g, 'q, 'w) reader" where
  "emitRows env e st = (case operationFor (re_Type e) of
      None \<Rightarrow> (None, st)
    | Some (op, isUpdate) \<Rightarrow>
        if rd_watched st \<noteq> [] \<and> toLower (re_Schema e @ ''.'' @ re_Table e) \<notin> set (rd_watched st)
        then (None, st)
        else
          (case storeTable (be_load env) (re_Schema e) (re_Table e) (rd_schemas st) (rd_world st) of
             (res, schemas, w) \<Rightarrow>
               (let st1 = st\<lparr>rd_schemas := schemas, rd_world := w\<rparr>
                in case res of
                     Inl err \<Rightarrow> (Some (DefinitionFailed err), st1)
                   | Inr meta \<Rightarrow> (case st_alignment env e meta st1 of
                         (Inl err, st2) \<Rightarrow> (Some err, st2)
                       | (Inr align, st2) \<Rightarrow>
                           (let em = \<lparr>em_align = align, em_timestamp = ofUnix (uint (re_Timestamp e)),
                                      em_gtid = positionForRows env st2\<rparr>
                            in if isUpdate then emitUpdates env em (re_Rows e) st2
                               else emitEach env em op (re_Rows e) st2)))))"

subsection \<open>Handling an event\<close>

definition mentionsDDL :: "string \<Rightarrow> bool" where
  "mentionsDDL lowered \<longleftrightarrow> strContains lowered ''alter'' \<or> strContains lowered ''create'' \<or>
     strContains lowered ''drop'' \<or> strContains lowered ''rename'' \<or> strContains lowered ''truncate''"

definition cutTable :: "string \<Rightarrow> string \<times> string" where
  "cutTable watched = (case cutOn (CHR ''.'') watched of None \<Rightarrow> (watched, []) | Some p \<Rightarrow> p)"

definition st_invalidate ::
    "string \<Rightarrow> string \<Rightarrow> ('g, 'q, 'w) reader \<Rightarrow> ('g, 'q, 'w) reader" where
  "st_invalidate dbName query st =
     (let lowered = toLower query
      in if \<not> mentionsDDL lowered then st
         else (case find (\<lambda>watched. strContains lowered (toLower (snd (cutTable watched)))) (rd_watched st) of
             Some watched \<Rightarrow>
               st\<lparr>rd_schemas := Invalidate (fst (cutTable watched)) (snd (cutTable watched)) (rd_schemas st)\<rparr>
           | None \<Rightarrow>
               if strContains lowered ''rename'' \<or> dbName = []
               then st\<lparr>rd_schemas := InvalidateAll (rd_schemas st)\<rparr> else st))"

definition st_handle ::
    "('g, 'q, 'w) binlog_env \<Rightarrow> binlog_event \<Rightarrow> ('g, 'q, 'w) reader \<Rightarrow>
     stream_error option \<times> ('g, 'q, 'w) reader" where
  "st_handle env ev st = (case ev of
      GTIDEvent (Inl e) \<Rightarrow> (Some (TxUnreadable e), st)
    | GTIDEvent (Inr tx) \<Rightarrow> (None, st\<lparr>rd_currentTx := tx\<rparr>)
    | XIDEvent \<Rightarrow>
        (case rd_executed st of
           None \<Rightarrow> (None, st)
         | Some g \<Rightarrow>
             if rd_currentTx st = [] then (None, st)
             else (case be_update env g (rd_currentTx st) of
                 Inl e \<Rightarrow> (Some (FoldFailed (rd_currentTx st) e), st)
               | Inr g' \<Rightarrow> (None, st\<lparr>rd_executed := Some g', rd_currentTx := []\<rparr>)))
    | QueryEvent db query \<Rightarrow> (None, st_invalidate db query st)
    | RowsEvent e \<Rightarrow> emitRows env e st
    | OtherEvent \<Rightarrow> (None, st))"

text \<open>The loop of \<^verbatim>\<open>run\<close>, which ends only with an error.\<close>

partial_function (option) readLoop ::
    "('g, 'q, 'w) binlog_env \<Rightarrow> ('g, 'q, 'w) reader \<Rightarrow> (stream_error \<times> ('g, 'q, 'w) reader) option" where
  "readLoop env st = (case be_event env (rd_world st) of
      (Inl e, w) \<Rightarrow> Some (explain e, st\<lparr>rd_world := w\<rparr>)
    | (Inr ev, w) \<Rightarrow> (case st_handle env ev (st\<lparr>rd_world := w\<rparr>) of
          (Some e, st1) \<Rightarrow> Some (e, st1)
        | (None, st1) \<Rightarrow> readLoop env st1))"

definition newReader ::
    "binlog_setup \<Rightarrow> schema_store \<Rightarrow> 'q \<Rightarrow> 'w \<Rightarrow> ('g, 'q, 'w) reader" where
  "newReader setup schemas q w = \<lparr>rd_watched = bs_watched setup, rd_executed = None, rd_currentTx = [],
     rd_schemas = schemas, rd_seq = q, rd_world = w, rd_out = []\<rparr>"

definition st_run ::
    "('g, 'q, 'w) binlog_env \<Rightarrow> binlog_setup \<Rightarrow> ('g, 'q, 'w) reader \<Rightarrow>
     (stream_error \<times> ('g, 'q, 'w) reader) option" where
  "st_run env setup st =
     (let start = bo_StartGTID (bs_opts setup)
      in case be_parse env start of
           Inl e \<Rightarrow> Some (StartUnparsable start e, st)
         | Inr g \<Rightarrow> (case be_start env g (rd_world st) of
               (Some e, w) \<Rightarrow> Some (StartFailed start (explain e), st\<lparr>rd_executed := Some g, rd_world := w\<rparr>)
             | (None, w) \<Rightarrow> readLoop env (st\<lparr>rd_executed := Some g, rd_world := w\<rparr>)))"

text \<open>\<^verbatim>\<open>Events\<close> and \<^verbatim>\<open>Err\<close>: a cancelled run leaves no error, also behind a wrapped error.\<close>

fun isCancelled :: "stream_error \<Rightarrow> bool" where
  "isCancelled StreamCancelled = True"
| "isCancelled (StartFailed _ e) = isCancelled e"
| "isCancelled _ = False"

definition st_Events ::
    "('g, 'q, 'w) binlog_env \<Rightarrow> binlog_setup \<Rightarrow> ('g, 'q, 'w) reader \<Rightarrow>
     (stream_error option \<times> ('g, 'q, 'w) reader) option" where
  "st_Events env setup st = map_option (\<lambda>(e, st1).
     (if isCancelled e then None else Some e, st1)) (st_run env setup st)"

definition st_Position :: "('g, 'q, 'w) binlog_env \<Rightarrow> ('g, 'q, 'w) reader \<Rightarrow> string" where
  "st_Position env st = (case rd_executed st of None \<Rightarrow> [] | Some g \<Rightarrow> be_text env g)"

subsection \<open>Runs\<close>

text \<open>
  What can be observed of a run from a state: the events handled so far, and the error it has ended
  with, if it has.  A run that goes on for ever is the states it passes through.
\<close>

inductive streamed ::
    "('g, 'q, 'w) binlog_env \<Rightarrow> ('g, 'q, 'w) reader \<Rightarrow> binlog_event list \<Rightarrow> stream_error option \<Rightarrow>
     ('g, 'q, 'w) reader \<Rightarrow> bool"
  for env st0 where
  started: "streamed env st0 [] None st0"
| handled: "streamed env st0 evs None st \<Longrightarrow> be_event env (rd_world st) = (Inr ev, w) \<Longrightarrow>
     st_handle env ev (st\<lparr>rd_world := w\<rparr>) = (r, st') \<Longrightarrow> streamed env st0 (evs @ [ev]) r st'"
| failed: "streamed env st0 evs None st \<Longrightarrow> be_event env (rd_world st) = (Inl e, w) \<Longrightarrow>
     streamed env st0 evs (Some (explain e)) (st\<lparr>rd_world := w\<rparr>)"

lemma streamed_trans:
  assumes "streamed env st1 evs2 r st2" and "streamed env st0 evs1 None st1"
  shows "streamed env st0 (evs1 @ evs2) r st2"
  using assms
proof induction
  case (handled evs st ev w r st')
  from streamed.handled [OF handled.IH [OF handled.prems] handled.hyps(2,3)] show ?case by simp
qed (auto intro: streamed.failed)

lemma readLoop_streamed:
  assumes "readLoop env st = Some (e, st')"
  shows "\<exists>evs. streamed env st evs (Some e) st'"
proof -
  have "\<exists>evs. streamed env st evs (Some (fst y)) (snd y)" if "readLoop env st = Some y" for y
    using _ that
  proof (rule readLoop.raw_induct)
    fix loop :: "('a, 'b, 'c) binlog_env \<Rightarrow> ('a, 'b, 'c) reader \<Rightarrow> (stream_error \<times> ('a, 'b, 'c) reader) option"
    fix env :: "('a, 'b, 'c) binlog_env" and st :: "('a, 'b, 'c) reader" and y
    assume IH: "\<And>env st y. loop env st = Some y \<Longrightarrow> \<exists>evs. streamed env st evs (Some (fst y)) (snd y)"
      and run: "(case be_event env (rd_world st) of
          (Inl e, w) \<Rightarrow> Some (explain e, st\<lparr>rd_world := w\<rparr>)
        | (Inr ev, w) \<Rightarrow> (case st_handle env ev (st\<lparr>rd_world := w\<rparr>) of
              (None, st1) \<Rightarrow> loop env st1 | (Some e, st1) \<Rightarrow> Some (e, st1))) = Some y"
    obtain ans w where ans: "be_event env (rd_world st) = (ans, w)" by force
    show "\<exists>evs. streamed env st evs (Some (fst y)) (snd y)"
    proof (cases ans)
      case (Inl e)
      with ans run streamed.failed [OF streamed.started] show ?thesis by fastforce
    next
      case (Inr ev)
      obtain r st1 where h: "st_handle env ev (st\<lparr>rd_world := w\<rparr>) = (r, st1)" by force
      from streamed.handled [OF streamed.started ans [unfolded Inr] h]
      have one: "streamed env st [ev] r st1" by simp
      from run ans Inr h have run1: "(case r of None \<Rightarrow> loop env st1 | Some e \<Rightarrow> Some (e, st1)) = Some y"
        by simp
      show ?thesis
      proof (cases r)
        case None
        with run1 IH [of env st1 y] obtain evs where "streamed env st1 evs (Some (fst y)) (snd y)" by auto
        from streamed_trans [OF this] one None show ?thesis by blast
      next
        case (Some e)
        with run1 one show ?thesis by auto
      qed
    qed
  qed
  from this [OF assms] show ?thesis by simp
qed

subsection \<open>What an event of rows emits\<close>

definition changeImage :: "change_event \<Rightarrow> operation \<times> row option \<times> row option" where
  "changeImage e = (ev_Operation e, ev_Before e, ev_After e)"

definition emits ::
    "emission \<Rightarrow> (operation \<times> row option \<times> row option) list \<Rightarrow> stream_error option \<Rightarrow>
     ('g, 'q, 'w) reader \<Rightarrow> ('g, 'q, 'w) reader \<Rightarrow> bool" where
  "emits em imgs r st st' \<longleftrightarrow> (\<exists>new q w.
     st' = st\<lparr>rd_seq := q, rd_world := w, rd_out := rd_out st @ new\<rparr> \<and>
     prefix (map changeImage new) imgs \<and> (r = None \<longrightarrow> map changeImage new = imgs) \<and>
     (\<forall>e \<in> set new. ev_GTID e = em_gtid em \<and> ev_Timestamp e = em_timestamp em \<and>
        ev_Meta e = Some (al_meta (em_align em))))"

lemma emits_refl: "imgs = [] \<or> r \<noteq> None \<Longrightarrow> emits em imgs r st st"
  unfolding emits_def by (intro exI [of _ "[]"] exI [of _ "rd_seq st"] exI [of _ "rd_world st"]) auto

lemma emits_Some: "emits em imgs (Some e) st st' \<Longrightarrow> emits em (imgs @ imgs') (Some e) st st'"
  unfolding emits_def by (metis option.distinct(1) prefix_prefix)

lemma emits_trans:
  assumes "emits em imgs1 None st st1" and "emits em imgs2 r st1 st2"
  shows "emits em (imgs1 @ imgs2) r st st2"
proof -
  from assms(1) obtain new1 q1 w1 where 1: "st1 = st\<lparr>rd_seq := q1, rd_world := w1, rd_out := rd_out st @ new1\<rparr>"
    "map changeImage new1 = imgs1" "\<forall>e \<in> set new1. ev_GTID e = em_gtid em \<and> ev_Timestamp e = em_timestamp em \<and>
        ev_Meta e = Some (al_meta (em_align em))" by (auto simp: emits_def)
  from assms(2) obtain new2 q2 w2 where 2: "st2 = st1\<lparr>rd_seq := q2, rd_world := w2, rd_out := rd_out st1 @ new2\<rparr>"
    "prefix (map changeImage new2) imgs2" "r = None \<longrightarrow> map changeImage new2 = imgs2"
    "\<forall>e \<in> set new2. ev_GTID e = em_gtid em \<and> ev_Timestamp e = em_timestamp em \<and>
        ev_Meta e = Some (al_meta (em_align em))" by (auto simp: emits_def)
  show ?thesis unfolding emits_def
    by (intro exI [of _ "new1 @ new2"] exI [of _ q2] exI [of _ w2]) (use 1 2 in auto)
qed

lemma emitOne_emits:
  assumes "emitOne env em op before after st = (r, st')"
  shows "emits em [(op, before, after)] r st st'"
proof -
  obtain res q where n: "be_next env (rd_seq st) = (res, q)" by force
  show ?thesis
  proof (cases res)
    case (Inl e)
    with assms n have "r = Some (VersionFailed e)" "st' = st\<lparr>rd_seq := q\<rparr>"
      by (auto simp: emitOne_def st_build_def)
    then show ?thesis unfolding emits_def
      by (intro exI [of _ "[]"] exI [of _ q] exI [of _ "rd_world st"]) simp
  next
    case (Inr seq)
    define ev where "ev = \<lparr>ev_Meta = Some (al_meta (em_align em)), ev_Operation = op, ev_Before = before,
      ev_After = after, ev_Timestamp = em_timestamp em, ev_GTID = em_gtid em, ev_TxID = 0, ev_Seq = seq,
      ev_Cursor = [], ev_RowsScanned = 0\<rparr>"
    obtain ok w where s: "be_send env ev (rd_world st) = (ok, w)" by force
    from assms n Inr s have "(r, st') = (if ok then (None, st\<lparr>rd_seq := q, rd_world := w, rd_out := rd_out st @ [ev]\<rparr>)
        else (Some StreamCancelled, st\<lparr>rd_seq := q, rd_world := w\<rparr>))"
      by (auto simp: emitOne_def st_build_def st_send_def ev_def [symmetric])
    then show ?thesis unfolding emits_def
      by (intro exI [of _ "if ok then [ev] else []"] exI [of _ q] exI [of _ w])
        (auto simp: ev_def changeImage_def split: if_splits)
  qed
qed

fun pairImages :: "row list \<Rightarrow> (operation \<times> row option \<times> row option) list" where
  "pairImages (before # after # rows) = (OperationUpdate, Some before, Some after) # pairImages rows"
| "pairImages rows = []"

definition eachImage :: "operation \<Rightarrow> row \<Rightarrow> operation \<times> row option \<times> row option" where
  "eachImage op r = (if op = OperationDelete then (op, Some r, None) else (op, None, Some r))"

definition aligned :: "alignment \<Rightarrow> row \<Rightarrow> row" where
  "aligned a values = projr (alignRow a values)"

lemma emitEach_emits:
  "emitEach env em op rows st = (r, st') \<Longrightarrow>
     emits em (map (\<lambda>v. eachImage op (aligned (em_align em) v)) rows) r st st'"
proof (induction rows arbitrary: st)
  case Nil
  then show ?case by (auto intro: emits_refl)
next
  case (Cons v rows)
  let ?imgs = "map (\<lambda>v. eachImage op (aligned (em_align em) v)) rows"
  show ?case
  proof (cases "alignRow (em_align em) v")
    case (Inl e)
    with Cons.prems show ?thesis by (auto intro: emits_refl)
  next
    case (Inr x)
    then have x: "aligned (em_align em) v = x" by (simp add: aligned_def)
    define one where "one = (if op = OperationDelete then emitOne env em op (Some x) None st
               else emitOne env em op None (Some x) st)"
    obtain r1 st1 where s: "one = (r1, st1)" by force
    have one: "emits em [eachImage op x] r1 st st1"
      using s emitOne_emits unfolding one_def eachImage_def by (auto split: if_splits)
    have run: "(case r1 of Some e \<Rightarrow> (Some e, st1) | None \<Rightarrow> emitEach env em op rows st1) = (r, st')"
      using Cons.prems Inr s unfolding one_def by simp
    show ?thesis
    proof (cases r1)
      case None
      with run Cons.IH [of st1] emits_trans [OF one [unfolded None], of ?imgs r st'] x show ?thesis by simp
    next
      case (Some e)
      with run emits_Some [OF one [unfolded Some], of ?imgs] x show ?thesis by auto
    qed
  qed
qed

lemma emitUpdates_emits:
  "emitUpdates env em rows st = (r, st') \<Longrightarrow>
     emits em (pairImages (map (aligned (em_align em)) rows)) r st st'"
proof (induction env em rows st rule: emitUpdates.induct)
  case (1 env em v1 v2 rows st)
  let ?imgs = "pairImages (map (aligned (em_align em)) rows)"
  show ?case
  proof (cases "isl (alignRow (em_align em) v1) \<or> isl (alignRow (em_align em) v2)")
    case True
    with "1.prems" show ?thesis by (auto simp: isl_def intro: emits_refl split: sum.splits)
  next
    case False
    then obtain x1 x2 where x: "alignRow (em_align em) v1 = Inr x1" "alignRow (em_align em) v2 = Inr x2"
      by (auto simp: isl_def) (metis sumE)
    then have a: "aligned (em_align em) v1 = x1" "aligned (em_align em) v2 = x2" by (simp_all add: aligned_def)
    obtain r1 st1 where s: "emitOne env em OperationUpdate (Some x1) (Some x2) st = (r1, st1)" by force
    note one = emitOne_emits [OF s]
    have run: "(case r1 of Some e \<Rightarrow> (Some e, st1) | None \<Rightarrow> emitUpdates env em rows st1) = (r, st')"
      using "1.prems" x s by simp
    show ?thesis
    proof (cases r1)
      case None
      with run "1.IH" [OF refl x(1) x(2) s [unfolded None, symmetric] refl] emits_trans [OF one [unfolded None], of ?imgs r st'] a
      show ?thesis by simp
    next
      case (Some e)
      with run emits_Some [OF one [unfolded Some], of ?imgs] a show ?thesis by auto
    qed
  qed
qed (auto intro: emits_refl)

text \<open>
  What the rows of an event become, once a definition to align them with has been found.
\<close>

definition rowImages :: "rows_event \<Rightarrow> alignment \<Rightarrow> (operation \<times> row option \<times> row option) list" where
  "rowImages e a = (case operationFor (re_Type e) of
      None \<Rightarrow> []
    | Some (op, isUpdate) \<Rightarrow>
        if isUpdate then pairImages (map (aligned a) (re_Rows e))
        else map (\<lambda>v. eachImage op (aligned a v)) (re_Rows e))"

definition isWatched :: "('g, 'q, 'w) reader \<Rightarrow> rows_event \<Rightarrow> bool" where
  "isWatched st e \<longleftrightarrow> rd_watched st = [] \<or> toLower (re_Schema e @ ''.'' @ re_Table e) \<in> set (rd_watched st)"

text \<open>The alignment is the identity on rows as wide as the table, or goes by the names the event carries.\<close>

definition alignmentFits :: "rows_event \<Rightarrow> alignment \<Rightarrow> bool" where
  "alignmentFits e a \<longleftrightarrow> re_Rows e = [] \<or>
     (if al_direct a then length (hd (re_Rows e)) = length (tm_Columns (al_meta a))
      else al_positions a = namedPositions (al_meta a) (re_ColumnNames e) \<and>
        length (re_ColumnNames e) = length (hd (re_Rows e)))"

lemma st_alignment_frame:
  "st_alignment env e meta st = (r, st') \<Longrightarrow> \<exists>sch w. st' = st\<lparr>rd_schemas := sch, rd_world := w\<rparr>"
  by (auto simp: st_alignment_def Let_def split: if_splits prod.splits sum.splits)
     (metis reader.surjective reader.update_convs(4,6))+

lemma st_alignment_fits:
  "st_alignment env e meta st = (Inr a, st') \<Longrightarrow> alignmentFits e a"
  by (auto simp: st_alignment_def alignmentFits_def Let_def split: if_splits prod.splits sum.splits)

lemma emitRows_cases:
  assumes "emitRows env e st = (r, st')"
  obtains (quiet) sch w where "st' = st\<lparr>rd_schemas := sch, rd_world := w\<rparr>"
      and "r = None \<Longrightarrow> operationFor (re_Type e) = None \<or> \<not> isWatched st e"
  | (emitting) op isUpdate a sch w em where "operationFor (re_Type e) = Some (op, isUpdate)" and "isWatched st e"
      and "alignmentFits e a" and "em = \<lparr>em_align = a, em_timestamp = ofUnix (uint (re_Timestamp e)),
         em_gtid = positionForRows env st\<rparr>"
      and "(if isUpdate then emitUpdates env em (re_Rows e) (st\<lparr>rd_schemas := sch, rd_world := w\<rparr>)
         else emitEach env em op (re_Rows e) (st\<lparr>rd_schemas := sch, rd_world := w\<rparr>)) = (r, st')"
proof (cases "operationFor (re_Type e) = None \<or> \<not> isWatched st e")
  case True
  then have "st' = st\<lparr>rd_schemas := rd_schemas st, rd_world := rd_world st\<rparr>"
    using assms by (auto simp: emitRows_def isWatched_def split: option.splits)
  with True quiet show ?thesis by blast
next
  case False
  then obtain op isUpdate where op: "operationFor (re_Type e) = Some (op, isUpdate)" by auto
  obtain res sch w where t: "storeTable (be_load env) (re_Schema e) (re_Table e) (rd_schemas st) (rd_world st) = (res, sch, w)"
    by (metis prod_cases3)
  define st1 where "st1 = st\<lparr>rd_schemas := sch, rd_world := w\<rparr>"
  have w: "\<not> (rd_watched st \<noteq> [] \<and> toLower (re_Schema e @ ''.'' @ re_Table e) \<notin> set (rd_watched st))"
    using False by (simp add: isWatched_def)
  have run: "emitRows env e st = (case res of
        Inl err \<Rightarrow> (Some (DefinitionFailed err), st1)
      | Inr meta \<Rightarrow> (case st_alignment env e meta st1 of
            (Inl err, st2) \<Rightarrow> (Some err, st2)
          | (Inr align, st2) \<Rightarrow>
              (let em = \<lparr>em_align = align, em_timestamp = ofUnix (uint (re_Timestamp e)),
                         em_gtid = positionForRows env st2\<rparr>
               in if isUpdate then emitUpdates env em (re_Rows e) st2
                  else emitEach env em op (re_Rows e) st2)))"
    unfolding emitRows_def op option.case prod.case if_not_P [OF w] t Let_def st1_def [symmetric] ..
  show ?thesis
  proof (cases res)
    case (Inl err)
    with run assms have "r \<noteq> None" "st' = st1" by auto
    with quiet show ?thesis unfolding st1_def by blast
  next
    case (Inr meta)
    obtain al st2 where al: "st_alignment env e meta st1 = (al, st2)" by force
    from st_alignment_frame [OF al] obtain sch2 w2 where st2: "st2 = st\<lparr>rd_schemas := sch2, rd_world := w2\<rparr>"
      by (auto simp: st1_def)
    show ?thesis
    proof (cases al)
      case Al: (Inl err)
      with run assms Inr al have "r \<noteq> None" "st' = st2" by auto
      with quiet show ?thesis unfolding st2 by blast
    next
      case Al: (Inr a)
      define em where "em = \<lparr>em_align = a, em_timestamp = ofUnix (uint (re_Timestamp e)), em_gtid = positionForRows env st\<rparr>"
      have "positionForRows env st2 = positionForRows env st" by (simp add: st2 positionForRows_def)
      with run assms Inr al Al have "(if isUpdate then emitUpdates env em (re_Rows e) st2
          else emitEach env em op (re_Rows e) st2) = (r, st')" by (simp add: em_def)
      from emitting [OF op _ st_alignment_fits em_def this [unfolded st2]] False al Al show ?thesis by blast
    qed
  qed
qed

lemma emitRows_emits:
  assumes "emitRows env e st = (r, st')"
  shows "\<exists>a sch w. emits \<lparr>em_align = a, em_timestamp = ofUnix (uint (re_Timestamp e)), em_gtid = positionForRows env st\<rparr>
       (if isWatched st e then rowImages e a else []) r (st\<lparr>rd_schemas := sch, rd_world := w\<rparr>) st' \<and>
     (r = None \<and> isWatched st e \<and> operationFor (re_Type e) \<noteq> None \<longrightarrow> alignmentFits e a)"
    (is "\<exists>a sch w. ?emits a sch w \<and> ?fits a")
  using assms
proof (cases rule: emitRows_cases)
  case (quiet sch w)
  then have "?emits a sch w" "?fits a" for a
    by (cases r; auto simp: rowImages_def intro!: emits_refl)+
  then show ?thesis by blast
next
  case (emitting op isUpdate a sch w em)
  then have "?emits a sch w"
    using emitUpdates_emits [of env em] emitEach_emits [of env em op]
    by (auto simp: rowImages_def split: if_splits)
  with emitting(3) show ?thesis by blast
qed

subsection \<open>Alignment by name\<close>

lemma placeValues_spec:
  assumes "distinct (map snd (filter (\<lambda>(v, p). p \<noteq> None) vps))"
    and "\<forall>(v, p) \<in> set vps. \<forall>q. p = Some q \<longrightarrow> q < length out"
  shows "\<exists>row. placeValues out vps = Inr row \<and> length row = length out \<and>
     (\<forall>v q. (v, Some q) \<in> set vps \<longrightarrow> row ! q = v) \<and>
     (\<forall>q. (\<forall>v. (v, Some q) \<notin> set vps) \<longrightarrow> row ! q = out ! q)"
  using assms
proof (induction out vps rule: placeValues.induct)
  case (3 out v pos rest)
  from 3(2,3) have "\<exists>row. placeValues (out[pos := v]) rest = Inr row \<and> length row = length (out[pos := v]) \<and>
     (\<forall>v q. (v, Some q) \<in> set rest \<longrightarrow> row ! q = v) \<and>
     (\<forall>q. (\<forall>v. (v, Some q) \<notin> set rest) \<longrightarrow> row ! q = out[pos := v] ! q)"
    by (intro 3(1)) (auto split: prod.splits)
  then obtain row where row: "placeValues (out[pos := v]) rest = Inr row" "length row = length out"
    "\<And>v q. (v, Some q) \<in> set rest \<Longrightarrow> row ! q = v"
    "\<And>q. \<forall>v. (v, Some q) \<notin> set rest \<Longrightarrow> row ! q = out[pos := v] ! q" by auto
  have pos: "pos < length out" using 3(3) by auto
  have "\<forall>v. (v, Some pos) \<notin> set rest"
    using 3(2) by (force simp: image_iff)
  from row(4) [OF this] pos have "row ! pos = v" by simp
  with row pos show ?case by (auto simp: nth_list_update)
qed auto

lemma zip_filter_snd:
  "length vs = length ps \<Longrightarrow> map snd (filter (\<lambda>(v, p). P p) (zip vs ps)) = filter P ps"
  by (induction rule: list_induct2) auto

lemma same_position:
  assumes "wellFormed meta" and "Column meta m = Some c" and "d \<in> set (tm_Columns meta)"
    and "col_Position c = col_Position d"
  shows "c = d"
  using wellFormed_position(2) [OF assms(1)] Column_SomeD(1) [OF assms(2)] assms(3,4) by metis

lemma alignRow_by_name:
  assumes wf: "wellFormed meta" and dist: "distinct (map toLower names)" and len: "length values = length names"
    and a: "\<not> al_direct a" "al_meta a = meta" "al_positions a = namedPositions meta names"
  shows "\<exists>row. alignRow a values = Inr row \<and> length row = length (tm_Columns meta) \<and>
     (\<forall>c \<in> set (tm_Columns meta). row ! col_Position c =
        (case indexWhere (\<lambda>n. equalFold n (col_Name c)) names of Some i \<Rightarrow> values ! i | None \<Rightarrow> VNil))"
proof -
  define f where "f n = map_option col_Position (Column meta n)" for n
  define vps where "vps = zip values (map f names)"
  have in_vps: "(v, p) \<in> set vps \<longleftrightarrow> (\<exists>i < length names. v = values ! i \<and> p = f (names ! i))" for v p
    using len by (auto simp: vps_def set_zip)
  have "inj_on f {n \<in> set names. f n \<noteq> None}"
  proof (rule inj_onI)
    fix m n assume mn: "m \<in> {n \<in> set names. f n \<noteq> None}" "n \<in> {n \<in> set names. f n \<noteq> None}" "f m = f n"
    then obtain c d where cd: "Column meta m = Some c" "Column meta n = Some d" "col_Position c = col_Position d"
      by (auto simp: f_def)
    then have "c = d" using same_position [OF wf cd(1) Column_SomeD(1) [OF cd(2)]] by simp
    then have "toLower m = toLower n" using Column_SomeD(2) cd by metis
    then show "m = n" using dist mn by (auto simp: distinct_map dest: inj_onD)
  qed
  then have "distinct (map f (filter (\<lambda>n. f n \<noteq> None) names))"
    using dist by (simp add: distinct_map)
  then have "distinct (map snd (filter (\<lambda>(v, p). p \<noteq> None) vps))"
    unfolding vps_def by (subst zip_filter_snd) (simp_all add: len filter_map comp_def)
  moreover have "\<forall>(v, p) \<in> set vps. \<forall>q. p = Some q \<longrightarrow> q < length (replicate (length (tm_Columns meta)) VNil)"
  proof (clarify)
    fix v q assume "(v, Some q) \<in> set vps"
    then obtain j d where "Column meta (names ! j) = Some d" "q = col_Position d"
      by (auto simp: in_vps f_def dest!: sym [of "Some q"])
    with wellFormed_position(1) [OF wf Column_SomeD(1)] show "q < length (replicate (length (tm_Columns meta)) VNil)"
      by simp
  qed
  ultimately obtain row where row: "placeValues (replicate (length (tm_Columns meta)) VNil) vps = Inr row"
    "length row = length (tm_Columns meta)" "\<And>v q. (v, Some q) \<in> set vps \<Longrightarrow> row ! q = v"
    "\<And>q. \<forall>v. (v, Some q) \<notin> set vps \<Longrightarrow> row ! q = replicate (length (tm_Columns meta)) VNil ! q"
    using placeValues_spec [of vps "replicate (length (tm_Columns meta)) VNil"] by auto
  have "row ! col_Position c = (case indexWhere (\<lambda>n. equalFold n (col_Name c)) names of
      Some i \<Rightarrow> values ! i | None \<Rightarrow> VNil)" if c: "c \<in> set (tm_Columns meta)" for c
  proof (cases "indexWhere (\<lambda>n. equalFold n (col_Name c)) names")
    case (Some i)
    note i = indexWhere_Some [OF Some]
    then have "Column meta (names ! i) = Some c"
      using wellFormed_Column [OF wf c] by (simp add: Column_def equalFold_def)
    then have "(values ! i, Some (col_Position c)) \<in> set vps" using i by (auto simp: in_vps f_def)
    with row(3) Some show ?thesis by simp
  next
    case None
    have "(v, Some (col_Position c)) \<notin> set vps" for v
    proof
      assume "(v, Some (col_Position c)) \<in> set vps"
      then obtain j d where j: "j < length names" "Column meta (names ! j) = Some d" "col_Position d = col_Position c"
        by (auto simp: in_vps f_def dest!: sym [of "Some (col_Position c)"])
      then have "d = c" using same_position [OF wf j(2) c] by simp
      with j Column_SomeD(2) [OF j(2)] None show False
        by (auto simp: indexWhere_None equalFold_def)
    qed
    with row(4) wellFormed_position(1) [OF wf c] None show ?thesis by simp
  qed
  moreover have "namedPositions meta names = map f names" by (simp add: namedPositions_def f_def)
  ultimately show ?thesis using row(1,2) a by (auto simp: alignRow_def vps_def)
qed

subsection \<open>Transactions\<close>

text \<open>The transactions an event list has brought to an end, in order, and the one that is open.\<close>

definition track :: "binlog_event \<Rightarrow> string list \<times> string \<Rightarrow> string list \<times> string" where
  "track ev p = (case ev of
      GTIDEvent (Inr tx) \<Rightarrow> (fst p, tx)
    | XIDEvent \<Rightarrow> if snd p = [] then p else (fst p @ [snd p], [])
    | _ \<Rightarrow> p)"

definition committed :: "binlog_event list \<Rightarrow> string list" where
  "committed evs = fst (fold track evs ([], []))"

definition openTx :: "binlog_event list \<Rightarrow> string" where
  "openTx evs = snd (fold track evs ([], []))"

fun foldTx :: "('g, 'q, 'w) binlog_env \<Rightarrow> 'g \<Rightarrow> string list \<Rightarrow> 'g option" where
  "foldTx env g [] = Some g"
| "foldTx env g (tx # txs) = (case be_update env g tx of Inl _ \<Rightarrow> None | Inr g' \<Rightarrow> foldTx env g' txs)"

lemma foldTx_append:
  "foldTx env g (txs @ txs') = (case foldTx env g txs of None \<Rightarrow> None | Some g' \<Rightarrow> foldTx env g' txs')"
  by (induction txs arbitrary: g) (auto split: sum.splits)

text \<open>
  The event a change was read from: a row event of the list, before which the transactions in the
  change's position had ended.
\<close>

definition carriesPosition ::
    "('g, 'q, 'w) binlog_env \<Rightarrow> 'g \<Rightarrow> binlog_event list \<Rightarrow> change_event \<Rightarrow> bool" where
  "carriesPosition env g evs e \<longleftrightarrow> (\<exists>pre re post g'. evs = pre @ RowsEvent re # post \<and>
     foldTx env g (committed pre) = Some g' \<and> ev_GTID e = be_text env g' \<and>
     ev_Timestamp e = ofUnix (uint (re_Timestamp re)))"

lemma carriesPosition_snoc: "carriesPosition env g evs e \<Longrightarrow> carriesPosition env g (evs @ [ev]) e"
  unfolding carriesPosition_def by (metis append.assoc append_Cons)

lemma st_handle_quiet:
  assumes "st_handle env ev st = (r, st')" and "\<And>re. ev \<noteq> RowsEvent re"
  shows "rd_out st' = rd_out st"
  using assms by (auto simp: st_handle_def st_invalidate_def Let_def
      split: binlog_event.splits sum.splits option.splits if_splits)

lemma st_handle_tracks:
  assumes "st_handle env ev st = (None, st')" and "rd_executed st = foldTx env g (fst p)"
    and "rd_currentTx st = snd p" and "rd_executed st \<noteq> None"
  shows "rd_executed st' = foldTx env g (fst (track ev p)) \<and> rd_currentTx st' = snd (track ev p) \<and>
     rd_executed st' \<noteq> None"
proof (cases ev)
  case (RowsEvent re)
  from assms(1) RowsEvent have "emitRows env re st = (None, st')" by (simp add: st_handle_def)
  from emitRows_emits [OF this] have "rd_executed st' = rd_executed st" "rd_currentTx st' = rd_currentTx st"
    by (auto simp: emits_def)
  with assms RowsEvent show ?thesis by (simp add: track_def)
next
  case (GTIDEvent x)
  with assms show ?thesis by (cases x) (auto simp: st_handle_def track_def)
next
  case XIDEvent
  with assms show ?thesis
    by (auto simp: st_handle_def track_def foldTx_append split: if_splits option.splits sum.splits)
next
  case (QueryEvent db query)
  with assms show ?thesis
    by (auto simp: st_handle_def track_def st_invalidate_def Let_def split: if_splits option.splits)
qed (use assms in \<open>auto simp: st_handle_def track_def\<close>)

lemma streamed_positions:
  assumes "streamed env st0 evs r st" and "rd_executed st0 = Some g" and "rd_currentTx st0 = []" and "rd_out st0 = []"
  shows "(\<forall>e \<in> set (rd_out st). carriesPosition env g evs e) \<and>
     (r = None \<longrightarrow> rd_executed st = foldTx env g (committed evs) \<and> rd_executed st \<noteq> None \<and>
        rd_currentTx st = openTx evs)"
  using assms
proof induction
  case started
  then show ?case by (simp add: committed_def openTx_def)
next
  case (handled evs st ev w r st')
  let ?st = "st\<lparr>rd_world := w\<rparr>"
  let ?p = "fold track evs ([], [])"
  from handled.IH [OF handled.prems] have out: "\<forall>e \<in> set (rd_out st). carriesPosition env g evs e"
    and st: "rd_executed st = foldTx env g (committed evs)" "rd_executed st \<noteq> None" "rd_currentTx st = openTx evs"
    by blast+
  have ex: "rd_executed ?st = foldTx env g (fst ?p)" "rd_currentTx ?st = snd ?p"
    using st(1,3) by (simp_all add: committed_def openTx_def)
  have ex2: "rd_executed ?st \<noteq> None" using st(2) by simp
  have state: "r = None \<longrightarrow> rd_executed st' = foldTx env g (committed (evs @ [ev])) \<and> rd_executed st' \<noteq> None \<and>
      rd_currentTx st' = openTx (evs @ [ev])"
    using st_handle_tracks [OF _ ex ex2] handled.hyps(3) by (auto simp: committed_def openTx_def)
  have "\<forall>e \<in> set (rd_out st'). carriesPosition env g (evs @ [ev]) e"
  proof (cases "\<exists>re. ev = RowsEvent re")
    case False
    then have "rd_out st' = rd_out st" using st_handle_quiet [OF handled.hyps(3)] by simp
    with out carriesPosition_snoc show ?thesis by metis
  next
    case True
    then obtain re where re: "ev = RowsEvent re" by auto
    with handled.hyps(3) have "emitRows env re ?st = (r, st')" by (simp add: st_handle_def)
    from emitRows_emits [OF this] obtain new where new: "rd_out st' = rd_out st @ new"
      "\<forall>e \<in> set new. ev_GTID e = positionForRows env ?st \<and> ev_Timestamp e = ofUnix (uint (re_Timestamp re))"
      by (auto simp: emits_def)
    from ex ex2 obtain g' where g': "foldTx env g (committed evs) = Some g'" "positionForRows env ?st = be_text env g'"
      by (auto simp: positionForRows_def committed_def)
    have "carriesPosition env g (evs @ [ev]) e" if "e \<in> set new" for e
      unfolding carriesPosition_def
      by (intro exI [of _ evs] exI [of _ re] exI [of _ "[]"] exI [of _ g']) (use that new g' re in auto)
    with new out carriesPosition_snoc show ?thesis by fastforce
  qed
  with state show ?case by blast
next
  case (failed evs st e w)
  then show ?case by simp
qed

subsection \<open>Versions\<close>

text \<open>The number of requests to the sequencer is at most the number of rows.\<close>

fun rowCount :: "binlog_event \<Rightarrow> nat" where
  "rowCount (RowsEvent e) = length (re_Rows e)"
| "rowCount _ = 0"

context sequencer
begin

definition versionsOK :: "nat \<Rightarrow> ('g, 'q, 'w) reader \<Rightarrow> bool" where
  "versionsOK n st \<longleftrightarrow> (\<exists>issued. covered n issued (rd_seq st) \<and>
     (\<forall>e \<in> set (rd_out st). ev_Seq e \<in> set issued) \<and> sorted_wrt (<) (map ev_Seq (rd_out st)))"

lemma versionsOK_less: "versionsOK (n + m) st \<Longrightarrow> versionsOK n st"
proof (induction m)
  case (Suc m)
  then have "versionsOK (n + m) st" using covered_less unfolding versionsOK_def by fastforce
  then show ?case by (rule Suc.IH)
qed simp

lemma versionsOK_same:
  "rd_seq st' = rd_seq st \<Longrightarrow> rd_out st' = rd_out st \<Longrightarrow> versionsOK n st' \<longleftrightarrow> versionsOK n st"
  by (simp add: versionsOK_def)

lemma emitOne_versions:
  assumes "be_next env = next_version" and "versionsOK (Suc n) st"
    and "emitOne env em op before after st = (r, st')"
  shows "versionsOK n st'"
proof -
  from assms(2) obtain issued where ok: "covered (Suc n) issued (rd_seq st)"
    "\<forall>e \<in> set (rd_out st). ev_Seq e \<in> set issued" "sorted_wrt (<) (map ev_Seq (rd_out st))"
    by (auto simp: versionsOK_def)
  obtain res q where n: "next_version (rd_seq st) = (res, q)" by force
  show ?thesis
  proof (cases res)
    case (Inl e)
    with n assms(1,3) have "st' = st\<lparr>rd_seq := q\<rparr>" by (auto simp: emitOne_def st_build_def)
    with ok next_refused [OF ok(1)] n Inl show ?thesis by (auto simp: versionsOK_def)
  next
    case (Inr v)
    from next_grows [OF ok(1)] n Inr have grown: "covered n (v # issued) q" "\<forall>u \<in> set issued. u < v" by auto
    from n Inr assms(1,3) have st': "rd_seq st' = q"
      and new: "rd_out st' = rd_out st \<or> (\<exists>e. rd_out st' = rd_out st @ [e] \<and> ev_Seq e = v)"
      by (auto simp: emitOne_def st_build_def st_send_def split: prod.splits bool.splits)
    show ?thesis unfolding versionsOK_def st'
      by (intro exI [of _ "v # issued"]) (use ok grown new in \<open>auto simp: sorted_wrt_append\<close>)
  qed
qed

lemma emitEach_versions:
  assumes "be_next env = next_version"
  shows "versionsOK (n + length rows) st \<Longrightarrow> emitEach env em op rows st = (r, st') \<Longrightarrow> versionsOK n st'"
proof (induction rows arbitrary: st)
  case (Cons v rows)
  have less: "versionsOK n st" using Cons.prems(1) versionsOK_less by blast
  show ?case
  proof (cases "alignRow (em_align em) v")
    case (Inl e)
    with Cons.prems(2) less show ?thesis by simp
  next
    case (Inr x)
    define one where "one = (if op = OperationDelete then emitOne env em op (Some x) None st
               else emitOne env em op None (Some x) st)"
    obtain r1 st1 where s: "one = (r1, st1)" by force
    have ok: "versionsOK (n + length rows) st1"
      using emitOne_versions [OF assms, of "n + length rows" st] Cons.prems(1) s unfolding one_def
      by (auto split: if_splits)
    have run: "(case r1 of Some e \<Rightarrow> (Some e, st1) | None \<Rightarrow> emitEach env em op rows st1) = (r, st')"
      using Cons.prems(2) Inr s unfolding one_def by simp
    show ?thesis
      using run Cons.IH [OF ok] versionsOK_less [OF ok] by (cases r1) auto
  qed
qed simp

lemma emitUpdates_versions:
  "be_next env = next_version \<Longrightarrow> versionsOK (n + length rows) st \<Longrightarrow>
     emitUpdates env em rows st = (r, st') \<Longrightarrow> versionsOK n st'"
proof (induction env em rows st rule: emitUpdates.induct)
  case (1 env em v1 v2 rows st)
  have less: "versionsOK n st" using 1(3) versionsOK_less by blast
  show ?case
  proof (cases "isl (alignRow (em_align em) v1) \<or> isl (alignRow (em_align em) v2)")
    case True
    with 1(4) less show ?thesis by (auto simp: isl_def split: sum.splits)
  next
    case False
    then obtain x1 x2 where x: "alignRow (em_align em) v1 = Inr x1" "alignRow (em_align em) v2 = Inr x2"
      by (auto simp: isl_def) (metis sumE)
    obtain r1 st1 where s: "emitOne env em OperationUpdate (Some x1) (Some x2) st = (r1, st1)" by force
    have "versionsOK (Suc (n + length rows)) st"
      using versionsOK_less [of "Suc (n + length rows)" 1 st] 1(3) by simp
    from emitOne_versions [OF 1(2) this s] have ok: "versionsOK (n + length rows) st1" .
    have run: "(case r1 of Some e \<Rightarrow> (Some e, st1) | None \<Rightarrow> emitUpdates env em rows st1) = (r, st')"
      using 1(4) x s by simp
    show ?thesis
    proof (cases r1)
      case None
      with run 1(1) [OF refl x(1) x(2) s [unfolded None, symmetric] refl 1(2) ok] show ?thesis by simp
    next
      case (Some e)
      with run versionsOK_less [OF ok] show ?thesis by simp
    qed
  qed
qed (use versionsOK_less [of n 1] in auto)

lemma emitRows_versions:
  assumes "be_next env = next_version" and "versionsOK (n + length (re_Rows e)) st"
    and "emitRows env e st = (r, st')"
  shows "versionsOK n st'"
  using assms(3)
proof (cases rule: emitRows_cases)
  case (quiet sch w)
  then show ?thesis using versionsOK_less [OF assms(2)] by (simp add: versionsOK_def)
next
  case (emitting op isUpdate a sch w em)
  have ok: "versionsOK (n + length (re_Rows e)) (st\<lparr>rd_schemas := sch, rd_world := w\<rparr>)"
    using assms(2) by (simp add: versionsOK_def)
  show ?thesis
  proof (cases isUpdate)
    case True
    with emitUpdates_versions [OF assms(1) ok] emitting(5) show ?thesis by simp
  next
    case False
    with emitEach_versions [OF assms(1) ok] emitting(5) show ?thesis by simp
  qed
qed

lemma streamed_versions:
  assumes "be_next env = next_version"
  shows "streamed env st0 evs r st \<Longrightarrow> versionsOK (n + sum_list (map rowCount evs)) st0 \<Longrightarrow> versionsOK n st"
proof (induction arbitrary: n rule: streamed.induct)
  case (handled evs st ev w r st')
  have "versionsOK (n + rowCount ev) st" using handled.IH [of "n + rowCount ev"] handled.prems by (simp add: ac_simps)
  then have ok: "versionsOK (n + rowCount ev) (st\<lparr>rd_world := w\<rparr>)" by (simp add: versionsOK_def)
  show ?case
  proof (cases "\<exists>re. ev = RowsEvent re")
    case True
    with ok handled.hyps(3) emitRows_versions [OF assms] show ?thesis by (auto simp: st_handle_def)
  next
    case False
    then have "rd_out st' = rd_out st" "rd_seq st' = rd_seq st"
      using handled.hyps(3) st_handle_quiet [OF handled.hyps(3)]
      by (auto simp: st_handle_def st_invalidate_def Let_def
          split: binlog_event.splits sum.splits option.splits if_splits)
    moreover have "rowCount ev = 0" using False by (cases ev) auto
    ultimately show ?thesis using ok by (simp add: versionsOK_def)
  qed
next
  case (failed evs st e w)
  then show ?case using versionsOK_less by (simp add: versionsOK_def)
qed (rule versionsOK_less)

end

subsection \<open>Example: two transactions\<close>

text \<open>The first events of a run, executed.\<close>

fun readSome ::
    "nat \<Rightarrow> ('g, 'q, 'w) binlog_env \<Rightarrow> ('g, 'q, 'w) reader \<Rightarrow>
     binlog_event list \<times> stream_error option \<times> ('g, 'q, 'w) reader" where
  "readSome 0 env st = ([], None, st)"
| "readSome (Suc n) env st = (case be_event env (rd_world st) of
      (Inl e, w) \<Rightarrow> ([], Some (explain e), st\<lparr>rd_world := w\<rparr>)
    | (Inr ev, w) \<Rightarrow> (case st_handle env ev (st\<lparr>rd_world := w\<rparr>) of
          (Some e, st1) \<Rightarrow> ([ev], Some e, st1)
        | (None, st1) \<Rightarrow> (case readSome n env st1 of (evs, r, st2) \<Rightarrow> (ev # evs, r, st2))))"

lemma readSome_streamed: "readSome n env st = (evs, r, st') \<Longrightarrow> streamed env st evs r st'"
proof (induction n arbitrary: st evs)
  case 0
  then show ?case by (auto intro: streamed.started)
next
  case (Suc n)
  obtain ans w where ans: "be_event env (rd_world st) = (ans, w)" by force
  show ?case
  proof (cases ans)
    case (Inl e)
    with Suc.prems ans streamed.failed [OF streamed.started] show ?thesis by fastforce
  next
    case (Inr ev)
    obtain r1 st1 where h: "st_handle env ev (st\<lparr>rd_world := w\<rparr>) = (r1, st1)" by force
    from streamed.handled [OF streamed.started ans [unfolded Inr] h] have one: "streamed env st [ev] r1 st1" by simp
    show ?thesis
    proof (cases r1)
      case None
      with Suc.prems ans Inr h obtain evs2 where rest: "readSome n env st1 = (evs2, r, st')" "evs = ev # evs2"
        by (auto split: prod.splits)
      with streamed_trans [OF Suc.IH [OF rest(1)] one [unfolded None]] show ?thesis by simp
    next
      case (Some e)
      with Suc.prems ans Inr h one show ?thesis by auto
    qed
  qed
qed

definition exampleBinlogEnv :: "(string list, nat \<times> allocator \<times> memory_store, binlog_event list) binlog_env" where
  "exampleBinlogEnv = \<lparr>be_parse = (\<lambda>s. Inr [s]), be_update = (\<lambda>g tx. Inr (g @ [tx])), be_text = joinWith '','',
     be_load = (\<lambda>_ _ w. (Inr exampleTable, w)), be_next = allocNext ms_Load (ms_Save 0) (\<lambda>_. 0),
     be_send = (\<lambda>_ w. (True, w)), be_start = (\<lambda>_ w. (None, w)),
     be_event = (\<lambda>w. case w of [] \<Rightarrow> (Inl SyncCancelled, []) | ev # evs \<Rightarrow> (Inr ev, evs))\<rparr>"

definition exampleRowsEvent :: "event_type \<Rightarrow> string list \<Rightarrow> row list \<Rightarrow> rows_event" where
  "exampleRowsEvent t names rows = \<lparr>re_Type = t, re_Timestamp = 1, re_Schema = ''shop'', re_Table = ''orders'',
     re_ColumnNames = names, re_Rows = rows\<rparr>"

definition exampleEvents :: "binlog_event list" where
  "exampleEvents = [GTIDEvent (Inr ''t1''),
     RowsEvent (exampleRowsEvent WRITE_ROWS_EVENTv2 [] [[VUint64 1, VString ''a'', VNil], [VUint64 2, VString ''b'', VNil]]),
     XIDEvent, GTIDEvent (Inr ''t2''),
     RowsEvent (exampleRowsEvent UPDATE_ROWS_EVENTv2 [] [[VUint64 1, VString ''a'', VNil], [VUint64 1, VString ''c'', VNil]]),
     XIDEvent]"

definition exampleReader :: "(string list, nat \<times> allocator \<times> memory_store, binlog_event list) reader" where
  "exampleReader = \<lparr>rd_watched = [''shop.orders''], rd_executed = Some [''t0''], rd_currentTx = [],
     rd_schemas = NewStore, rd_seq = (0, exampleAllocator, NewMemoryStore), rd_world = exampleEvents, rd_out = []\<rparr>"

definition exampleStreamed :: "(string list, nat \<times> allocator \<times> memory_store, binlog_event list) reader" where
  "exampleStreamed = snd (snd (readSome 6 exampleBinlogEnv exampleReader))"

lemma exampleStreamed_out:
  "map (\<lambda>e. (changeImage e, ev_GTID e, ev_Seq e)) (rd_out exampleStreamed) =
     [((OperationInsert, None, Some [VUint64 1, VString ''a'', VNil]), ''t0'', 1),
      ((OperationInsert, None, Some [VUint64 2, VString ''b'', VNil]), ''t0'', 2),
      ((OperationUpdate, Some [VUint64 1, VString ''a'', VNil], Some [VUint64 1, VString ''c'', VNil]), ''t0,t1'', 3)]"
  "fst (readSome 6 exampleBinlogEnv exampleReader) = exampleEvents \<and>
   fst (snd (readSome 6 exampleBinlogEnv exampleReader)) = None"
  by code_simp+

lemma exampleStreamed_run: "streamed exampleBinlogEnv exampleReader exampleEvents None exampleStreamed"
  using readSome_streamed [of 6 exampleBinlogEnv exampleReader] exampleStreamed_out(2)
  by (metis exampleStreamed_def prod.collapse)

subsection \<open>Transactions are not counted before they end\<close>

definition gtids :: "binlog_event list \<Rightarrow> string list" where
  "gtids evs = concat (map (\<lambda>ev. case ev of GTIDEvent (Inr tx) \<Rightarrow> [tx] | _ \<Rightarrow> []) evs)"

lemma committed_gtids:
  "set (committed evs) \<subseteq> set (gtids evs) \<and> (openTx evs = [] \<or> openTx evs \<in> set (gtids evs))"
proof (induction evs rule: rev_induct)
  case (snoc ev evs)
  then show ?case
    by (auto simp: committed_def openTx_def gtids_def track_def split: binlog_event.splits sum.splits)
qed (simp add: committed_def openTx_def)

lemma open_not_committed:
  "distinct (gtids evs) \<Longrightarrow> openTx evs \<noteq> [] \<Longrightarrow> openTx evs \<notin> set (committed evs)"
proof (induction evs rule: rev_induct)
  case (snoc ev evs)
  have step: "fold track (evs @ [ev]) ([], []) = track ev (committed evs, openTx evs)"
    by (simp add: committed_def openTx_def)
  have "distinct (gtids evs)" using snoc.prems(1) by (simp add: gtids_def)
  with snoc committed_gtids [of evs] show ?case
    unfolding committed_def [of "evs @ [ev]"] openTx_def [of "evs @ [ev]"] step
    by (auto simp: track_def gtids_def split: binlog_event.splits sum.splits if_splits)
qed (simp add: openTx_def)

lemma gtids_prefix: "distinct (gtids (pre @ post)) \<Longrightarrow> distinct (gtids pre)"
  by (simp add: gtids_def)

subsection \<open>Properties\<close>





text \<open>
  C32: a row event of a watched table that is handled without an error sends every row it carries, in
  order and nothing else: an insert as the row after, a delete as the row before, and an update as
  the pair of both; each aligned with one definition of the table, which is as wide as the rows or
  whose columns are matched by the names the event carries.
\<close>

theorem emitRows_images:
  assumes "emitRows env e st = (None, st')" and "isWatched st e" and "operationFor (re_Type e) \<noteq> None"
  shows "\<exists>a new. rd_out st' = rd_out st @ new \<and> map changeImage new = rowImages e a \<and> alignmentFits e a \<and>
     (\<forall>ev \<in> set new. ev_Meta ev = Some (al_meta a) \<and> ev_GTID ev = positionForRows env st)"
  using emitRows_emits [OF assms(1)] assms(2,3) by (auto simp: emits_def)

definition exampleDelete :: rows_event where
  "exampleDelete = exampleRowsEvent DELETE_ROWS_EVENTv1 [] [[VUint64 1, VString ''a'', VNil]]"

theorem emitRows_images_witness:
  "\<exists>st' a new. emitRows exampleBinlogEnv exampleDelete exampleReader = (None, st') \<and> rd_out st' = new \<and>
     map changeImage new = [(OperationDelete, Some (aligned a [VUint64 1, VString ''a'', VNil]), None)]"
proof -
  have "fst (emitRows exampleBinlogEnv exampleDelete exampleReader) = None"
    "isWatched exampleReader exampleDelete" "operationFor (re_Type exampleDelete) = Some (OperationDelete, False)"
    by code_simp+
  then obtain st' where st': "emitRows exampleBinlogEnv exampleDelete exampleReader = (None, st')"
    and ok: "isWatched exampleReader exampleDelete" "operationFor (re_Type exampleDelete) = Some (OperationDelete, False)"
    by (metis prod.collapse)
  have "rd_out exampleReader = []" "re_Rows exampleDelete = [[VUint64 1, VString ''a'', VNil]]"
    by (simp_all add: exampleReader_def exampleDelete_def exampleRowsEvent_def)
  with emitRows_images [OF st'] ok st' show ?thesis by (auto simp: rowImages_def eachImage_def)
qed

text \<open>
  Rows written before a schema change are aligned by name.  With the names of its columns in the
  event, each once, a row of another width becomes a row of the table's width in which every column
  of the table has the value the event gives under its name, and no value when the event does not
  name it.
\<close>

theorem rows_aligned_by_name:
  assumes "alignmentFits e a" and "\<not> al_direct a" and "values \<in> set (re_Rows e)"
    and "length values = length (hd (re_Rows e))"
    and "wellFormed (al_meta a)" and "distinct (map toLower (re_ColumnNames e))"
  shows "\<exists>row. alignRow a values = Inr row \<and> length row = length (tm_Columns (al_meta a)) \<and>
     (\<forall>c \<in> set (tm_Columns (al_meta a)). row ! col_Position c =
        (case indexWhere (\<lambda>n. equalFold n (col_Name c)) (re_ColumnNames e) of
           Some i \<Rightarrow> values ! i | None \<Rightarrow> VNil))"
proof (rule alignRow_by_name [OF assms(5,6) _ assms(2) refl])
  have "re_Rows e \<noteq> []" using assms(3) by auto
  with assms(1,2) have fits: "al_positions a = namedPositions (al_meta a) (re_ColumnNames e)"
    "length (re_ColumnNames e) = length (hd (re_Rows e))" by (auto simp: alignmentFits_def)
  then show "length values = length (re_ColumnNames e)" using assms(4) by simp
  from fits show "al_positions a = namedPositions (al_meta a) (re_ColumnNames e)" by simp
qed

definition exampleOldRows :: rows_event where
  "exampleOldRows = exampleRowsEvent WRITE_ROWS_EVENTv2 [''NAME'', ''id''] [[VString ''x'', VUint64 7]]"

definition exampleAlignment :: alignment where
  "exampleAlignment = \<lparr>al_meta = exampleTable, al_positions = namedPositions exampleTable [''NAME'', ''id''],
     al_direct = False\<rparr>"

theorem rows_aligned_by_name_witness:
  "\<exists>row. alignRow exampleAlignment [VString ''x'', VUint64 7] = Inr row \<and> length row = 3"
proof -
  have "length (tm_Columns exampleTable) = 3" by (simp add: exampleTable_def)
  moreover have "distinct (map toLower (re_ColumnNames exampleOldRows))" by code_simp
  ultimately show ?thesis
    using rows_aligned_by_name [of exampleOldRows exampleAlignment "[VString ''x'', VUint64 7]"] exampleTable_wellFormed
    by (auto simp: alignmentFits_def exampleOldRows_def exampleRowsEvent_def exampleAlignment_def)
qed

end
