(* ===== verification/Router.thy ===== *)
theory Router
  imports Streamer Settings "HOL-Library.AList"
begin

text \<open>
  \<^verbatim>\<open>internal/supervisor/router.go\<close> and \<^verbatim>\<open>group.go\<close>: one reader serves every stream of a source.  The router
  delivers each change to the queues of the streams that watch its table, the start position is the one
  that lies behind every stream, and the group remembers the first failure of its tasks.

  A channel is a number; what has been sent to it and whether it is closed are kept in \<open>queues\<close>.  A
  send blocks until there is room or the context is done: which of the two happens at the \<^verbatim>\<open>n\<close>th send of
  a run is the argument \<open>done\<close>.  The map \<^verbatim>\<open>byTable\<close> and the maps of positions are their lists of entries, in
  the order in which they happen to be iterated.
\<close>

subsection \<open>The router\<close>

record router =
  ro_byTable :: "(string \<times> nat list) list"
  ro_closed :: bool
  ro_channels :: "nat list"

definition NewRouter :: router where
  "NewRouter = \<lparr>ro_byTable = [], ro_closed = False, ro_channels = []\<rparr>"

definition targetsOf :: "router \<Rightarrow> string \<Rightarrow> nat list" where
  "targetsOf r key = (case map_of (ro_byTable r) key of None \<Rightarrow> [] | Some chans \<Rightarrow> chans)"

definition ro_Add :: "string \<Rightarrow> nat \<Rightarrow> router \<Rightarrow> router" where
  "ro_Add table out r = (let key = toLower table in r\<lparr>
     ro_byTable := AList.update key (targetsOf r key @ [out]) (ro_byTable r),
     ro_channels := ro_channels r @ [out]\<rparr>)"

definition Tables :: "router \<Rightarrow> string list" where
  "Tables r = map fst (ro_byTable r)"

record queues =
  qs_sent :: "nat \<Rightarrow> change_event list"
  qs_closed :: "nat set"
  qs_sends :: nat

datatype route_error = RouteCancelled | RoutePanic

text \<open>The loop over the targets; a send on a closed channel panics.\<close>

fun sendTo :: "(nat \<Rightarrow> bool) \<Rightarrow> change_event \<Rightarrow> nat list \<Rightarrow> queues \<Rightarrow> route_error option \<times> queues" where
  "sendTo done ev [] q = (None, q)"
| "sendTo done ev (out # outs) q =
     (if out \<in> qs_closed q then (Some RoutePanic, q)
      else if done (qs_sends q) then (Some RouteCancelled, q\<lparr>qs_sends := Suc (qs_sends q)\<rparr>)
      else sendTo done ev outs (q\<lparr>qs_sent := (qs_sent q)(out := qs_sent q out @ [ev]), qs_sends := Suc (qs_sends q)\<rparr>))"

definition Route :: "(nat \<Rightarrow> bool) \<Rightarrow> router \<Rightarrow> change_event \<Rightarrow> queues \<Rightarrow> route_error option \<times> queues" where
  "Route done r ev q = (case ev_Meta ev of
      None \<Rightarrow> (None, q)
    | Some meta \<Rightarrow> sendTo done ev (targetsOf r (toLower (Name meta))) q)"

text \<open>Closing a channel that is closed already panics.\<close>

fun closeAll :: "nat list \<Rightarrow> queues \<Rightarrow> route_error option \<times> queues" where
  "closeAll [] q = (None, q)"
| "closeAll (out # outs) q =
     (if out \<in> qs_closed q then (Some RoutePanic, q)
      else closeAll outs (q\<lparr>qs_closed := insert out (qs_closed q)\<rparr>))"

definition ro_Close :: "router \<Rightarrow> queues \<Rightarrow> route_error option \<times> router \<times> queues" where
  "ro_Close r q =
     (if ro_closed r then (None, r, q)
      else (case closeAll (ro_channels r) q of (e, q1) \<Rightarrow> (e, r\<lparr>ro_closed := True\<rparr>, q1)))"

text \<open>The reader's task (\<^verbatim>\<open>startReader\<close>): route every event, and close the router however the loop ends.\<close>

fun routeAll :: "(nat \<Rightarrow> bool) \<Rightarrow> router \<Rightarrow> change_event list \<Rightarrow> queues \<Rightarrow> route_error option \<times> queues" where
  "routeAll done r [] q = (None, q)"
| "routeAll done r (ev # evs) q = (case Route done r ev q of
      (Some e, q1) \<Rightarrow> (Some e, q1)
    | (None, q1) \<Rightarrow> routeAll done r evs q1)"

datatype reader_end = ReaderRouted route_error | SourceStopped stream_error | ReaderDone

definition readerTask ::
    "(nat \<Rightarrow> bool) \<Rightarrow> router \<Rightarrow> change_event list \<Rightarrow> stream_error option \<Rightarrow> queues \<Rightarrow> reader_end \<times> router \<times> queues" where
  "readerTask done r evs streamErr q = (case routeAll done r evs q of (e, q1) \<Rightarrow>
     (case ro_Close r q1 of (panic, r2, q2) \<Rightarrow>
        (case panic of
           Some p \<Rightarrow> (ReaderRouted p, r2, q2)
         | None \<Rightarrow> (case e of
               Some x \<Rightarrow> (ReaderRouted x, r2, q2)
             | None \<Rightarrow> (case streamErr of
                   Some s \<Rightarrow> (SourceStopped s, r2, q2)
                 | None \<Rightarrow> (ReaderDone, r2, q2))))))"

text \<open>The registrations of \<^verbatim>\<open>stream\<close>: the table and the queue of every stream, in order.\<close>

definition routerFor :: "(string \<times> nat) list \<Rightarrow> router" where
  "routerFor regs = fold (\<lambda>(table, out). ro_Add table out) regs NewRouter"

subsection \<open>The start position\<close>

datatype position_error = NoPositions | UnreadablePosition string string string | Diverged "(string \<times> string) list"

fun containedInAll :: "('g \<Rightarrow> 'g \<Rightarrow> bool) \<Rightarrow> string \<Rightarrow> 'g \<Rightarrow> (string \<times> 'g) list \<Rightarrow> bool" where
  "containedInAll contain stream candidate [] = True"
| "containedInAll contain stream candidate ((other, theirs) # rest) =
     (if other = stream then containedInAll contain stream candidate rest
      else if \<not> contain theirs candidate then False
      else containedInAll contain stream candidate rest)"

definition parsePositions ::
    "(string \<Rightarrow> string + 'g) \<Rightarrow> (string \<times> string) list \<Rightarrow> position_error + (string \<times> 'g) list" where
  "parsePositions parse positions = mapResult (\<lambda>(stream, text). case parse text of
      Inl e \<Rightarrow> Inl (UnreadablePosition stream text e)
    | Inr gset \<Rightarrow> Inr (stream, gset)) positions"

definition sharedStartPosition ::
    "(string \<Rightarrow> string + 'g) \<Rightarrow> ('g \<Rightarrow> 'g \<Rightarrow> bool) \<Rightarrow> (string \<times> string) list \<Rightarrow> position_error + string" where
  "sharedStartPosition parse contain positions =
     (if positions = [] then Inl NoPositions
      else (case parsePositions parse positions of
          Inl e \<Rightarrow> Inl e
        | Inr parsed \<Rightarrow> (case find (\<lambda>(stream, candidate). containedInAll contain stream candidate parsed) parsed of
              None \<Rightarrow> Inl (Diverged positions)
            | Some (stream, _) \<Rightarrow> Inr (case map_of positions stream of None \<Rightarrow> [] | Some text \<Rightarrow> text))))"

subsection \<open>The group (group.go)\<close>

text \<open>The tasks report in some order; the first failure is kept, and any failure cancels the context.\<close>

record 'e group =
  gr_first :: "'e option"
  gr_cancelled :: bool

definition newGroup :: "'e group" where
  "newGroup = \<lparr>gr_first = None, gr_cancelled = False\<rparr>"

definition taskEnds :: "'e option \<Rightarrow> 'e group \<Rightarrow> 'e group" where
  "taskEnds err g = (case err of
      None \<Rightarrow> g
    | Some e \<Rightarrow> \<lparr>gr_first = (if gr_first g = None then Some e else gr_first g), gr_cancelled = True\<rparr>)"

definition groupWait :: "'e option list \<Rightarrow> 'e group \<Rightarrow> 'e option \<times> 'e group" where
  "groupWait ends g = (let g' = fold taskEnds ends g in (gr_first g', g'\<lparr>gr_cancelled := True\<rparr>))"

lemma fold_taskEnds:
  "gr_first (fold taskEnds ends g) = (case gr_first g of
      Some e \<Rightarrow> Some e | None \<Rightarrow> (case filter (\<lambda>e. e \<noteq> None) ends of [] \<Rightarrow> None | e # _ \<Rightarrow> e))"
  by (induction ends arbitrary: g) (auto simp: taskEnds_def split: option.splits list.splits)

lemma groupWait_first:
  "fst (groupWait ends newGroup) = (case filter (\<lambda>e. e \<noteq> None) ends of [] \<Rightarrow> None | e # _ \<Rightarrow> e)"
  by (simp add: groupWait_def fold_taskEnds newGroup_def Let_def)

subsection \<open>Delivery\<close>

definition watches :: "(string \<times> nat) list \<Rightarrow> nat \<Rightarrow> change_event \<Rightarrow> bool" where
  "watches regs out ev \<longleftrightarrow>
     (\<exists>meta table. ev_Meta ev = Some meta \<and> (table, out) \<in> set regs \<and> toLower table = toLower (Name meta))"

lemma targetsOf_Add:
  "targetsOf (ro_Add table out r) key = targetsOf r key @ (if key = toLower table then [out] else [])"
  by (auto simp: targetsOf_def ro_Add_def Let_def update_conv')

lemma routerFor_targets:
  "targetsOf (fold (\<lambda>(table, out). ro_Add table out) regs r) key =
     targetsOf r key @ map snd (filter (\<lambda>(table, out). toLower table = key) regs)"
  by (induction regs arbitrary: r) (auto simp: targetsOf_Add)

lemma routerFor_channels: "ro_channels (fold (\<lambda>(table, out). ro_Add table out) regs r) = ro_channels r @ map snd regs"
  by (induction regs arbitrary: r) (auto simp: ro_Add_def Let_def)

lemma routerFor_open: "ro_closed (fold (\<lambda>(table, out). ro_Add table out) regs r) = ro_closed r"
  by (induction regs arbitrary: r) (simp_all add: ro_Add_def Let_def split_beta)

lemma routerFor_targetsOf:
  "targetsOf (routerFor regs) key = map snd (filter (\<lambda>(table, out). toLower table = key) regs)"
  by (simp add: routerFor_def routerFor_targets) (simp add: targetsOf_def NewRouter_def)

lemma sendTo_open:
  assumes "distinct outs" and "set outs \<inter> qs_closed q = {}" and "sendTo done ev outs q = (e, q')"
  shows "qs_closed q' = qs_closed q \<and> e \<noteq> Some RoutePanic \<and> (\<exists>reached. prefix reached outs \<and> (e = None \<longrightarrow> reached = outs) \<and>
     (\<forall>out. qs_sent q' out = qs_sent q out @ (if out \<in> set reached then [ev] else [])))"
  using assms
proof (induction outs arbitrary: q)
  case Nil
  then show ?case by auto
next
  case (Cons out outs)
  show ?case
  proof (cases "done (qs_sends q)")
    case True
    with Cons.prems show ?thesis by (auto intro!: exI [of _ "[]"])
  next
    case False
    let ?q = "q\<lparr>qs_sent := (qs_sent q)(out := qs_sent q out @ [ev]), qs_sends := Suc (qs_sends q)\<rparr>"
    from False Cons.prems have step: "sendTo done ev outs ?q = (e, q')" by (auto split: if_splits)
    obtain reached where r: "qs_closed q' = qs_closed q" "e \<noteq> Some RoutePanic" "prefix reached outs" "e = None \<longrightarrow> reached = outs"
      "\<forall>o'. qs_sent q' o' = qs_sent ?q o' @ (if o' \<in> set reached then [ev] else [])"
      using Cons.IH [OF _ _ step] Cons.prems by auto
    moreover have "out \<notin> set reached" using r(3) Cons.prems(1) by (auto dest: set_mono_prefix)
    ultimately show ?thesis by (intro conjI exI [of _ "out # reached"]) auto
  qed
qed

lemma routerFor_member:
  "out \<in> set (targetsOf (routerFor regs) (toLower (Name meta))) \<longleftrightarrow> (\<exists>table. (table, out) \<in> set regs \<and> toLower table = toLower (Name meta))"
  by (force simp: routerFor_targetsOf)

lemma Route_step:
  assumes regs: "distinct (map snd regs)" and open': "qs_closed q = {}" and run: "Route done (routerFor regs) ev q = (e, q')"
  shows "qs_closed q' = {} \<and> e \<noteq> Some RoutePanic \<and>
    (\<forall>out. qs_sent q' out = qs_sent q out @ (if watches regs out ev then [ev] else []) \<or> e \<noteq> None \<and> qs_sent q' out = qs_sent q out)"
proof (cases "ev_Meta ev")
  case None
  with run open' show ?thesis by (auto simp: Route_def watches_def)
next
  case (Some meta)
  let ?outs = "targetsOf (routerFor regs) (toLower (Name meta))"
  have d: "distinct ?outs" using regs unfolding routerFor_targetsOf by (rule distinct_map_filter)
  from Some run have "sendTo done ev ?outs q = (e, q')" by (simp add: Route_def)
  from sendTo_open [OF d _ this] open' obtain reached where r: "qs_closed q' = {}" "e \<noteq> Some RoutePanic"
    "prefix reached ?outs" "e = None \<longrightarrow> reached = ?outs"
    "\<forall>out. qs_sent q' out = qs_sent q out @ (if out \<in> set reached then [ev] else [])" by auto
  have w: "watches regs out ev \<longleftrightarrow> out \<in> set ?outs" for out by (auto simp: watches_def Some routerFor_member)
  show ?thesis unfolding w using r set_mono_prefix [OF r(3)] by (auto split: if_splits)
qed

lemma routeAll_delivers:
  assumes "distinct (map snd regs)" and "qs_closed q = {}" and "routeAll done (routerFor regs) evs q = (e, q')"
  shows "qs_closed q' = {} \<and> e \<noteq> Some RoutePanic \<and>
    (\<forall>out. \<exists>got. qs_sent q' out = qs_sent q out @ got \<and> prefix got (filter (watches regs out) evs) \<and>
       (e = None \<longrightarrow> got = filter (watches regs out) evs))"
  using assms(2,3)
proof (induction evs arbitrary: q)
  case Nil
  then show ?case by auto
next
  case (Cons ev evs)
  obtain e1 q1 where step: "Route done (routerFor regs) ev q = (e1, q1)" by force
  note s = Route_step [OF assms(1) Cons.prems(1) step]
  show ?case
  proof (cases e1)
    case (Some x)
    with Cons.prems step have eq: "e = Some x" "q' = q1" by auto
    have "\<exists>got. qs_sent q1 out = qs_sent q out @ got \<and> prefix got (filter (watches regs out) (ev # evs))" for out
      using conjunct2 [OF conjunct2 [OF s], THEN spec, of out]
    proof
      assume "qs_sent q1 out = qs_sent q out @ (if watches regs out ev then [ev] else [])"
      then show ?thesis by (intro exI [of _ "if watches regs out ev then [ev] else []"]) auto
    qed (auto intro: exI [of _ "[]"])
    with s eq Some show ?thesis by simp
  next
    case None
    with Cons.prems step have rest: "routeAll done (routerFor regs) evs q1 = (e, q')" by auto
    have "\<exists>got. qs_sent q' out = qs_sent q out @ got \<and> prefix got (filter (watches regs out) (ev # evs)) \<and>
        (e = None \<longrightarrow> got = filter (watches regs out) (ev # evs))" for out
    proof -
      obtain got where "qs_sent q' out = qs_sent q1 out @ got" "prefix got (filter (watches regs out) evs)"
        "e = None \<longrightarrow> got = filter (watches regs out) evs"
        using Cons.IH [OF conjunct1 [OF s] rest] by blast
      then show ?thesis using s None
        by (intro exI [of _ "(if watches regs out ev then [ev] else []) @ got"]) auto
    qed
    then have "\<forall>out. \<exists>got. qs_sent q' out = qs_sent q out @ got \<and> prefix got (filter (watches regs out) (ev # evs)) \<and>
        (e = None \<longrightarrow> got = filter (watches regs out) (ev # evs))" by (rule allI)
    then show ?thesis using Cons.IH [OF conjunct1 [OF s] rest] by (intro conjI) (elim conjE, assumption)+
  qed
qed

lemma closeAll_distinct:
  assumes "distinct outs" and "set outs \<inter> qs_closed q = {}"
  shows "closeAll outs q = (None, q\<lparr>qs_closed := qs_closed q \<union> set outs\<rparr>)"
  using assms
proof (induction outs arbitrary: q)
  case Nil
  then show ?case by simp
next
  case (Cons out outs)
  then show ?case using Cons.IH [of "q\<lparr>qs_closed := insert out (qs_closed q)\<rparr>"] by (auto simp: insert_commute)
qed

lemma containedInAll_iff:
  "containedInAll contain stream candidate parsed \<longleftrightarrow>
     (\<forall>(other, theirs) \<in> set parsed. other \<noteq> stream \<longrightarrow> contain theirs candidate)"
  by (induction parsed) (auto split: if_splits)

lemma parsePositions_streams:
  assumes "parsePositions parse positions = Inr parsed"
  shows "map fst parsed = map fst positions \<and>
    (\<forall>stream. map_of parsed stream = (case map_of positions stream of None \<Rightarrow> None
       | Some text \<Rightarrow> (case parse text of Inl _ \<Rightarrow> None | Inr g \<Rightarrow> Some g)))"
  using assms unfolding parsePositions_def
proof (induction positions arbitrary: parsed)
  case Nil
  then show ?case by simp
next
  case (Cons p positions)
  then show ?case by (cases p) (auto split: sum.splits)
qed

subsection \<open>Properties\<close>

lemma readerTask_delivers:
  assumes "distinct (map snd regs)" and "qs_closed q = {}" and "\<And>out. qs_sent q out = []"
    and "readerTask done (routerFor regs) evs streamErr q = (r, ro, q')"
  shows "qs_closed q' = snd ` set regs \<and> r \<noteq> ReaderRouted RoutePanic \<and>
    (\<forall>out. prefix (qs_sent q' out) (filter (watches regs out) evs) \<and>
      (r \<noteq> ReaderRouted RouteCancelled \<longrightarrow> qs_sent q' out = filter (watches regs out) evs))"
proof -
  obtain e q1 where run: "routeAll done (routerFor regs) evs q = (e, q1)" by force
  note d = routeAll_delivers [OF assms(1,2) run]
  have chans: "ro_channels (routerFor regs) = map snd regs" "\<not> ro_closed (routerFor regs)"
    by (simp_all add: routerFor_def routerFor_channels routerFor_open) (simp_all add: NewRouter_def)
  have close: "closeAll (map snd regs) q1 = (None, q1\<lparr>qs_closed := snd ` set regs\<rparr>)"
    using closeAll_distinct [of "map snd regs" q1] assms(1) d by simp
  have r: "q' = q1\<lparr>qs_closed := snd ` set regs\<rparr>" "r = (case e of Some x \<Rightarrow> ReaderRouted x
      | None \<Rightarrow> (case streamErr of Some s \<Rightarrow> SourceStopped s | None \<Rightarrow> ReaderDone))"
    using assms(4) run close chans by (auto simp: readerTask_def ro_Close_def split: option.splits)
  have e: "e = None \<or> e = Some RouteCancelled" using d by (metis option.exhaust route_error.exhaust)
  show ?thesis using r d e assms(3) by (auto split: option.splits)
qed

text \<open>
  The router gives each stream its own changes.  Whatever streams are registered, each with a queue of
  its own, and whenever the context ends: what is sent to a stream's queue is, in order and without
  repetition, a beginning of the changes to the tables registered for it (all of them when no send was
  cancelled), two streams of one table both get each change, nothing is ever sent on a closed queue, and
  in the end every queue is closed exactly once.
\<close>

theorem router_delivers:
  assumes "distinct (map snd regs)" and "qs_closed q = {}" and "\<And>out. qs_sent q out = []"
    and "readerTask done (routerFor regs) evs streamErr q = (r, ro, q')"
  shows "qs_closed q' = snd ` set regs \<and> r \<noteq> ReaderRouted RoutePanic \<and>
    (\<forall>out. prefix (qs_sent q' out) (filter (watches regs out) evs) \<and>
      (r \<noteq> ReaderRouted RouteCancelled \<longrightarrow> qs_sent q' out = filter (watches regs out) evs))"
  using readerTask_delivers [OF assms] .

definition exampleChange :: "string \<Rightarrow> u64 \<Rightarrow> change_event" where
  "exampleChange table seq = \<lparr>ev_Meta = Some \<lparr>tm_Schema = ''shop'', tm_Table = table, tm_Columns = [], tm_PrimaryKey = []\<rparr>,
     ev_Operation = OperationInsert, ev_Before = None, ev_After = None, ev_Timestamp = 0, ev_GTID = [],
     ev_TxID = 0, ev_Seq = seq, ev_Cursor = [], ev_RowsScanned = 0\<rparr>"

lemma readerTask_uncancelled: "fst (readerTask (\<lambda>_. False) ro evs streamErr q) \<noteq> ReaderRouted RouteCancelled"
proof -
  have send: "fst (sendTo (\<lambda>_. False) ev outs q) \<noteq> Some RouteCancelled" for ev outs q
    by (induction outs arbitrary: q) auto
  have "fst (Route (\<lambda>_. False) ro ev q) \<noteq> Some RouteCancelled" for ev q
    using send by (simp add: Route_def split: option.split)
  then have route: "fst (routeAll (\<lambda>_. False) ro evs q) \<noteq> Some RouteCancelled" for evs q
    by (induction evs arbitrary: q) (auto split: option.splits prod.splits, metis fst_conv)
  have "fst (closeAll outs q) \<noteq> Some RouteCancelled" for outs q by (induction outs arbitrary: q) auto
  then have close: "fst (ro_Close ro q) \<noteq> Some RouteCancelled" for q
    by (simp add: ro_Close_def split_beta)
  obtain e q1 where r: "routeAll (\<lambda>_. False) ro evs q = (e, q1)" by force
  obtain p r2 q2 where c: "ro_Close ro q1 = (p, r2, q2)" by (rule prod_cases3)
  have "e \<noteq> Some RouteCancelled" "p \<noteq> Some RouteCancelled" using route [of evs q] close [of q1] r c by simp_all
  then show ?thesis by (auto simp: readerTask_def r c split: option.split)
qed

theorem router_delivers_witness:
  "qs_sent (snd (snd (readerTask (\<lambda>_. False) (routerFor [(''shop.Orders'', 1), (''shop.users'', 2)])
     [exampleChange ''orders'' 1, exampleChange ''users'' 2, exampleChange ''orders'' 3] None
     \<lparr>qs_sent = \<lambda>_. [], qs_closed = {}, qs_sends = 0\<rparr>))) 1 = [exampleChange ''orders'' 1, exampleChange ''orders'' 3]"
proof -
  let ?regs = "[(''shop.Orders'', 1), (''shop.users'', 2)] :: (string \<times> nat) list"
  let ?evs = "[exampleChange ''orders'' 1, exampleChange ''users'' 2, exampleChange ''orders'' 3]"
  let ?q = "\<lparr>qs_sent = \<lambda>_. [], qs_closed = {}, qs_sends = 0\<rparr>"
  obtain r ro q' where run: "readerTask (\<lambda>_. False) (routerFor ?regs) ?evs None ?q = (r, ro, q')" by (rule prod_cases3)
  have "r \<noteq> ReaderRouted RouteCancelled"
    using readerTask_uncancelled [of "routerFor ?regs" ?evs None ?q] unfolding run by simp
  moreover have "filter (watches ?regs 1) ?evs = [exampleChange ''orders'' 1, exampleChange ''orders'' 3]"
  proof -
    have "toLower ''shop.Orders'' = ''shop.orders''" "toLower ''shop.orders'' = ''shop.orders''"
      "toLower ''shop.users'' = ''shop.users''" by code_simp+
    then show ?thesis by (simp add: watches_def exampleChange_def Name_def)
  qed
  ultimately show ?thesis using router_delivers [of ?regs ?q, OF _ _ _ run] run by simp
qed

text \<open>
  C23: The shared start position lies behind every stream.  When a position is chosen, it is the position
  of one of the streams, and every stream's set contains it, so that no stream misses a transaction; and a
  position is found whenever some stream's set is contained in those of all others.
\<close>

theorem sharedStartPosition_behind_all:
  assumes refl: "\<And>g. contain g g" and names: "distinct (map fst positions)" and some: "positions \<noteq> []"
    and parsed: "\<And>stream pos. (stream, pos) \<in> set positions \<Longrightarrow> parse pos = Inr (gset pos)"
  shows "(\<forall>start. sharedStartPosition parse contain positions = Inr start \<longrightarrow>
      start \<in> snd ` set positions \<and> (\<forall>(stream, pos) \<in> set positions. contain (gset pos) (gset start))) \<and>
    ((\<exists>(stream, pos) \<in> set positions. \<forall>(other, pos') \<in> set positions. contain (gset pos') (gset pos)) \<longrightarrow>
      (\<exists>start. sharedStartPosition parse contain positions = Inr start))"
proof -
  let ?parsed = "map (\<lambda>(stream, pos). (stream, gset pos)) positions"
  have all: "parsePositions parse ps = Inr (map (\<lambda>(stream, pos). (stream, gset pos)) ps)"
    if "set ps \<subseteq> set positions" for ps
    using that by (induction ps) (auto simp: parsePositions_def parsed)
  have eq: "sharedStartPosition parse contain positions =
      (case find (\<lambda>(stream, candidate). containedInAll contain stream candidate ?parsed) ?parsed of
         None \<Rightarrow> Inl (Diverged positions)
       | Some (stream, _) \<Rightarrow> Inr (case map_of positions stream of None \<Rightarrow> [] | Some pos \<Rightarrow> pos))"
    using some all [of positions] by (simp add: sharedStartPosition_def)
  have in_parsed: "(stream, gset pos) \<in> set ?parsed" if "(stream, pos) \<in> set positions" for stream pos
    using that by force
  have behind: "containedInAll contain stream (gset pos) ?parsed \<longleftrightarrow> (\<forall>(other, pos') \<in> set positions. contain (gset pos') (gset pos))"
    if "(stream, pos) \<in> set positions" for stream pos
    using that refl names by (auto simp: containedInAll_iff dest: eq_key_imp_eq_value)
  show ?thesis
  proof (intro conjI allI impI)
    fix start
    assume "sharedStartPosition parse contain positions = Inr start"
    then obtain stream g where f: "find (\<lambda>(stream, candidate). containedInAll contain stream candidate ?parsed) ?parsed = Some (stream, g)"
      and start: "start = (case map_of positions stream of None \<Rightarrow> [] | Some pos \<Rightarrow> pos)"
      unfolding eq by (auto split: option.splits)
    from find_SomeD [OF f] obtain pos where p: "(stream, pos) \<in> set positions" "g = gset pos"
      "containedInAll contain stream g ?parsed" by auto
    then have "start = pos" using start names by simp
    with p behind [OF p(1)] show "start \<in> snd ` set positions" by force
    show "\<forall>(stream, pos) \<in> set positions. contain (gset pos) (gset start)"
      using p behind [OF p(1)] \<open>start = pos\<close> by simp
  next
    assume "\<exists>(stream, pos) \<in> set positions. \<forall>(other, pos') \<in> set positions. contain (gset pos') (gset pos)"
    then obtain stream pos where t: "(stream, pos) \<in> set positions" "containedInAll contain stream (gset pos) ?parsed"
      using behind by blast
    then have "find (\<lambda>(stream, candidate). containedInAll contain stream candidate ?parsed) ?parsed \<noteq> None"
      using in_parsed [OF t(1)] unfolding find_None_iff by (auto simp del: set_map)
    then show "\<exists>start. sharedStartPosition parse contain positions = Inr start" unfolding eq by auto
  qed
qed

theorem sharedStartPosition_behind_all_witness:
  "\<exists>start. sharedStartPosition (\<lambda>pos. Inr (length pos)) (\<lambda>a b. b \<le> a) [(''a'', ''uuid:1-9''), (''b'', ''uuid:1'')] = Inr start"
proof -
  let ?ps = "[(''a'', ''uuid:1-9''), (''b'', ''uuid:1'')]"
  have "distinct (map fst ?ps)" "?ps \<noteq> []" by simp_all
  moreover have "\<exists>(stream, pos) \<in> set ?ps. \<forall>(other, pos') \<in> set ?ps. length pos \<le> length pos'" by simp
  ultimately show ?thesis
    using sharedStartPosition_behind_all [where parse = "\<lambda>pos. Inr (length pos) :: string + nat" and contain = "\<lambda>a b. b \<le> a"
        and positions = ?ps and gset = length] by blast
qed

end
