(* ===== verification/MySQLStore.thy ===== *)
theory MySQLStore
  imports Checkpoint Transform
begin

text \<open>
  \<^verbatim>\<open>internal/checkpoint/mysql.go\<close>: checkpoints in a table of MySQL, and the advisory lock that makes one
  process the owner of a stream.

  The statements the store sends are arguments: functions on a world \<^typ>\<open>'w\<close> that answer with rows or
  with an error.  What MySQL documents of them is the predicate \<open>mysqlTable\<close> (a row per stream name, names
  compared by the column's collation, an upsert that replaces or inserts one row) and, for the locks, the
  predicate \<open>mysqlLocks\<close>.  A nil and an empty cursor are the same list of bytes.
\<close>

subsection \<open>Names and the table\<close>

datatype db_error = NoRows | MySQLError nat string | DriverError string

fun dbErrorText :: "db_error \<Rightarrow> string" where
  "dbErrorText NoRows = ''sql: no rows in result set''"
| "dbErrorText (MySQLError number text) = ''Error '' @ showNat number @ '': '' @ text"
| "dbErrorText (DriverError text) = text"

definition maxStreamNameLen :: nat where
  "maxStreamNameLen = 48"

definition maxRecordedErrorLen :: nat where
  "maxRecordedErrorLen = 1000"

definition missingTableCode :: nat where
  "missingTableCode = 1146"

datatype identifier_error = DatabaseMissing | TableNameEmpty | TableNameMalformed string | TableNameCharacters string

definition identifierChar :: "char \<Rightarrow> bool" where
  "identifierChar r \<longleftrightarrow> r = CHR ''_'' \<or> r = CHR 0x24 \<or>
     (97 \<le> byteVal r \<and> byteVal r \<le> 122) \<or> (65 \<le> byteVal r \<and> byteVal r \<le> 90) \<or> (48 \<le> byteVal r \<and> byteVal r \<le> 57)"

text \<open>The loop over the parts of the name, and in each over its characters.\<close>

fun identifierLoop :: "string \<Rightarrow> string list \<Rightarrow> identifier_error option" where
  "identifierLoop name [] = None"
| "identifierLoop name (part # parts) =
     (if part = [] then Some (TableNameMalformed name)
      else if \<not> list_all identifierChar part then Some (TableNameCharacters name)
      else identifierLoop name parts)"

definition validateIdentifier :: "string \<Rightarrow> identifier_error option" where
  "validateIdentifier name =
     (if name = [] then Some TableNameEmpty else identifierLoop name (splitOn (CHR ''.'') name))"

record mysql_store =
  my_table :: string
  my_LockTimeout :: int

definition NewMySQLStore :: "bool \<Rightarrow> string \<Rightarrow> identifier_error + mysql_store" where
  "NewMySQLStore haveDB table =
     (if \<not> haveDB then Inl DatabaseMissing
      else (case validateIdentifier table of
          Some e \<Rightarrow> Inl e
        | None \<Rightarrow> Inr \<lparr>my_table = table, my_LockTimeout = 10 * 1000000000\<rparr>))"

definition schemaExists :: "('w \<Rightarrow> db_error option \<times> 'w) \<Rightarrow> 'w \<Rightarrow> bool \<times> 'w" where
  "schemaExists probe w = (case probe w of (e, w1) \<Rightarrow> (e = Some NoRows, w1))"

definition EnsureSchema ::
    "('w \<Rightarrow> db_error option \<times> 'w) \<Rightarrow> ('w \<Rightarrow> db_error option \<times> 'w) \<Rightarrow> mysql_store \<Rightarrow> 'w \<Rightarrow>
     store_failure option \<times> 'w" where
  "EnsureSchema probe create s w = (case schemaExists probe w of
      (True, w1) \<Rightarrow> (None, w1)
    | (False, w1) \<Rightarrow> (case create w1 of
          (Some e, w2) \<Rightarrow> (Some (DatabaseFailed ''create table'' (my_table s) (dbErrorText e)), w2)
        | (None, w2) \<Rightarrow> (None, w2)))"

definition asMissingTable :: "db_error \<Rightarrow> store_failure option" where
  "asMissingTable e = (case e of
      MySQLError number _ \<Rightarrow> if number = missingTableCode then Some NotInitialized else None
    | _ \<Rightarrow> None)"

definition my_validateStream :: "string \<Rightarrow> store_failure option" where
  "my_validateStream stream =
     (if stream = [] then Some StreamNameEmpty
      else if maxStreamNameLen < length stream then Some (StreamNameLong stream)
      else None)"

subsection \<open>Rows\<close>

text \<open>A row of the table: a column that may be NULL is an option; \<^verbatim>\<open>updated_at\<close> is whatever the driver returns.\<close>

record db_row =
  dr_stream :: string
  dr_gtid_set :: string
  dr_snapshot_done :: bool
  dr_snapshot_start_gtid :: "string option"
  dr_snapshot_cursor :: "bytes option"
  dr_snapshot_base_seq :: u64
  dr_snapshot_rows_done :: u64
  dr_snapshot_rows_total :: u64
  dr_seq_watermark :: u64
  dr_last_event_ts_ms :: int
  dr_last_error :: "string option"
  dr_schema_version :: int
  dr_updated_at :: val

definition coalesce :: "string option \<Rightarrow> string" where
  "coalesce v = (case v of None \<Rightarrow> [] | Some s \<Rightarrow> s)"

definition timestampLayouts :: "chunk list list" where
  "timestampLayouts =
     [dateLayout @ [Lit CHR '' ''] @ clockLayout @ [FracSecond9], dateLayout @ [Lit CHR '' ''] @ clockLayout]"

definition parseTimestampText :: "string \<Rightarrow> time option" where
  "parseTimestampText raw =
     (let s = trimSpace raw
      in if s = [] \<or> hasPrefix s ''0000-00-00'' then Some zeroTime
         else firstParse timestampLayouts s UTC)"

definition parseTimestamp :: "val \<Rightarrow> time option" where
  "parseTimestamp v = (case v of
      VNil \<Rightarrow> Some zeroTime
    | VTime x \<Rightarrow> Some x
    | VBytes x \<Rightarrow> parseTimestampText x
    | VString x \<Rightarrow> parseTimestampText x
    | _ \<Rightarrow> None)"

definition scannedCheckpoint :: "db_row \<Rightarrow> time \<Rightarrow> checkpoint" where
  "scannedCheckpoint r updatedAt =
     \<lparr>cp_Stream = dr_stream r, cp_GTIDSet = dr_gtid_set r, cp_SnapshotDone = dr_snapshot_done r,
      cp_SnapshotStartGTID = coalesce (dr_snapshot_start_gtid r), cp_SnapshotCursor = coalesce (dr_snapshot_cursor r),
      cp_SnapshotBaseSeq = dr_snapshot_base_seq r, cp_SnapshotRowsDone = dr_snapshot_rows_done r,
      cp_SnapshotRowsTotal = dr_snapshot_rows_total r, cp_SeqWatermark = dr_seq_watermark r,
      cp_LastEventTsMs = dr_last_event_ts_ms r, cp_LastError = coalesce (dr_last_error r),
      cp_SchemaVersion = dr_schema_version r, cp_UpdatedAt = updatedAt\<rparr>"

definition my_Load :: "(string \<Rightarrow> 'w \<Rightarrow> (db_error + db_row) \<times> 'w) \<Rightarrow> 'w store_Load" where
  "my_Load queryRow stream w = (case queryRow stream w of
      (Inl e, w1) \<Rightarrow>
        (if e = NoRows then (Inl ErrNotFound, w1)
         else (case asMissingTable e of
             Some missing \<Rightarrow> (Inl (StoreFailed missing), w1)
           | None \<Rightarrow> (Inl (StoreFailed (DatabaseFailed ''load'' stream (dbErrorText e))), w1)))
    | (Inr r, w1) \<Rightarrow> (case parseTimestamp (dr_updated_at r) of
          None \<Rightarrow> (Inl (StoreFailed (UnreadableUpdatedAt stream)), w1)
        | Some ts \<Rightarrow>
            (let cp = scannedCheckpoint r ts
             in if SchemaVersion < cp_SchemaVersion cp
                then (Inl (StoreFailed (SchemaTooNew stream (cp_SchemaVersion cp))), w1)
                else (Inr cp, w1))))"

text \<open>The values bound to the upsert; \<^verbatim>\<open>updated_at\<close> is not among them.\<close>

definition boundRow :: "checkpoint \<Rightarrow> db_row" where
  "boundRow cp =
     \<lparr>dr_stream = cp_Stream cp, dr_gtid_set = cp_GTIDSet cp, dr_snapshot_done = cp_SnapshotDone cp,
      dr_snapshot_start_gtid = Some (cp_SnapshotStartGTID cp),
      dr_snapshot_cursor = (if cp_SnapshotCursor cp = [] then None else Some (cp_SnapshotCursor cp)),
      dr_snapshot_base_seq = cp_SnapshotBaseSeq cp, dr_snapshot_rows_done = cp_SnapshotRowsDone cp,
      dr_snapshot_rows_total = cp_SnapshotRowsTotal cp, dr_seq_watermark = cp_SeqWatermark cp,
      dr_last_event_ts_ms = cp_LastEventTsMs cp, dr_last_error = Some (cp_LastError cp),
      dr_schema_version = cp_SchemaVersion cp, dr_updated_at = VNil\<rparr>"

definition my_Save :: "(db_row \<Rightarrow> 'w \<Rightarrow> db_error option \<times> 'w) \<Rightarrow> 'w store_Save" where
  "my_Save upsert cp w = (case my_validateStream (cp_Stream cp) of
      Some e \<Rightarrow> (Some (StoreFailed e), w)
    | None \<Rightarrow>
        (let cp' = (if cp_SchemaVersion cp = 0 then cp\<lparr>cp_SchemaVersion := SchemaVersion\<rparr> else cp)
         in case upsert (boundRow cp') w of
              (Some e, w1) \<Rightarrow> (Some (StoreFailed (DatabaseFailed ''save'' (cp_Stream cp) (dbErrorText e))), w1)
            | (None, w1) \<Rightarrow> (None, w1)))"

text \<open>The reason is cut after 1000 bytes and an ellipsis (three bytes of UTF-8) is appended.\<close>

definition cutReason :: "string \<Rightarrow> string" where
  "cutReason reason =
     (if maxRecordedErrorLen < length reason
      then take maxRecordedErrorLen reason @ [CHR 0xE2, CHR 0x80, CHR 0xA6] else reason)"

definition RecordError ::
    "(string option \<Rightarrow> string \<Rightarrow> 'w \<Rightarrow> db_error option \<times> 'w) \<Rightarrow> string \<Rightarrow> string \<Rightarrow> 'w \<Rightarrow>
     store_error option \<times> 'w" where
  "RecordError setError stream reason w = (case my_validateStream stream of
      Some e \<Rightarrow> (Some (StoreFailed e), w)
    | None \<Rightarrow>
        (let text = cutReason reason; value = (if text \<noteq> [] then Some text else None)
         in case setError value stream w of
              (Some e, w1) \<Rightarrow> (Some (StoreFailed (DatabaseFailed ''record the error for'' stream (dbErrorText e))), w1)
            | (None, w1) \<Rightarrow> (None, w1)))"

text \<open>The rows of the list query: each scans to a name or fails, and the iteration itself may end with an error.\<close>

fun loadAll :: "'w store_Load \<Rightarrow> string list \<Rightarrow> 'w \<Rightarrow> (store_error + checkpoint list) \<times> 'w" where
  "loadAll load [] w = (Inr [], w)"
| "loadAll load (name # names) w = (case load name w of
      (Inl e, w1) \<Rightarrow> (Inl e, w1)
    | (Inr cp, w1) \<Rightarrow> (case loadAll load names w1 of
          (Inl e, w2) \<Rightarrow> (Inl e, w2)
        | (Inr cps, w2) \<Rightarrow> (Inr (cp # cps), w2)))"

definition my_List ::
    "('w \<Rightarrow> (db_error + (db_error + string) list \<times> db_error option) \<times> 'w) \<Rightarrow> 'w store_Load \<Rightarrow> 'w \<Rightarrow>
     (store_error + checkpoint list) \<times> 'w" where
  "my_List queryStreams load w = (case queryStreams w of
      (Inl e, w1) \<Rightarrow> (Inl (StoreFailed (DatabaseFailed ''list'' [] (dbErrorText e))), w1)
    | (Inr (scans, ending), w1) \<Rightarrow> (case mapResult id scans of
          Inl e \<Rightarrow> (Inl (StoreFailed (DatabaseFailed ''scan stream'' [] (dbErrorText e))), w1)
        | Inr streams \<Rightarrow> (case ending of
              Some e \<Rightarrow> (Inl (StoreFailed (DatabaseFailed [] [] (dbErrorText e))), w1)
            | None \<Rightarrow> loadAll load streams w1)))"

definition Ping :: "('w \<Rightarrow> db_error option \<times> 'w) \<Rightarrow> 'w \<Rightarrow> store_failure option \<times> 'w" where
  "Ping ping w = (case ping w of
      (Some e, w1) \<Rightarrow> (Some (DatabaseFailed ''ping'' [] (dbErrorText e)), w1)
    | (None, w1) \<Rightarrow> (None, w1))"

subsection \<open>What MySQL promises of the table\<close>

text \<open>
  The rows of the table by the collated name.  The upsert inserts the values or replaces all columns of
  the row that is there but its name and \<^verbatim>\<open>updated_at\<close>, which the server sets; one that reports an error
  has done that or nothing.  The update of the error sets that column of a row that is there.
\<close>

definition storedRow :: "db_row \<Rightarrow> db_row option \<Rightarrow> val \<Rightarrow> db_row" where
  "storedRow new old stamp = new\<lparr>dr_stream := (case old of None \<Rightarrow> dr_stream new | Some r \<Rightarrow> dr_stream r),
     dr_updated_at := stamp\<rparr>"

definition upserted ::
    "(string \<Rightarrow> string) \<Rightarrow> db_row \<Rightarrow> (string \<rightharpoonup> db_row) \<Rightarrow> (string \<rightharpoonup> db_row) \<Rightarrow> bool" where
  "upserted collate new m m' \<longleftrightarrow>
     (\<exists>stamp. m' = m(collate (dr_stream new) \<mapsto> storedRow new (m (collate (dr_stream new))) stamp))"

definition errorSet ::
    "(string \<Rightarrow> string) \<Rightarrow> string option \<Rightarrow> string \<Rightarrow> (string \<rightharpoonup> db_row) \<Rightarrow> (string \<rightharpoonup> db_row) \<Rightarrow> bool" where
  "errorSet collate value stream m m' \<longleftrightarrow> (case m (collate stream) of
      None \<Rightarrow> m' = m
    | Some r \<Rightarrow> (\<exists>stamp. m' = m(collate stream \<mapsto> r\<lparr>dr_last_error := value, dr_updated_at := stamp\<rparr>)))"

definition mysqlTable ::
    "(string \<Rightarrow> string) \<Rightarrow> (string \<Rightarrow> 'w \<Rightarrow> (db_error + db_row) \<times> 'w) \<Rightarrow> (db_row \<Rightarrow> 'w \<Rightarrow> db_error option \<times> 'w) \<Rightarrow>
     (string option \<Rightarrow> string \<Rightarrow> 'w \<Rightarrow> db_error option \<times> 'w) \<Rightarrow> ('w \<Rightarrow> string \<rightharpoonup> db_row) \<Rightarrow> bool" where
  "mysqlTable collate queryRow upsert setError rows \<longleftrightarrow>
     (\<forall>w k r. rows w k = Some r \<longrightarrow> collate (dr_stream r) = k) \<and>
     (\<forall>s w a w'. queryRow s w = (a, w') \<longrightarrow> rows w' = rows w \<and>
        (a = Inl NoRows \<longrightarrow> rows w (collate s) = None) \<and> (\<forall>r. a = Inr r \<longrightarrow> rows w (collate s) = Some r)) \<and>
     (\<forall>new w e w'. upsert new w = (e, w') \<longrightarrow>
        upserted collate new (rows w) (rows w') \<or> e \<noteq> None \<and> rows w' = rows w) \<and>
     (\<forall>value s w e w'. setError value s w = (e, w') \<longrightarrow>
        errorSet collate value s (rows w) (rows w') \<or> e \<noteq> None \<and> rows w' = rows w)"

text \<open>The checkpoints the table holds; a row whose \<^verbatim>\<open>updated_at\<close> cannot be read counts with a zero time.\<close>

definition rowCheckpoint :: "db_row \<Rightarrow> checkpoint" where
  "rowCheckpoint r = scannedCheckpoint r (case parseTimestamp (dr_updated_at r) of None \<Rightarrow> zeroTime | Some t \<Rightarrow> t)"

definition tableView ::
    "(string \<Rightarrow> string) \<Rightarrow> ('w \<Rightarrow> string \<rightharpoonup> db_row) \<Rightarrow> 'w \<Rightarrow> string \<rightharpoonup> checkpoint" where
  "tableView collate rows w stream = map_option rowCheckpoint (rows w (collate stream))"

lemma mysqlTable_query:
  assumes "mysqlTable collate queryRow upsert setError rows" and "queryRow s w = (a, w')"
  shows "rows w' = rows w" and "a = Inl NoRows \<Longrightarrow> rows w (collate s) = None"
    and "a = Inr r \<Longrightarrow> rows w (collate s) = Some r"
  using assms unfolding mysqlTable_def by (blast, blast, metis)

lemma my_Load_cases:
  assumes "my_Load queryRow stream w = (a, w')"
  obtains e where "queryRow stream w = (Inl e, w')" and "e = NoRows \<longleftrightarrow> a = Inl ErrNotFound" and "\<nexists>cp. a = Inr cp"
  | r where "queryRow stream w = (Inr r, w')" and "a \<noteq> Inl ErrNotFound" and "\<forall>cp. a = Inr cp \<longrightarrow> cp = rowCheckpoint r"
  using assms
  by (force simp: my_Load_def rowCheckpoint_def Let_def split: prod.splits sum.splits option.splits if_splits)

lemma scanned_bound:
  "settled (rowCheckpoint (storedRow (boundRow cp) old stamp)) =
     settled (cp\<lparr>cp_Stream := (case old of None \<Rightarrow> cp_Stream cp | Some r \<Rightarrow> dr_stream r)\<rparr>)"
  by (cases cp; cases old)
    (simp_all add: settled_def rowCheckpoint_def scannedCheckpoint_def storedRow_def boundRow_def coalesce_def)

lemma savedAs_upserted:
  assumes table: "mysqlTable collate queryRow upsert setError rows" and inj: "inj collate"
    and up: "upserted collate (boundRow cp') (rows w) (rows w')" and same: "sameCheckpoint cp cp'"
    and stream: "cp_Stream cp' = cp_Stream cp"
  shows "savedAs cp (tableView collate rows w) (tableView collate rows w')"
proof -
  let ?k = "collate (cp_Stream cp)"
  obtain stamp where rows': "rows w' = (rows w)(?k \<mapsto> storedRow (boundRow cp') (rows w ?k) stamp)"
    using up stream by (auto simp: upserted_def boundRow_def)
  have "collate (dr_stream r) = ?k" if "rows w ?k = Some r" for r
    using table that unfolding mysqlTable_def by blast
  then have "dr_stream r = cp_Stream cp" if "rows w ?k = Some r" for r
    using that inj by (auto dest: injD)
  then have "settled (rowCheckpoint (storedRow (boundRow cp') (rows w ?k) stamp)) = settled cp"
    using same stream unfolding scanned_bound sameCheckpoint_def
    by (cases cp') (simp split: option.split)
  moreover have "tableView collate rows w' =
      (tableView collate rows w)(cp_Stream cp \<mapsto> rowCheckpoint (storedRow (boundRow cp') (rows w ?k) stamp))"
    using inj by (auto simp: tableView_def rows' fun_eq_iff dest: injD)
  ultimately show ?thesis unfolding savedAs_def sameCheckpoint_def by metis
qed

text \<open>The store over such a table keeps the contract of a store.\<close>

lemma mysql_contract:
  assumes table: "mysqlTable collate queryRow upsert setError rows" and inj: "inj collate"
  shows "checkpoint_store (my_Load queryRow) (my_Save upsert) (tableView collate rows)"
proof unfold_locales
  fix stream w r w'
  assume "my_Load queryRow stream w = (r, w')"
  then have "rows w' = rows w"
    by (rule my_Load_cases) (erule mysqlTable_query(1) [OF table])+
  then show "tableView collate rows w' = tableView collate rows w" by (simp add: tableView_def fun_eq_iff)
next
  fix stream w cp w'
  assume "my_Load queryRow stream w = (Inr cp, w')"
  then show "tableView collate rows w stream = Some cp"
    by (rule my_Load_cases) (auto simp: tableView_def dest: mysqlTable_query(3) [OF table])
next
  fix stream w w'
  assume "my_Load queryRow stream w = (Inl ErrNotFound, w')"
  then show "tableView collate rows w stream = None"
    by (rule my_Load_cases) (auto simp: tableView_def dest: mysqlTable_query(2) [OF table])
next
  fix cp w e w'
  have saved: "savedAs cp (tableView collate rows w) (tableView collate rows w')
      \<or> e \<noteq> None \<and> tableView collate rows w' = tableView collate rows w"
    if save: "my_Save upsert cp w = (e, w')" for e w'
  proof (cases "my_validateStream (cp_Stream cp)")
    case (Some x)
    with save show ?thesis by (auto simp: my_Save_def)
  next
    case None
    define cp' where "cp' = (if cp_SchemaVersion cp = 0 then cp\<lparr>cp_SchemaVersion := SchemaVersion\<rparr> else cp)"
    have cp': "sameCheckpoint cp cp'" "cp_Stream cp' = cp_Stream cp"
      by (simp_all add: cp'_def sameCheckpoint_def settled_def SchemaVersion_def)
    obtain x where u: "upsert (boundRow cp') w = (x, w')" "x = None \<longleftrightarrow> e = None"
      using save None by (auto simp: my_Save_def cp'_def [symmetric] Let_def split: prod.splits option.splits)
    then have "upserted collate (boundRow cp') (rows w) (rows w') \<or> e \<noteq> None \<and> rows w' = rows w"
      using table unfolding mysqlTable_def by blast
    then show ?thesis using savedAs_upserted [OF table inj _ cp'] by (auto simp: tableView_def fun_eq_iff)
  qed
  show "my_Save upsert cp w = (None, w') \<Longrightarrow> savedAs cp (tableView collate rows w) (tableView collate rows w')"
    using saved by blast
  show "my_Save upsert cp w = (Some e, w') \<Longrightarrow> tableView collate rows w' = tableView collate rows w
      \<or> savedAs cp (tableView collate rows w) (tableView collate rows w')" for e
    using saved by blast
qed

subsection \<open>Ownership of a stream\<close>

text \<open>
  The sessions of the server: taking a connection for oneself, the three lock functions on it, and giving
  it back.
\<close>

record ('s, 'w) session_db =
  sd_Conn :: "'w \<Rightarrow> (db_error + 's) \<times> 'w"
  sd_getLock :: "'s \<Rightarrow> string \<Rightarrow> int \<Rightarrow> 'w \<Rightarrow> (db_error + int option) \<times> 'w"
  sd_isUsedLock :: "'s \<Rightarrow> string \<Rightarrow> 'w \<Rightarrow> (db_error + int option) \<times> 'w"
  sd_releaseLock :: "'s \<Rightarrow> string \<Rightarrow> 'w \<Rightarrow> db_error option \<times> 'w"
  sd_Close :: "'s \<Rightarrow> 'w \<Rightarrow> db_error option \<times> 'w"

record 's stream_lock =
  sl_conn :: "'s option"
  sl_name :: string
  sl_stream :: string

datatype lock_error =
    LockName store_failure
  | PinFailed string
  | AcquireFailed string string
  | ErrStreamLocked string string int

text \<open>\<^verbatim>\<open>Duration.Round\<close>: to the nearest multiple, halves away from zero, the extreme duration on overflow.\<close>

definition roundDuration :: "int \<Rightarrow> int \<Rightarrow> int" where
  "roundDuration d unit' =
     (let r = \<bar>d\<bar> mod unit'; up = \<bar>d\<bar> + unit' - r
      in if 2 * r < unit' then sgn d * (\<bar>d\<bar> - r)
         else if 2 ^ 63 - 1 < up then (if d < 0 then - (2 ^ 63) else 2 ^ 63 - 1)
         else sgn d * up)"

definition waitSeconds :: "int \<Rightarrow> int" where
  "waitSeconds timeout =
     (let n = roundDuration timeout 1000000000; q = sgn n * (\<bar>n\<bar> div 1000000000) in if q < 0 then 0 else q)"

definition lockName :: "string \<Rightarrow> string" where
  "lockName stream = ''changeflow:'' @ stream"

definition lockHolder :: "(db_error + int option) \<Rightarrow> string" where
  "lockHolder answer = (case answer of
      Inr (Some n) \<Rightarrow> ''connection id '' @ showInt n
    | _ \<Rightarrow> ''another session'')"

definition my_Lock ::
    "('s, 'w) session_db \<Rightarrow> mysql_store \<Rightarrow> string \<Rightarrow> 'w \<Rightarrow> (lock_error + 's stream_lock) \<times> 'w" where
  "my_Lock db s stream w = (case my_validateStream stream of
      Some e \<Rightarrow> (Inl (LockName e), w)
    | None \<Rightarrow> (case sd_Conn db w of
          (Inl e, w1) \<Rightarrow> (Inl (PinFailed (dbErrorText e)), w1)
        | (Inr conn, w1) \<Rightarrow>
            (case sd_getLock db conn (lockName stream) (waitSeconds (my_LockTimeout s)) w1 of
               (Inl e, w2) \<Rightarrow> (Inl (AcquireFailed stream (dbErrorText e)), snd (sd_Close db conn w2))
             | (Inr got, w2) \<Rightarrow>
                 (if got \<noteq> Some 1 then
                    (case sd_isUsedLock db conn (lockName stream) w2 of (answer, w3) \<Rightarrow>
                       (Inl (ErrStreamLocked (lockHolder answer) stream (my_LockTimeout s)), snd (sd_Close db conn w3)))
                  else (Inr \<lparr>sl_conn = Some conn, sl_name = lockName stream, sl_stream = stream\<rparr>, w2)))))"

text \<open>A lock may be nil; releasing it sets its connection to nil.\<close>

definition my_Release ::
    "('s, 'w) session_db \<Rightarrow> 's stream_lock option \<Rightarrow> 'w \<Rightarrow> db_error option \<times> 's stream_lock option \<times> 'w" where
  "my_Release db l w = (case l of
      None \<Rightarrow> (None, l, w)
    | Some k \<Rightarrow> (case sl_conn k of
          None \<Rightarrow> (None, l, w)
        | Some conn \<Rightarrow> (case sd_releaseLock db conn (sl_name k) w of (err, w1) \<Rightarrow>
            (case sd_Close db conn w1 of (closeErr, w2) \<Rightarrow>
               (if err \<noteq> None then err else closeErr, Some (k\<lparr>sl_conn := None\<rparr>), w2)))))"

definition my_Held :: "('s, 'w) session_db \<Rightarrow> 's stream_lock option \<Rightarrow> 'w \<Rightarrow> bool \<times> 'w" where
  "my_Held db l w = (case l of
      None \<Rightarrow> (False, w)
    | Some k \<Rightarrow> (case sl_conn k of
          None \<Rightarrow> (False, w)
        | Some conn \<Rightarrow> (case sd_isUsedLock db conn (sl_name k) w of
              (Inl e, w1) \<Rightarrow> (False, w1)
            | (Inr mine, w1) \<Rightarrow> (mine \<noteq> None, w1))))"

text \<open>
  What MySQL and the driver document of the locks: a connection taken is nobody else's; GET_LOCK answers 1
  only when no other session holds the name, and the session then holds it, and a session that asks for
  one name keeps its others; giving back or releasing a connection touches only the locks of that session;
  RELEASE_LOCK frees the name.
\<close>

definition mysqlLocks ::
    "('s, 'w) session_db \<Rightarrow> ('w \<Rightarrow> string \<rightharpoonup> 's) \<Rightarrow> ('w \<Rightarrow> 's set) \<Rightarrow> bool" where
  "mysqlLocks db holder pinned \<longleftrightarrow>
     (\<forall>w a w'. sd_Conn db w = (a, w') \<longrightarrow> holder w' = holder w \<and>
        (case a of Inl _ \<Rightarrow> pinned w' = pinned w | Inr c \<Rightarrow> c \<notin> pinned w \<and> pinned w' = insert c (pinned w))) \<and>
     (\<forall>c n secs w a w'. sd_getLock db c n secs w = (a, w') \<longrightarrow> pinned w' = pinned w \<and>
        (if a = Inr (Some 1) then holder w n \<in> {None, Some c} \<and> holder w' = (holder w)(n \<mapsto> c)
         else holder w' = holder w)) \<and>
     (\<forall>c n w a w'. sd_isUsedLock db c n w = (a, w') \<longrightarrow> holder w' = holder w \<and> pinned w' = pinned w) \<and>
     (\<forall>c n w e w'. sd_releaseLock db c n w = (e, w') \<longrightarrow> pinned w' = pinned w \<and>
        (\<forall>m. holder w' m = holder w m \<or> m = n \<and> holder w m = Some c \<and> holder w' m = None) \<and>
        (e = None \<longrightarrow> holder w' n \<noteq> Some c)) \<and>
     (\<forall>c w e w'. sd_Close db c w = (e, w') \<longrightarrow> pinned w' = pinned w - {c} \<and>
        (\<forall>m. holder w' m = holder w m \<or> holder w m = Some c \<and> holder w' m = None))"

text \<open>A stream is owned: its lock's connection is taken and holds the lock's name.\<close>

definition owned :: "('w \<Rightarrow> string \<rightharpoonup> 's) \<Rightarrow> ('w \<Rightarrow> 's set) \<Rightarrow> 's \<Rightarrow> string \<Rightarrow> 'w \<Rightarrow> bool" where
  "owned holder pinned c stream w \<longleftrightarrow> holder w (lockName stream) = Some c \<and> c \<in> pinned w"

lemmas mysqlLocks_laws = mysqlLocks_def [THEN iffD1]
lemmas connLaw = mysqlLocks_laws [THEN conjunct1, rule_format]
lemmas getLockLaw = mysqlLocks_laws [THEN conjunct2, THEN conjunct1, rule_format]
lemmas isUsedLockLaw = mysqlLocks_laws [THEN conjunct2, THEN conjunct2, THEN conjunct1, rule_format]
lemmas releaseLockLaw =
  mysqlLocks_laws [THEN conjunct2, THEN conjunct2, THEN conjunct2, THEN conjunct1, rule_format]
lemmas closeLaw =
  mysqlLocks_laws [THEN conjunct2, THEN conjunct2, THEN conjunct2, THEN conjunct2, rule_format]

lemma mysqlLocks_Conn:
  assumes "mysqlLocks db holder pinned" and "sd_Conn db w = (a, w')"
  shows "holder w' = holder w" and "pinned w \<subseteq> pinned w'" and "a = Inr c \<Longrightarrow> c \<notin> pinned w \<and> c \<in> pinned w'"
  using connLaw [OF assms] by (auto split: sum.splits)

lemma mysqlLocks_getLock:
  assumes "mysqlLocks db holder pinned" and "sd_getLock db c n secs w = (a, w')"
  shows "pinned w' = pinned w" and "a = Inr (Some 1) \<Longrightarrow> holder w n \<in> {None, Some c}"
    and "a = Inr (Some 1) \<Longrightarrow> holder w' = (holder w)(n \<mapsto> c)" and "a \<noteq> Inr (Some 1) \<Longrightarrow> holder w' = holder w"
  using getLockLaw [OF assms] by (simp_all split: if_splits)

lemma mysqlLocks_Close:
  assumes "mysqlLocks db holder pinned" and "owned holder pinned c' s w" and "c' \<noteq> c"
  shows "owned holder pinned c' s (snd (sd_Close db c w))"
proof -
  obtain e w' where close: "sd_Close db c w = (e, w')" by force
  note law = closeLaw [OF assms(1) close]
  have "holder w' (lockName s) = holder w (lockName s)"
    using conjunct2 [OF law, THEN spec, of "lockName s"] assms(2,3) by (auto simp: owned_def)
  with law assms(2,3) close show ?thesis by (simp add: owned_def)
qed

text \<open>Whatever becomes of an attempt, the owners there were stay owners.\<close>

lemma my_Lock_keeps:
  assumes db: "mysqlLocks db holder pinned" and own: "owned holder pinned c other w"
    and run: "my_Lock db s stream w = (r, w')"
  shows "owned holder pinned c other w' \<and> (other = stream \<longrightarrow> (\<exists>e. r = Inl e))"
proof (cases "my_validateStream stream")
  case (Some e)
  with run own show ?thesis by (auto simp: my_Lock_def)
next
  case name: None
  obtain a w1 where conn: "sd_Conn db w = (a, w1)" by force
  note c1 = mysqlLocks_Conn [OF db conn]
  have own1: "owned holder pinned c other w1" using own c1(1,2) by (auto simp: owned_def)
  show ?thesis
  proof (cases a)
    case (Inl e)
    with name conn run own1 show ?thesis by (auto simp: my_Lock_def)
  next
    case (Inr k)
    have k: "k \<noteq> c" using c1(3) [OF Inr] own by (auto simp: owned_def)
    obtain got w2 where get: "sd_getLock db k (lockName stream) (waitSeconds (my_LockTimeout s)) w1 = (got, w2)" by force
    note g = mysqlLocks_getLock [OF db get]
    show ?thesis
    proof (cases "got = Inr (Some 1)")
      case True
      then have "other \<noteq> stream" using g(2) own1 k by (auto simp: owned_def)
      moreover have "owned holder pinned c other w2"
        using own1 g(1) g(3) [OF True] \<open>other \<noteq> stream\<close> by (simp add: owned_def lockName_def)
      ultimately show ?thesis using True name conn Inr get run by (auto simp: my_Lock_def)
    next
      case False
      have own2: "owned holder pinned c other w2" using own1 g(1) g(4) [OF False] by (simp add: owned_def)
      obtain u w3 where used: "sd_isUsedLock db k (lockName stream) w2 = (u, w3)" by force
      have own3: "owned holder pinned c other w3"
        using own2 isUsedLockLaw [OF db used] by (simp add: owned_def)
      have "owned holder pinned c other (snd (sd_Close db k v))" if "owned holder pinned c other v" for v
        using mysqlLocks_Close [OF db that] k by simp
      with False name conn Inr get used run own2 own3 show ?thesis
        by (auto simp: my_Lock_def split: sum.splits if_splits)
    qed
  qed
qed

lemma my_Lock_owns:
  assumes db: "mysqlLocks db holder pinned" and run: "my_Lock db s stream w = (Inr l, w')"
  shows "\<exists>c. sl_conn l = Some c \<and> owned holder pinned c stream w'"
proof -
  obtain c w1 where conn: "sd_Conn db w = (Inr c, w1)"
      and get: "sd_getLock db c (lockName stream) (waitSeconds (my_LockTimeout s)) w1 = (Inr (Some 1), w')"
      and l: "l = \<lparr>sl_conn = Some c, sl_name = lockName stream, sl_stream = stream\<rparr>"
    using run by (auto simp: my_Lock_def split: option.splits prod.splits sum.splits if_splits)
  show ?thesis
    using mysqlLocks_Conn(3) [OF db conn] mysqlLocks_getLock(1,3) [OF db get] l by (simp add: owned_def)
qed

text \<open>The name of a lock is within the 64 characters MySQL allows, for every stream that passes the check.\<close>

lemma lockName_fits: "my_validateStream stream = None \<Longrightarrow> length (lockName stream) \<le> 64"
  by (auto simp: my_validateStream_def maxStreamNameLen_def lockName_def split: if_splits)

subsection \<open>Properties\<close>


text \<open>A table on a server that never fails, with a collation that compares bytes.\<close>

definition exampleTableRows :: "(string \<rightharpoonup> db_row) \<Rightarrow> string \<rightharpoonup> db_row" where
  "exampleTableRows w k = (case w k of None \<Rightarrow> None | Some r \<Rightarrow> if dr_stream r = k then Some r else None)"

definition exampleQuery :: "string \<Rightarrow> (string \<rightharpoonup> db_row) \<Rightarrow> (db_error + db_row) \<times> (string \<rightharpoonup> db_row)" where
  "exampleQuery s w = (case exampleTableRows w s of None \<Rightarrow> Inl NoRows | Some r \<Rightarrow> Inr r, w)"

definition exampleUpsert :: "db_row \<Rightarrow> (string \<rightharpoonup> db_row) \<Rightarrow> db_error option \<times> (string \<rightharpoonup> db_row)" where
  "exampleUpsert new w = (None, w(dr_stream new \<mapsto> new\<lparr>dr_updated_at := VNil\<rparr>))"

definition exampleSetError ::
    "string option \<Rightarrow> string \<Rightarrow> (string \<rightharpoonup> db_row) \<Rightarrow> db_error option \<times> (string \<rightharpoonup> db_row)" where
  "exampleSetError v s w = (None, case exampleTableRows w s of
      None \<Rightarrow> w | Some r \<Rightarrow> w(s \<mapsto> r\<lparr>dr_last_error := v, dr_updated_at := VNil\<rparr>))"

lemma example_mysqlTable: "mysqlTable id exampleQuery exampleUpsert exampleSetError exampleTableRows"
proof -
  have named: "dr_stream r = k" if "exampleTableRows w k = Some r" for w k r
    using that by (auto simp: exampleTableRows_def split: option.splits if_splits)
  have "upserted id new (exampleTableRows w) (exampleTableRows (w(dr_stream new \<mapsto> new\<lparr>dr_updated_at := VNil\<rparr>)))" for new w
    unfolding upserted_def
    by (rule exI [of _ VNil]) (auto simp: storedRow_def exampleTableRows_def fun_eq_iff split: option.splits)
  moreover have "errorSet id v s (exampleTableRows w) (exampleTableRows (snd (exampleSetError v s w)))" for v s w
  proof (cases "exampleTableRows w s")
    case None
    then show ?thesis by (simp add: errorSet_def exampleSetError_def)
  next
    case (Some r)
    have "exampleTableRows (w(s \<mapsto> r\<lparr>dr_last_error := v, dr_updated_at := VNil\<rparr>)) =
        (exampleTableRows w)(s \<mapsto> r\<lparr>dr_last_error := v, dr_updated_at := VNil\<rparr>)"
      using named [OF Some] by (auto simp: exampleTableRows_def fun_eq_iff)
    with Some show ?thesis by (auto simp: errorSet_def exampleSetError_def)
  qed
  ultimately show ?thesis
    using named by (auto simp: mysqlTable_def exampleQuery_def exampleUpsert_def split: option.splits)
      (metis snd_conv)+
qed

interpretation my: checkpoint_store "my_Load exampleQuery" "my_Save exampleUpsert" "tableView id exampleTableRows"
  by (rule mysql_contract [OF example_mysqlTable]) simp



text \<open>A server with numbered connections, and what it holds: names with their holders, and connections taken.\<close>

definition exampleSessions :: "(nat, (string \<rightharpoonup> nat) \<times> nat list) session_db" where
  "exampleSessions = \<lparr>
     sd_Conn = (\<lambda>(h, p). (Inr (Suc (sum_list p)), h, Suc (sum_list p) # p)),
     sd_getLock = (\<lambda>c n secs (h, p). if h n = None \<or> h n = Some c then (Inr (Some 1), h(n \<mapsto> c), p) else (Inr (Some 0), h, p)),
     sd_isUsedLock = (\<lambda>c n (h, p). (Inr (map_option int (h n)), h, p)),
     sd_releaseLock = (\<lambda>c n (h, p). (None, if h n = Some c then h(n := None) else h, p)),
     sd_Close = (\<lambda>c (h, p). (None, h, removeAll c p))\<rparr>"

lemma example_mysqlLocks: "mysqlLocks exampleSessions fst (set \<circ> snd)"
proof -
  have "Suc (sum_list p) \<notin> set p" for p :: "nat list"
    using member_le_sum_list [of "Suc (sum_list p)" p] by auto
  then show ?thesis by (auto simp: mysqlLocks_def exampleSessions_def split: if_splits)
qed


text \<open>
  Releasing a lock frees the stream: the connection is no longer taken, and the next attempt can be granted.
\<close>

lemma Release_frees:
  assumes "mysqlLocks db holder pinned" and "sl_conn k = Some c" and "sl_name k = lockName stream"
    and "my_Release db (Some k) w = (e, l, w')"
  shows "\<not> owned holder pinned c stream w' \<and> l = Some (k\<lparr>sl_conn := None\<rparr>)"
proof -
  obtain e1 w1 e2 where "sd_releaseLock db c (lockName stream) w = (e1, w1)"
    and close: "sd_Close db c w1 = (e2, w')" and "l = Some (k\<lparr>sl_conn := None\<rparr>)"
    using assms(2-4) by (auto simp: my_Release_def split: prod.splits)
  with closeLaw [OF assms(1) close] show ?thesis by (simp add: owned_def)
qed

lemma my_Lock_pins:
  assumes locks: "mysqlLocks db holder pinned" and run: "my_Lock db store stream w = (r, w')"
  shows "case r of Inl _ \<Rightarrow> pinned w' = pinned w
    | Inr l \<Rightarrow> \<exists>c. sl_conn l = Some c \<and> sl_name l = lockName stream \<and> c \<notin> pinned w \<and> pinned w' = insert c (pinned w)"
proof (cases "my_validateStream stream")
  case (Some e)
  with run show ?thesis by (auto simp: my_Lock_def)
next
  case name: None
  obtain a w1 where conn: "sd_Conn db w = (a, w1)" by force
  note c1 = connLaw [OF locks conn]
  show ?thesis
  proof (cases a)
    case (Inl e)
    with name conn run c1 show ?thesis by (auto simp: my_Lock_def)
  next
    case (Inr k)
    obtain got w2 where get: "sd_getLock db k (lockName stream) (waitSeconds (my_LockTimeout store)) w1 = (got, w2)" by force
    obtain u w3 where used: "sd_isUsedLock db k (lockName stream) w2 = (u, w3)" by force
    have p: "pinned w2 = insert k (pinned w)" "pinned w3 = insert k (pinned w)" "k \<notin> pinned w"
      using getLockLaw [OF locks get] isUsedLockLaw [OF locks used] c1 Inr by auto
    have close: "pinned (snd (sd_Close db k v)) = pinned v - {k}" for v
      using closeLaw [OF locks] by (metis prod.collapse)
    show ?thesis using name conn Inr get used run p
      by (auto simp: my_Lock_def close split: sum.splits if_splits)
  qed
qed

lemma my_Release_unpins:
  assumes locks: "mysqlLocks db holder pinned" and run: "my_Release db l w = (e, l', w')"
  shows "pinned w' = pinned w - (case l of None \<Rightarrow> {} | Some k \<Rightarrow> (case sl_conn k of None \<Rightarrow> {} | Some c \<Rightarrow> {c}))"
    and "owned holder pinned c s w \<Longrightarrow> (case l of None \<Rightarrow> True | Some k \<Rightarrow> sl_conn k \<noteq> Some c) \<Longrightarrow> owned holder pinned c s w'"
proof -
  consider (none) "w' = w" "l = None \<or> (\<exists>k. l = Some k \<and> sl_conn k = None)"
    | (conn) k d e1 w1 e2 where "l = Some k" "sl_conn k = Some d" "sd_releaseLock db d (sl_name k) w = (e1, w1)"
        "sd_Close db d w1 = (e2, w')"
    using run by (auto simp: my_Release_def split: option.splits prod.splits)
  note cases = this
  show "pinned w' = pinned w - (case l of None \<Rightarrow> {} | Some k \<Rightarrow> (case sl_conn k of None \<Rightarrow> {} | Some c \<Rightarrow> {c}))"
    using cases
  proof cases
    case conn
    with releaseLockLaw [OF locks conn(3)] closeLaw [OF locks conn(4)] show ?thesis by simp
  qed auto
  show "owned holder pinned c s w'" if own: "owned holder pinned c s w" and other: "case l of None \<Rightarrow> True | Some k \<Rightarrow> sl_conn k \<noteq> Some c"
    using cases
  proof cases
    case conn
    have d: "c \<noteq> d" using other conn(1,2) by simp
    note rl = releaseLockLaw [OF locks conn(3)]
    have "holder w1 (lockName s) = Some c"
      using conjunct1 [OF conjunct2 [OF rl], THEN spec, of "lockName s"] own d by (auto simp: owned_def)
    then have "owned holder pinned c s w1" using rl own by (simp add: owned_def)
    from mysqlLocks_Close [OF locks this d] conn(4) show ?thesis by simp
  qed (use own in auto)
qed

text \<open>
  The cut of a recorded reason counts bytes: it can fall inside a character, and then the text is not
  valid UTF-8 although the reason was.  MySQL refuses such a text for the column, and no reason is kept.
\<close>

definition longReason :: string where
  "longReason = replicate 999 (CHR ''x'') @ [CHR 0xC3, CHR 0xA9]"

lemma utf8Valid_ascii: "byteVal c < 128 \<Longrightarrow> utf8Valid (replicate n c @ s) = utf8Valid s"
  by (induction n) (simp_all add: utf8Valid.simps utf8Head_def)

theorem cutReason_splits_character: "utf8Valid longReason \<and> \<not> utf8Valid (cutReason longReason)"
proof -
  have "cutReason longReason = replicate 999 (CHR ''x'') @ [CHR 0xC3, CHR 0xE2, CHR 0x80, CHR 0xA6]"
    by (simp add: cutReason_def longReason_def maxRecordedErrorLen_def)
  moreover have "utf8Valid [CHR 0xC3, CHR 0xA9]" "\<not> utf8Valid [CHR 0xC3, CHR 0xE2, CHR 0x80, CHR 0xA6]" by code_simp+
  ultimately show ?thesis
    unfolding longReason_def by (simp only: utf8Valid_ascii [of "CHR ''x''" 999]) (simp add: utf8Valid_ascii byteVal_def)
qed

text \<open>
  Two streams whose names differ only in case share a row when the collation ignores case, as MySQL's
  default collations do: saving one stream replaces the checkpoint of the other.
\<close>

theorem names_that_collate_share_a_row:
  assumes "mysqlTable collate queryRow upsert setError rows" and "collate (cp_Stream cp) = collate other"
    and "my_Save upsert cp w = (None, w')"
  shows "\<exists>cp'. tableView collate rows w' other = Some cp' \<and> cp_GTIDSet cp' = cp_GTIDSet cp
     \<and> cp_SeqWatermark cp' = cp_SeqWatermark cp"
proof -
  define cp' where "cp' = (if cp_SchemaVersion cp = 0 then cp\<lparr>cp_SchemaVersion := SchemaVersion\<rparr> else cp)"
  have cp': "dr_stream (boundRow cp') = cp_Stream cp" "cp_GTIDSet cp' = cp_GTIDSet cp" "cp_SeqWatermark cp' = cp_SeqWatermark cp"
    by (simp_all add: cp'_def boundRow_def)
  have up: "upsert (boundRow cp') w = (None, w')"
    using assms(3) by (auto simp: my_Save_def cp'_def [symmetric] Let_def split: option.splits prod.splits)
  have "upserted collate (boundRow cp') (rows w) (rows w')"
    using assms(1) up unfolding mysqlTable_def by blast
  then obtain stamp where "rows w' (collate (cp_Stream cp)) =
      Some (storedRow (boundRow cp') (rows w (collate (cp_Stream cp))) stamp)"
    using cp'(1) by (auto simp: upserted_def)
  then show ?thesis using assms(2) cp'(2,3)
    by (simp add: tableView_def storedRow_def boundRow_def rowCheckpoint_def scannedCheckpoint_def)
qed

end
