(* ===== verification/Preflight.thy ===== *)
theory Preflight
  imports Prelude
begin

text \<open>
  \<^verbatim>\<open>internal/preflight\<close>: whether a source can be replicated from.  The global variables are a map, the
  grants the lines of SHOW GRANTS; the queries that read them are arguments.  The texts that explain a
  check to an operator are left out.
\<close>

datatype severity = Required | Advisory

fun severityString :: "severity \<Rightarrow> string" where
  "severityString Required = ''required''"
| "severityString Advisory = ''advisory''"

record check =
  ck_Name :: string
  ck_Want :: string
  ck_Got :: string
  ck_OK :: bool
  ck_Severity :: severity

type_synonym report = "check list"

definition reportFilter :: "severity \<Rightarrow> report \<Rightarrow> check list" where
  "reportFilter sev r = filter (\<lambda>c. \<not> ck_OK c \<and> ck_Severity c = sev) r"

definition Failures :: "report \<Rightarrow> check list" where
  "Failures r = reportFilter Required r"

definition Warnings :: "report \<Rightarrow> check list" where
  "Warnings r = reportFilter Advisory r"

definition reportOK :: "report \<Rightarrow> bool" where
  "reportOK r \<longleftrightarrow> Failures r = []"

definition reportGet :: "report \<Rightarrow> string \<Rightarrow> string option" where
  "reportGet r name = map_option ck_Got (find (\<lambda>c. ck_Name c = name) r)"

definition preflightVars :: "string list" where
  "preflightVars = [''version'', ''log_bin'', ''binlog_format'', ''binlog_row_image'', ''binlog_row_metadata'', ''gtid_mode'',
     ''enforce_gtid_consistency'', ''server_id'', ''binlog_expire_logs_seconds'', ''log_replica_updates'',
     ''binlog_row_value_options'']"

type_synonym variables = "string \<rightharpoonup> string"

definition varGet :: "variables \<Rightarrow> string \<Rightarrow> string option" where
  "varGet vars name = vars (toLower name)"

definition equalsCheck :: "variables \<Rightarrow> string \<Rightarrow> string \<Rightarrow> severity \<Rightarrow> check" where
  "equalsCheck vars name want sev =
     \<lparr>ck_Name = name, ck_Want = want,
      ck_Got = (case varGet vars name of None \<Rightarrow> ''<unsupported>'' | Some got \<Rightarrow> got),
      ck_OK = (case varGet vars name of None \<Rightarrow> False | Some got \<Rightarrow> equalFold (trimSpace got) want),
      ck_Severity = sev\<rparr>"

definition partialJSONCheck :: "variables \<Rightarrow> check" where
  "partialJSONCheck vars = (case varGet vars ''binlog_row_value_options'' of
      None \<Rightarrow> \<lparr>ck_Name = ''binlog_row_value_options'', ck_Want = ''empty'', ck_Got = ''<unsupported>'', ck_OK = True,
        ck_Severity = Required\<rparr>
    | Some got \<Rightarrow>
        (let trimmed = trimSpace got
         in \<lparr>ck_Name = ''binlog_row_value_options'', ck_Want = ''empty'',
             ck_Got = (if trimmed = [] then ''empty'' else trimmed), ck_OK = (trimmed = []), ck_Severity = Required\<rparr>))"

subsection \<open>Versions\<close>

text \<open>The numbers of a version, up to the first part that is none: \<^verbatim>\<open>Atoi\<close> on parts of digits.\<close>

fun versionParts :: "string list \<Rightarrow> nat list" where
  "versionParts [] = []"
| "versionParts (part # parts) = (case parseInt64 part of
      Inl _ \<Rightarrow> []
    | Inr n \<Rightarrow> unat n # versionParts parts)"

definition parseVersion :: "string \<Rightarrow> nat list" where
  "parseVersion s = versionParts (splitOn (CHR ''.'') (takeWhile (\<lambda>r. r = CHR ''.'' \<or> isDigit r) s))"

fun versionLoop :: "nat list \<Rightarrow> nat list \<Rightarrow> bool" where
  "versionLoop g [] = True"
| "versionLoop [] (m # ms) = False"
| "versionLoop (g # gs) (m # ms) = (if g \<noteq> m then g > m else versionLoop gs ms)"

definition atLeastVersion :: "string \<Rightarrow> string \<Rightarrow> bool" where
  "atLeastVersion got least =
     (let g = parseVersion got in if g = [] then False else versionLoop g (parseVersion least))"

definition minVersion :: string where
  "minVersion = ''8.0.1''"

definition serverCheck :: "variables \<Rightarrow> check" where
  "serverCheck vars = (let base = \<lparr>ck_Name = ''server version'', ck_Want = ''MySQL >= '' @ minVersion, ck_Got = ''<unknown>'',
       ck_OK = False, ck_Severity = Required\<rparr>
     in case varGet vars ''version'' of
          None \<Rightarrow> base
        | Some got \<Rightarrow>
            if strContains (toLower got) ''mariadb'' then base\<lparr>ck_Got := got @ '' (MariaDB)''\<rparr>
            else base\<lparr>ck_Got := got, ck_OK := atLeastVersion got minVersion\<rparr>)"

definition serverIDCheck :: "variables \<Rightarrow> check" where
  "serverIDCheck vars =
     \<lparr>ck_Name = ''server_id'', ck_Want = ''non-zero'',
      ck_Got = (case varGet vars ''server_id'' of None \<Rightarrow> ''<unsupported>'' | Some got \<Rightarrow> got),
      ck_OK = (case varGet vars ''server_id'' of
          None \<Rightarrow> False
        | Some got \<Rightarrow> (case parseUint64 (trimSpace got) of Inl _ \<Rightarrow> False | Inr i \<Rightarrow> i < 4294967296 \<and> i \<noteq> 0)),
      ck_Severity = Required\<rparr>"

definition retentionCheck :: "variables \<Rightarrow> check" where
  "retentionCheck vars = (case varGet vars ''binlog_expire_logs_seconds'' of
      None \<Rightarrow> \<lparr>ck_Name = ''binlog retention'', ck_Want = ''>= 24h'', ck_Got = ''<unknown>'', ck_OK = False, ck_Severity = Advisory\<rparr>
    | Some got \<Rightarrow>
        (let secs = parseUint64 (trimSpace got)
         in \<lparr>ck_Name = ''binlog retention'', ck_Want = ''>= 24h'',
             ck_Got = (if secs = Inr 0 then ''never expires'' else got @ ''s''),
             ck_OK = (case secs of Inl _ \<Rightarrow> False | Inr n \<Rightarrow> n = 0 \<or> 86400 \<le> n),
             ck_Severity = Advisory\<rparr>))"

definition grantedBy :: "string \<Rightarrow> string \<Rightarrow> bool" where
  "grantedBy priv line =
     (let up = toUpper line
      in hasPrefix (trimSpace up) ''GRANT'' \<and> (strContains up ''ALL PRIVILEGES'' \<or> strContains up priv))"

definition grantCheck :: "string list \<Rightarrow> string \<Rightarrow> check" where
  "grantCheck grants priv =
     (let found = list_ex (grantedBy priv) grants
      in \<lparr>ck_Name = ''grant:'' @ priv, ck_Want = ''granted'', ck_Got = (if found then ''granted'' else ''missing''),
          ck_OK = found, ck_Severity = Required\<rparr>)"

definition Evaluate :: "variables \<Rightarrow> string list \<Rightarrow> report" where
  "Evaluate vars grants =
     [serverCheck vars,
      equalsCheck vars ''log_bin'' ''ON'' Required,
      equalsCheck vars ''binlog_format'' ''ROW'' Required,
      equalsCheck vars ''binlog_row_image'' ''FULL'' Required,
      equalsCheck vars ''binlog_row_metadata'' ''FULL'' Required,
      equalsCheck vars ''gtid_mode'' ''ON'' Required,
      equalsCheck vars ''enforce_gtid_consistency'' ''ON'' Advisory,
      partialJSONCheck vars,
      serverIDCheck vars,
      retentionCheck vars,
      equalsCheck vars ''log_replica_updates'' ''ON'' Advisory] @
     map (grantCheck grants) [''REPLICATION SLAVE'', ''REPLICATION CLIENT'', ''SELECT'']"

text \<open>The rows of SHOW GLOBAL VARIABLES, of which those asked for are kept, a later one over an earlier one.\<close>

fun keepVars :: "string list \<Rightarrow> variables \<Rightarrow> (string + string \<times> string) list \<Rightarrow> string + variables" where
  "keepVars want out [] = Inr out"
| "keepVars want out (Inl e # rest) = Inl e"
| "keepVars want out (Inr (k, v) # rest) =
     (let k' = toLower k
      in keepVars want (if k' \<in> set (map toLower want) then out(k' \<mapsto> v) else out) rest)"

definition preflightRun ::
    "('w \<Rightarrow> (string + (string + string \<times> string) list \<times> string option) \<times> 'w) \<Rightarrow>
     ('w \<Rightarrow> (string + string list) \<times> 'w) \<Rightarrow> 'w \<Rightarrow> (string + report) \<times> 'w" where
  "preflightRun showVariables showGrants w = (case showVariables w of
      (Inl e, w1) \<Rightarrow> (Inl e, w1)
    | (Inr (rows, ending), w1) \<Rightarrow>
        (case (case keepVars preflightVars Map.empty rows of
                 Inl e \<Rightarrow> Inl e
               | Inr vars \<Rightarrow> (case ending of Some e \<Rightarrow> Inl e | None \<Rightarrow> Inr vars)) of
           Inl e \<Rightarrow> (Inl e, w1)
         | Inr vars \<Rightarrow> (case showGrants w1 of
               (Inl e, w2) \<Rightarrow> (Inl e, w2)
             | (Inr grants, w2) \<Rightarrow> (Inr (Evaluate vars grants), w2))))"

subsection \<open>Versions are compared number by number\<close>

lemma versionLoop_lexicographic:
  "versionLoop g m \<longleftrightarrow> length m \<le> length g \<and> take (length m) g = m \<or>
     (\<exists>i < length m. i < length g \<and> take i g = take i m \<and> m ! i < g ! i)"
proof (induction g m rule: versionLoop.induct)
  case (3 g gs m ms)
  have step: "(\<exists>i < length (m # ms). i < length (g # gs) \<and> take i (g # gs) = take i (m # ms) \<and> (m # ms) ! i < (g # gs) ! i) \<longleftrightarrow>
      m < g \<or> g = m \<and> (\<exists>i < length ms. i < length gs \<and> take i gs = take i ms \<and> ms ! i < gs ! i)"
  proof
    assume "\<exists>i < length (m # ms). i < length (g # gs) \<and> take i (g # gs) = take i (m # ms) \<and> (m # ms) ! i < (g # gs) ! i"
    then obtain i where i: "i < length (m # ms)" "i < length (g # gs)" "take i (g # gs) = take i (m # ms)" "(m # ms) ! i < (g # gs) ! i" by blast
    then show "m < g \<or> g = m \<and> (\<exists>i < length ms. i < length gs \<and> take i gs = take i ms \<and> ms ! i < gs ! i)"
      by (cases i) auto
  next
    assume "m < g \<or> g = m \<and> (\<exists>i < length ms. i < length gs \<and> take i gs = take i ms \<and> ms ! i < gs ! i)"
    then show "\<exists>i < length (m # ms). i < length (g # gs) \<and> take i (g # gs) = take i (m # ms) \<and> (m # ms) ! i < (g # gs) ! i"
      by (auto intro: exI [of _ 0] exI [of _ "Suc _"])
  qed
  show ?case using 3 unfolding step by auto
qed auto

subsection \<open>Properties\<close>

definition varIs :: "variables \<Rightarrow> string \<Rightarrow> string \<Rightarrow> bool" where
  "varIs vars name want \<longleftrightarrow> (\<exists>got. vars name = Some got \<and> equalFold (trimSpace got) want)"


end
