(* ===== verification/Generate.thy ===== *)
theory Generate
  imports Transform ClickHouse Settings "HOL-Library.AList"
begin

text \<open>
  \<^verbatim>\<open>internal/schema/generate.go\<close>: the schema of a destination, from the same choice of columns and names
  that the pipeline is compiled from.  The \<^verbatim>\<open>rename\<close> map is its list of entries.
\<close>

record generated =
  gen_Body :: string
  gen_Warnings :: "string list"

record destination_field =
  df_column :: column
  df_name :: string
  df_mapped :: mapped

datatype generate_error =
    GenSelect schema_error
  | GenMap schema_error
  | GenReserved string string
  | GenNoColumns string
  | GenTableRequired
  | GenKeyRequired string

definition minClickHouseCH :: string where
  "minClickHouseCH = ''23.2''"

definition renamedTo :: "(string \<times> string) list \<Rightarrow> string \<Rightarrow> string" where
  "renamedTo rename name = (case map_of rename name of
      Some renamed \<Rightarrow> if renamed \<noteq> [] then renamed else name
    | None \<Rightarrow> name)"

definition destinationField :: "(string \<times> string) list \<Rightarrow> column \<Rightarrow> generate_error + destination_field" where
  "destinationField rename c = (case schemaMap c of
      Inl e \<Rightarrow> Inl (GenMap e)
    | Inr m \<Rightarrow>
        (let name = renamedTo rename (col_Name c)
         in if name = VersionColumn \<or> name = DeletedColumn then Inl (GenReserved (col_Name c) name)
            else Inr \<lparr>df_column = c, df_name = name, df_mapped = m\<rparr>))"

definition resolveFields ::
    "table_meta \<Rightarrow> string list \<Rightarrow> string list \<Rightarrow> string list \<Rightarrow> (string \<times> string) list \<Rightarrow>
     generate_error + destination_field list" where
  "resolveFields meta incl excl keyNames rename = (case SelectColumns meta incl excl keyNames of
      Inl e \<Rightarrow> Inl (GenSelect e)
    | Inr selected \<Rightarrow> (case mapResult (destinationField rename) selected of
          Inl e \<Rightarrow> Inl e
        | Inr flds \<Rightarrow> if flds = [] then Inl (GenNoColumns (Name meta)) else Inr flds))"

text \<open>The map of expected types: a later field of the same name overwrites an earlier one.\<close>

definition ExpectedElasticsearchFields ::
    "table_meta \<Rightarrow> string list \<Rightarrow> string list \<Rightarrow> string list \<Rightarrow> (string \<times> string) list \<Rightarrow>
     generate_error + (string \<times> string) list" where
  "ExpectedElasticsearchFields meta incl excl keyNames rename =
     (case resolveFields meta incl excl keyNames rename of
        Inl e \<Rightarrow> Inl e
      | Inr flds \<Rightarrow> Inr (fold (\<lambda>f m. AList.update (df_name f) (m_Elasticsearch (df_mapped f)) m) flds []))"

definition dq :: string where
  "dq = [CHR 0x22]"

definition newline :: string where
  "newline = [CHR 0x0A]"

definition esProperty :: "destination_field \<Rightarrow> string" where
  "esProperty f =
     (let name = jsonMarshalString (df_name f); t = m_Elasticsearch (df_mapped f)
      in if t = ''object''
         then ''      '' @ name @ '': { '' @ dq @ ''type'' @ dq @ '': '' @ dq @ ''object'' @ dq @ '', '' @ dq @ ''enabled'' @ dq @ '': false }''
         else ''      '' @ name @ '': { '' @ dq @ ''type'' @ dq @ '': '' @ dq @ t @ dq @ '' }'')"

definition GenerateElasticsearch ::
    "table_meta \<Rightarrow> string list \<Rightarrow> string list \<Rightarrow> string list \<Rightarrow> (string \<times> string) list \<Rightarrow> int \<Rightarrow> int \<Rightarrow>
     generate_error + generated" where
  "GenerateElasticsearch meta incl excl keyNames rename shards replicas =
     (case resolveFields meta incl excl keyNames rename of
        Inl e \<Rightarrow> Inl e
      | Inr flds \<Rightarrow>
          (let shards' = (if shards < 1 then 1 else shards); replicas' = (if replicas < 0 then 1 else replicas)
           in Inr \<lparr>gen_Body = ''{'' @ newline @
               ''  '' @ dq @ ''settings'' @ dq @ '': {'' @ newline @
               ''    '' @ dq @ ''number_of_shards'' @ dq @ '': '' @ showInt shards' @ '','' @ newline @
               ''    '' @ dq @ ''number_of_replicas'' @ dq @ '': '' @ showInt replicas' @ newline @
               ''  },'' @ newline @
               ''  '' @ dq @ ''mappings'' @ dq @ '': {'' @ newline @
               ''    '' @ dq @ ''dynamic'' @ dq @ '': '' @ dq @ ''strict'' @ dq @ '','' @ newline @
               ''    '' @ dq @ ''properties'' @ dq @ '': {'' @ newline @
               joinWith ('','' @ newline) (map esProperty flds) @ newline @
               ''    }'' @ newline @ ''  }'' @ newline @ ''}'' @ newline,
             gen_Warnings = [
               ''dynamic mapping is disabled: a column added to the source and included in the mapping needs this file regenerated and applied before it can be written'',
               ''apply this to a new index and move the read alias to it, so a rebuild is atomic and reversible'']\<rparr>))"

definition quoteCH :: "string \<Rightarrow> string" where
  "quoteCH name = [CHR 0x60] @ replaceByte (CHR 0x60) [CHR 0x5C, CHR 0x60] name @ [CHR 0x60]"

definition qualifyCH :: "string \<Rightarrow> string" where
  "qualifyCH table = joinWith ''.'' (map quoteCH (splitOn (CHR ''.'') table))"

text \<open>\<^verbatim>\<open>%-*s\<close>: filled up with spaces on the right, counting characters; a byte outside UTF-8 counts as one.\<close>

function runeCount :: "bytes \<Rightarrow> nat" where
  "runeCount s = (if s = [] then 0 else Suc (runeCount (drop (max 1 (utf8Head s)) s)))"
  by pat_completeness auto
termination by (relation "measure length") auto

declare runeCount.simps [simp del]

definition padRight :: "nat \<Rightarrow> string \<Rightarrow> string" where
  "padRight width s = s @ replicate (width - runeCount s) (CHR '' '')"

definition columnLine :: "nat \<Rightarrow> string \<Rightarrow> string \<Rightarrow> string" where
  "columnLine width name type = ''    '' @ padRight (width + 2) (quoteCH name) @ '' '' @ type"

definition nullableWarning :: "destination_field \<Rightarrow> string" where
  "nullableWarning f =
     df_name f @ '' is Nullable, which costs a null mask and blocks some optimisations; consider a default instead''"

definition GenerateClickHouse ::
    "table_meta \<Rightarrow> string list \<Rightarrow> string list \<Rightarrow> string list \<Rightarrow> (string \<times> string) list \<Rightarrow> string \<Rightarrow>
     generate_error + generated" where
  "GenerateClickHouse meta incl excl keyNames rename table =
     (case resolveFields meta incl excl keyNames rename of
        Inl e \<Rightarrow> Inl e
      | Inr flds \<Rightarrow>
          if table = [] then Inl GenTableRequired
          else
            (let width = fold (\<lambda>f w. if w < length (df_name f) then length (df_name f) else w) flds 0;
                 columns = map (\<lambda>f. columnLine width (df_name f) (m_ClickHouse (df_mapped f))) flds @
                   [columnLine width VersionColumn ''UInt64'', columnLine width DeletedColumn ''UInt8''];
                 orderBy = map (\<lambda>k. quoteCH (renamedTo rename k)) keyNames
             in if orderBy = [] then Inl (GenKeyRequired (Name meta))
                else Inr \<lparr>gen_Body = ''CREATE TABLE IF NOT EXISTS '' @ qualifyCH table @ newline @ ''('' @ newline @
                    joinWith ('','' @ newline) columns @ newline @ '')'' @ newline @
                    ''ENGINE = ReplacingMergeTree('' @ VersionColumn @ '', '' @ DeletedColumn @ '')'' @ newline @
                    ''ORDER BY ('' @ joinWith '', '' orderBy @ '');'' @ newline,
                  gen_Warnings = map nullableWarning (filter (\<lambda>f. col_Nullable (df_column f)) flds) @ [
                    ''readers must query this table with FINAL, or with a view that does, until background merges have collapsed duplicate versions'',
                    ''the is_deleted engine parameter requires ClickHouse '' @ minClickHouseCH @ '' or newer'']\<rparr>))"

subsection \<open>The same columns under the same names\<close>

lemma fields_agree:
  assumes "mapResult (compileField mp) cols = Inr flds" and "mapResult (destinationField (mp_Rename mp)) cols = Inr dests"
  shows "map f_name flds = map df_name dests \<and> map f_kind flds = map (m_Kind \<circ> df_mapped) dests"
  using assms
proof (induction cols arbitrary: flds dests)
  case Nil
  then show ?case by simp
next
  case (Cons c cols)
  then show ?case
    by (auto simp: compileField_def destinationField_def destinationName_def renamedTo_def Let_def
        split: sum.splits if_splits)
qed

lemma find_append: "find P (xs @ ys) = (case find P xs of Some x \<Rightarrow> Some x | None \<Rightarrow> find P ys)"
  by (induction xs) auto

lemma expected_lookup:
  "map_of (fold (\<lambda>f m. AList.update (df_name f) (g f) m) flds acc) name =
     (case find (\<lambda>f. df_name f = name) (rev flds) of Some f \<Rightarrow> Some (g f) | None \<Rightarrow> map_of acc name)"
proof (induction flds arbitrary: acc)
  case Nil
  then show ?case by simp
next
  case (Cons f flds)
  then show ?case by (auto simp: find_append update_conv' split: option.splits)
qed

subsection \<open>Properties\<close>

text \<open>
  C36: What is validated is what is sent.  When a stream's mapping compiles and its expected fields resolve,
  the fields the pipeline writes are, name by name and in order, the fields of the generated schema, and
  the names that the check at startup expects in the index are exactly the names written, with the type
  of the last column of that name.
\<close>

theorem expected_is_sent:
  assumes "Compile (Some meta) mp dialect zone policy = Inr p" and "ResolveKey meta (mp_Key mp) = Inr keyNames"
    and "resolveFields meta (mp_Include mp) (mp_Exclude mp) keyNames (mp_Rename mp) = Inr dests"
    and "ExpectedElasticsearchFields meta (mp_Include mp) (mp_Exclude mp) keyNames (mp_Rename mp) = Inr expected"
  shows "Fields p = map df_name dests \<and> fst ` set expected = set (Fields p) \<and>
    (\<forall>f \<in> set dests. distinct (Fields p) \<longrightarrow> map_of expected (df_name f) = Some (m_Elasticsearch (df_mapped f)))"
proof -
  obtain selected flds where "SelectColumns meta (mp_Include mp) (mp_Exclude mp) keyNames = Inr selected"
    "mapResult (compileField mp) selected = Inr flds" "p_fields p = flds"
    using assms(1,2) by (auto simp: Compile_def Let_def split: sum.splits if_splits)
  moreover from this assms(3) have "mapResult (destinationField (mp_Rename mp)) selected = Inr dests"
    by (auto simp: resolveFields_def split: sum.splits if_splits)
  ultimately have names: "Fields p = map df_name dests" using fields_agree by (auto simp: Fields_def)
  have exp: "expected = fold (\<lambda>f m. AList.update (df_name f) (m_Elasticsearch (df_mapped f)) m) dests []"
    using assms(3,4) by (simp add: ExpectedElasticsearchFields_def)
  note look = expected_lookup [of "\<lambda>f. m_Elasticsearch (df_mapped f)" dests "[]", folded exp]
  have "name \<in> fst ` set expected \<longleftrightarrow> name \<in> df_name ` set dests" for name
  proof -
    have "name \<in> fst ` set expected \<longleftrightarrow> map_of expected name \<noteq> None" by (simp add: map_of_eq_None_iff)
    also have "\<dots> \<longleftrightarrow> name \<in> df_name ` set dests" 
    proof (cases "find (\<lambda>f. df_name f = name) (rev dests)")
      case None
      then have "name \<notin> df_name ` set dests" by (auto simp: find_None_iff)
      with None show ?thesis unfolding look by simp
    next
      case (Some f)
      then show ?thesis using find_SomeD [OF Some] unfolding look by auto
    qed
    finally show ?thesis .
  qed
  moreover have "map_of expected (df_name f) = Some (m_Elasticsearch (df_mapped f))"
    if "f \<in> set dests" "distinct (map df_name dests)" for f
  proof (cases "find (\<lambda>g. df_name g = df_name f) (rev dests)")
    case None
    with that(1) have False by (auto simp: find_None_iff)
    then show ?thesis ..
  next
    case (Some g)
    then have "g \<in> set dests" "df_name g = df_name f" using find_SomeD [OF Some] by auto
    then have "g = f" using that by (auto simp: distinct_map dest: inj_onD)
    with Some show ?thesis unfolding look by simp
  qed
  ultimately show ?thesis unfolding names by auto
qed

theorem expected_is_sent_witness: "fst ` set [(''id'', ''unsigned_long''), (''title'', ''keyword'')] = set (Fields examplePlan)"
proof -
  have "\<not> isl (Compile (Some exampleTable) exampleMapping DialectElasticsearch None [])" by code_simp
  then have plan: "Compile (Some exampleTable) exampleMapping DialectElasticsearch None [] = Inr examplePlan"
    by (simp add: examplePlan_def)
  let ?mp = exampleMapping
  have key: "ResolveKey exampleTable (mp_Key ?mp) = Inr [''id'']" by code_simp
  have "\<not> isl (resolveFields exampleTable (mp_Include ?mp) (mp_Exclude ?mp) [''id''] (mp_Rename ?mp))" by code_simp
  then obtain dests where r: "resolveFields exampleTable (mp_Include ?mp) (mp_Exclude ?mp) [''id''] (mp_Rename ?mp) = Inr dests"
    by (metis isl_def sum.exhaust_sel)
  have e: "ExpectedElasticsearchFields exampleTable (mp_Include ?mp) (mp_Exclude ?mp) [''id''] (mp_Rename ?mp) =
      Inr [(''id'', ''unsigned_long''), (''title'', ''keyword'')]" by code_simp
  from expected_is_sent [OF plan key r e] show ?thesis by blast
qed

text \<open>
  Two columns can be written under one name.  A rename onto the name of another column is refused only
  when that column is listed under include: without a list, the mapping passes the configuration's check,
  compiles, and gives every document the same name twice.
\<close>

definition collidingMapping :: mapping where
  "collidingMapping = \<lparr>mp_Key = [], mp_Include = [], mp_Exclude = [], mp_Rename = [(''note'', ''name'')], mp_OnZeroDate = []\<rparr>"

theorem rename_collides:
  "validateMapping ''streams.s.mapping'' collidingMapping = [] \<and>
   map_sum (\<lambda>_. ()) Fields (Compile (Some exampleTable) collidingMapping DialectElasticsearch None []) = Inr [''id'', ''name'', ''name'']"
  by code_simp

text \<open>
  A column can be written under the name the ClickHouse sink appends to every row for its version: the
  generator refuses such a name, but nothing that runs at startup does.
\<close>

definition reservedMapping :: mapping where
  "reservedMapping = collidingMapping\<lparr>mp_Rename := [(''note'', VersionColumn)]\<rparr>"

theorem reserved_name_compiles:
  "validateMapping ''streams.s.mapping'' reservedMapping = [] \<and>
   map_sum (\<lambda>_. ()) Fields (Compile (Some exampleTable) reservedMapping DialectClickHouse None []) = Inr [''id'', ''name'', ''_version'']"
  by code_simp

end
