(* ===== verification/DeadLetters.thy ===== *)
theory DeadLetters
  imports Event GoEncoding Settings "HOL-Library.Sublist"
begin

text \<open>
  \<^verbatim>\<open>internal/sink/dlq\<close>: refused documents are appended to a file of the stream, one line of JSON each, and
  are on disk when the call returns; a file that has grown too large is renamed.

  The calls to the operating system are the fields of \<open>fs_env\<close>, on handles of type \<^typ>\<open>'h\<close> and a world
  \<^typ>\<open>'w\<close>; so are the clock, the joining of paths, and the check and compaction that \<^verbatim>\<open>json.Marshal\<close> applies
  to a raw message.  The writer's mutex is not modelled: one call at a time.
\<close>

record dlq_options =
  do_Dir :: string
  do_Stream :: string
  do_MaxBytes :: int
  do_IncludePayload :: bool

record 'h dlq_writer =
  dw_opts :: dlq_options
  dw_path :: string
  dw_file :: "'h option"
  dw_size :: int

record ('h, 'w) fs_env =
  fs_mkdir :: "string \<Rightarrow> 'w \<Rightarrow> string option \<times> 'w"
  fs_open :: "string \<Rightarrow> 'w \<Rightarrow> (string + 'h) \<times> 'w"
  fs_size :: "'h \<Rightarrow> 'w \<Rightarrow> (string + int) \<times> 'w"
  fs_write :: "'h \<Rightarrow> bytes \<Rightarrow> 'w \<Rightarrow> string option \<times> 'w"
  fs_sync :: "'h \<Rightarrow> 'w \<Rightarrow> string option \<times> 'w"
  fs_close :: "'h \<Rightarrow> 'w \<Rightarrow> string option \<times> 'w"
  fs_rename :: "string \<Rightarrow> string \<Rightarrow> 'w \<Rightarrow> string option \<times> 'w"
  fs_now :: "'w \<Rightarrow> time \<times> 'w"
  fs_compact :: "bytes \<Rightarrow> string + bytes"

datatype dlq_error =
    DirRequired
  | DlqStreamRequired
  | NotAFilename string
  | DlqCreate string string
  | DlqOpen string string
  | DlqStat string string
  | DlqEncode string string
  | DlqWrite string string
  | DlqFlush string string
  | DlqSync string string
  | DlqClose string string
  | DlqRotate string string
  | DlqRead string
  | DlqList string string

definition defaultMaxBytes :: int where
  "defaultMaxBytes = 67108864"

subsection \<open>Construction\<close>

text \<open>\<^verbatim>\<open>filepath.Base\<close>: the last element of a path.\<close>

definition filepathBase :: "string \<Rightarrow> string" where
  "filepathBase path =
     (if path = [] then ''.''
      else
        (let p = trimRight (\<lambda>c. c = CHR ''/'') path
         in if p = [] then ''/'' else last (splitOn (CHR ''/'') p)))"

definition dlq_New :: "(string \<Rightarrow> string \<Rightarrow> string) \<Rightarrow> dlq_options \<Rightarrow> dlq_error + 'h dlq_writer" where
  "dlq_New join opts =
     (if do_Dir opts = [] then Inl DirRequired
      else if do_Stream opts = [] then Inl DlqStreamRequired
      else if do_Stream opts \<noteq> filepathBase (do_Stream opts) \<or> CHR ''/'' \<in> set (do_Stream opts) \<or>
         CHR 0x5C \<in> set (do_Stream opts) \<or> do_Stream opts = ''.'' \<or> do_Stream opts = ''..''
      then Inl (NotAFilename (do_Stream opts))
      else Inr \<lparr>dw_opts = opts\<lparr>do_MaxBytes := (if do_MaxBytes opts \<le> 0 then defaultMaxBytes else do_MaxBytes opts)\<rparr>,
             dw_path = join (do_Dir opts) (do_Stream opts @ ''.jsonl''), dw_file = None, dw_size = 0\<rparr>)"

subsection \<open>Records\<close>

record dlq_record =
  rec_RecordedAt :: time
  rec_Stream :: string
  rec_Key :: string
  rec_Version :: u64
  rec_Deleted :: bool
  rec_Status :: int
  rec_Reason :: string
  rec_BodyBytes :: nat
  rec_Body :: bytes

definition toRecord :: "dlq_options \<Rightarrow> time \<Rightarrow> rejection \<Rightarrow> dlq_record" where
  "toRecord opts now rej =
     \<lparr>rec_RecordedAt = now, rec_Stream = do_Stream opts, rec_Key = doc_Key (rej_Doc rej),
      rec_Version = doc_Version (rej_Doc rej), rec_Deleted = doc_Deleted (rej_Doc rej), rec_Status = rej_Status rej,
      rec_Reason = rej_Reason rej, rec_BodyBytes = length (doc_Body (rej_Doc rej)),
      rec_Body = (if do_IncludePayload opts \<and> doc_Body (rej_Doc rej) \<noteq> [] then doc_Body (rej_Doc rej) else [])\<rparr>"

definition member :: "string \<Rightarrow> bytes \<Rightarrow> bytes" where
  "member name v = [CHR 0x22] @ name @ [CHR 0x22] @ '':'' @ v"

text \<open>\<^verbatim>\<open>json.Marshal\<close> of a record: its members in order, those marked omitempty only when they are not empty.\<close>

definition marshalRecord :: "('h, 'w) fs_env \<Rightarrow> dlq_record \<Rightarrow> string + bytes" where
  "marshalRecord env r =
     (let members = [member ''recorded_at'' ([CHR 0x22] @ formatRFC3339Nano (rec_RecordedAt r) @ [CHR 0x22]),
            member ''stream'' (jsonMarshalString (rec_Stream r)),
            member ''key'' (jsonMarshalString (rec_Key r)),
            member ''version'' (formatUint (rec_Version r))] @
            (if rec_Deleted r then [member ''deleted'' ''true''] else []) @
            (if rec_Status r \<noteq> 0 then [member ''status'' (showInt (rec_Status r))] else []) @
            [member ''reason'' (jsonMarshalString (rec_Reason r)),
             member ''body_bytes'' (showNat (rec_BodyBytes r))]
      in if rec_Body r = [] then Inr (''{'' @ joinWith '','' members @ ''}'')
         else (case fs_compact env (rec_Body r) of
             Inl e \<Rightarrow> Inl e
           | Inr body \<Rightarrow> Inr (''{'' @ joinWith '','' (members @ [member ''body'' body]) @ ''}'')))"

subsection \<open>Buffered writes\<close>

definition bufferSize :: nat where
  "bufferSize = 4096"

text \<open>
  \<^verbatim>\<open>bufio.Writer.Write\<close>: what does not fit goes to the file, directly when the buffer is empty; the
  result is the error, the buffer and the world.
\<close>

function bufWrite ::
    "('h, 'w) fs_env \<Rightarrow> 'h \<Rightarrow> bytes \<Rightarrow> bytes \<Rightarrow> 'w \<Rightarrow> string option \<times> bytes \<times> 'w" where
  "bufWrite env h buf p w =
     (if length p \<le> bufferSize - length buf then (None, buf @ p, w)
      else if buf = [] then (case fs_write env h p w of (e, w1) \<Rightarrow> (e, [], w1))
      else
        (let n = bufferSize - length buf
         in case fs_write env h (buf @ take n p) w of
              (Some e, w1) \<Rightarrow> (Some e, buf, w1)
            | (None, w1) \<Rightarrow> bufWrite env h [] (drop n p) w1))"
  by pat_completeness auto
termination by (relation "measure (\<lambda>(_, _, buf, _, _). length buf)") auto

declare bufWrite.simps [simp del]

definition bufFlush :: "('h, 'w) fs_env \<Rightarrow> 'h \<Rightarrow> bytes \<Rightarrow> 'w \<Rightarrow> string option \<times> 'w" where
  "bufFlush env h buf w = (if buf = [] then (None, w) else fs_write env h buf w)"

subsection \<open>Recording\<close>

definition dlq_open :: "('h, 'w) fs_env \<Rightarrow> 'h dlq_writer \<Rightarrow> 'w \<Rightarrow> (dlq_error + 'h) \<times> 'h dlq_writer \<times> 'w" where
  "dlq_open env dw w = (case dw_file dw of
      Some h \<Rightarrow> (Inr h, dw, w)
    | None \<Rightarrow> (case fs_mkdir env (do_Dir (dw_opts dw)) w of
          (Some e, w1) \<Rightarrow> (Inl (DlqCreate (do_Dir (dw_opts dw)) e), dw, w1)
        | (None, w1) \<Rightarrow> (case fs_open env (dw_path dw) w1 of
              (Inl e, w2) \<Rightarrow> (Inl (DlqOpen (dw_path dw) e), dw, w2)
            | (Inr h, w2) \<Rightarrow> (case fs_size env h w2 of
                  (Inl e, w3) \<Rightarrow> (Inl (DlqStat (dw_path dw) e), dw, snd (fs_close env h w3))
                | (Inr bytes, w3) \<Rightarrow> (Inr h, dw\<lparr>dw_file := Some h, dw_size := bytes\<rparr>, w3)))))"

text \<open>The loop over the rejections: each is stamped, encoded and written to the buffer.\<close>

fun recordLoop ::
    "('h, 'w) fs_env \<Rightarrow> dlq_options \<Rightarrow> 'h \<Rightarrow> bytes \<Rightarrow> int \<Rightarrow> rejection list \<Rightarrow> 'w \<Rightarrow>
     (dlq_error + bytes \<times> int) \<times> 'w" where
  "recordLoop env opts h buf written [] w = (Inr (buf, written), w)"
| "recordLoop env opts h buf written (rej # rejs) w = (case fs_now env w of (now, w1) \<Rightarrow>
     (case marshalRecord env (toRecord opts now rej) of
        Inl e \<Rightarrow> (Inl (DlqEncode (doc_Key (rej_Doc rej)) e), w1)
      | Inr text \<Rightarrow>
          (let line = text @ [CHR 0x0A]
           in case bufWrite env h buf line w1 of
                (Some e, buf1, w2) \<Rightarrow> (Inl (DlqWrite (doc_Key (rej_Doc rej)) e), w2)
              | (None, buf1, w2) \<Rightarrow> recordLoop env opts h buf1 (written + int (length line)) rejs w2)))"

text \<open>The layout \<^verbatim>\<open>20060102T150405.000000000\<close>.\<close>

definition formatStamp :: "time \<Rightarrow> string" where
  "formatStamp t =
     (let secs = t div 1000000000; sod = secs mod 86400; (y, m, d) = civilFromDays (secs div 86400)
      in padInt 4 y @ padInt 2 m @ padInt 2 d @ ''T'' @ padInt 2 (sod div 3600) @ padInt 2 (sod div 60 mod 60) @
         padInt 2 (sod mod 60) @ ''.'' @ padInt 9 (t mod 1000000000))"

definition rotate :: "('h, 'w) fs_env \<Rightarrow> 'h \<Rightarrow> 'h dlq_writer \<Rightarrow> 'w \<Rightarrow> dlq_error option \<times> 'h dlq_writer \<times> 'w" where
  "rotate env h dw w = (case fs_close env h w of
      (Some e, w1) \<Rightarrow> (Some (DlqClose (dw_path dw) e), dw, w1)
    | (None, w1) \<Rightarrow>
        (let dw1 = dw\<lparr>dw_file := None\<rparr>; (now, w2) = fs_now env w1
         in case fs_rename env (dw_path dw) (dw_path dw @ ''.'' @ formatStamp now) w2 of
              (Some e, w3) \<Rightarrow> (Some (DlqRotate (dw_path dw) e), dw1, w3)
            | (None, w3) \<Rightarrow> (None, dw1\<lparr>dw_size := 0\<rparr>, w3)))"

definition dlq_Record ::
    "('h, 'w) fs_env \<Rightarrow> rejection list \<Rightarrow> 'h dlq_writer \<Rightarrow> 'w \<Rightarrow> dlq_error option \<times> 'h dlq_writer \<times> 'w" where
  "dlq_Record env rejections dw w =
     (if rejections = [] then (None, dw, w)
      else (case dlq_open env dw w of
          (Inl e, dw1, w1) \<Rightarrow> (Some e, dw1, w1)
        | (Inr h, dw1, w1) \<Rightarrow> (case recordLoop env (dw_opts dw1) h [] 0 rejections w1 of
              (Inl e, w2) \<Rightarrow> (Some e, dw1, w2)
            | (Inr (buf, written), w2) \<Rightarrow> (case bufFlush env h buf w2 of
                  (Some e, w3) \<Rightarrow> (Some (DlqFlush (dw_path dw1) e), dw1, w3)
                | (None, w3) \<Rightarrow> (case fs_sync env h w3 of
                      (Some e, w4) \<Rightarrow> (Some (DlqSync (dw_path dw1) e), dw1, w4)
                    | (None, w4) \<Rightarrow>
                        (let dw2 = dw1\<lparr>dw_size := dw_size dw1 + written\<rparr>
                         in if do_MaxBytes (dw_opts dw2) \<le> dw_size dw2 then rotate env h dw2 w4
                            else (None, dw2, w4)))))))"

definition dlq_Close :: "('h, 'w) fs_env \<Rightarrow> 'h dlq_writer \<Rightarrow> 'w \<Rightarrow> string option \<times> 'h dlq_writer \<times> 'w" where
  "dlq_Close env dw w = (case dw_file dw of
      None \<Rightarrow> (None, dw, w)
    | Some h \<Rightarrow> (case fs_close env h w of (e, w1) \<Rightarrow> (e, dw\<lparr>dw_file := None\<rparr>, w1)))"

subsection \<open>Counting\<close>

text \<open>The lines of a file; a last line may lack its end.\<close>

definition fileLines :: "bytes \<Rightarrow> bytes list" where
  "fileLines content = (let parts = splitOn (CHR 0x0A) content in if last parts = [] then butlast parts else parts)"

definition maxLine :: nat where
  "maxLine = 16777216"

text \<open>\<^verbatim>\<open>bufio.Scanner\<close> stops at a line that does not fit its buffer; the count so far is kept.\<close>

definition countLines :: "bytes \<Rightarrow> nat \<times> bool" where
  "countLines content =
     (let fit = takeWhile (\<lambda>l. length l < maxLine) (fileLines content)
      in (length (filter (\<lambda>l. trimSpace l \<noteq> []) fit), length fit = length (fileLines content)))"

definition Files ::
    "(string \<Rightarrow> string + string list) \<Rightarrow> (string \<Rightarrow> string \<Rightarrow> string) \<Rightarrow> string \<Rightarrow> string \<Rightarrow> dlq_error + string list" where
  "Files glob join dir stream =
     (if dir = [] then Inr []
      else
        (let pattern = (if stream \<noteq> [] then join dir (stream @ ''.jsonl*'') else join dir ''*.jsonl*'')
         in case glob pattern of Inl e \<Rightarrow> Inl (DlqList dir e) | Inr matches \<Rightarrow> Inr (sort matches)))"

fun countFiles :: "(string \<Rightarrow> string + bytes) \<Rightarrow> nat \<Rightarrow> string list \<Rightarrow> nat \<times> dlq_error option" where
  "countFiles read sofar [] = (sofar, None)"
| "countFiles read sofar (path # paths) = (case read path of
      Inl e \<Rightarrow> (sofar, Some (DlqOpen path e))
    | Inr content \<Rightarrow> (case countLines content of
          (n, True) \<Rightarrow> countFiles read (sofar + n) paths
        | (n, False) \<Rightarrow> (sofar, Some (DlqRead path))))"

definition Count ::
    "(string \<Rightarrow> string + string list) \<Rightarrow> (string \<Rightarrow> string \<Rightarrow> string) \<Rightarrow> (string \<Rightarrow> string + bytes) \<Rightarrow> string \<Rightarrow> string \<Rightarrow>
     nat \<times> dlq_error option" where
  "Count glob join read dir stream = (case Files glob join dir stream of
      Inl e \<Rightarrow> (0, Some e)
    | Inr files \<Rightarrow> countFiles read 0 files)"

subsection \<open>What the files hold\<close>

text \<open>
  What the operating system promises of the stream's files, taken together: \<open>content\<close> is all that was ever
  appended to them and \<open>durable\<close> what is on disk.  A write that succeeds appends its bytes, one that fails
  a beginning of them; a sync that succeeds makes everything durable; opening, closing, renaming and the
  clock change neither.
\<close>

definition appendOnly :: "('h, 'w) fs_env \<Rightarrow> ('w \<Rightarrow> bytes) \<Rightarrow> ('w \<Rightarrow> bytes) \<Rightarrow> bool" where
  "appendOnly env content durable \<longleftrightarrow>
     (\<forall>h p w e w'. fs_write env h p w = (e, w') \<longrightarrow> durable w' = durable w \<and>
        (\<exists>q. prefix q p \<and> content w' = content w @ q \<and> (e = None \<longrightarrow> q = p))) \<and>
     (\<forall>h w e w'. fs_sync env h w = (e, w') \<longrightarrow> content w' = content w \<and> (durable w' = durable w \<and> e \<noteq> None \<or> durable w' = content w)) \<and>
     (\<forall>d w. (content (snd (fs_mkdir env d w)), durable (snd (fs_mkdir env d w))) = (content w, durable w)) \<and>
     (\<forall>p w. (content (snd (fs_open env p w)), durable (snd (fs_open env p w))) = (content w, durable w)) \<and>
     (\<forall>h w. (content (snd (fs_size env h w)), durable (snd (fs_size env h w))) = (content w, durable w)) \<and>
     (\<forall>h w. (content (snd (fs_close env h w)), durable (snd (fs_close env h w))) = (content w, durable w)) \<and>
     (\<forall>a b w. (content (snd (fs_rename env a b w)), durable (snd (fs_rename env a b w))) = (content w, durable w)) \<and>
     (\<forall>w. (content (snd (fs_now env w)), durable (snd (fs_now env w))) = (content w, durable w))"

text \<open>The lines of the rejections that were encoded, each with the time it was stamped with.\<close>

definition linesOf :: "('h, 'w) fs_env \<Rightarrow> dlq_options \<Rightarrow> rejection list \<Rightarrow> bytes \<Rightarrow> bool" where
  "linesOf env opts rejs out \<longleftrightarrow> (\<exists>lines. out = concat (map (\<lambda>l. l @ [CHR 0x0A]) lines) \<and>
     list_all2 (\<lambda>rej l. \<exists>now. marshalRecord env (toRecord opts now rej) = Inr l) rejs lines)"

locale append_only =
  fixes env :: "('h, 'w) fs_env" and content durable :: "'w \<Rightarrow> bytes"
  assumes laws: "appendOnly env content durable"
begin

lemma write_law:
  assumes "fs_write env h p w = (e, w')"
  shows "durable w' = durable w" and "\<exists>q. prefix q p \<and> content w' = content w @ q \<and> (e = None \<longrightarrow> q = p)"
  using laws [unfolded appendOnly_def, THEN conjunct1] assms by blast+

lemma sync_law:
  assumes "fs_sync env h w = (e, w')"
  shows "content w' = content w" and "e = None \<Longrightarrow> durable w' = content w"
  using laws [unfolded appendOnly_def, THEN conjunct2, THEN conjunct1] assms by blast+

lemma quiet_laws:
  "content (snd (fs_mkdir env d w)) = content w" "content (snd (fs_open env p w)) = content w"
  "content (snd (fs_size env h w)) = content w" "content (snd (fs_close env h w)) = content w"
  "content (snd (fs_rename env a b w)) = content w" "content (snd (fs_now env w)) = content w"
  "durable (snd (fs_close env h w)) = durable w" "durable (snd (fs_rename env a b w)) = durable w"
  "durable (snd (fs_now env w)) = durable w"
  using laws unfolding appendOnly_def by simp_all

lemma bufWrite_empty:
  assumes "bufWrite env h [] p w = (e, buf', w')"
  shows "\<exists>q. content w' = content w @ q \<and> (e = None \<longrightarrow> q @ buf' = p)"
  using assms write_law(2) [of h p w e w']
  by (subst (asm) bufWrite.simps) (auto split: if_splits prod.splits)

lemma bufWrite_law:
  assumes "bufWrite env h buf p w = (e, buf', w')"
  shows "\<exists>q. content w' = content w @ q \<and> (e = None \<longrightarrow> q @ buf' = buf @ p)"
proof (cases "length p \<le> bufferSize - length buf \<or> buf = []")
  case True
  then show ?thesis
  proof
    assume "length p \<le> bufferSize - length buf"
    with assms show ?thesis by (subst (asm) bufWrite.simps) auto
  next
    assume "buf = []"
    with bufWrite_empty assms show ?thesis by simp
  qed
next
  case False
  let ?n = "bufferSize - length buf"
  obtain e1 w1 where wr: "fs_write env h (buf @ take ?n p) w = (e1, w1)" by force
  obtain q1 where q1: "content w1 = content w @ q1" "e1 = None \<longrightarrow> q1 = buf @ take ?n p"
    using write_law(2) [OF wr] by blast
  show ?thesis
  proof (cases e1)
    case (Some x)
    with False assms wr q1 show ?thesis by (subst (asm) bufWrite.simps) (auto simp: Let_def)
  next
    case None
    with False assms wr have "bufWrite env h [] (drop ?n p) w1 = (e, buf', w')"
      by (subst (asm) bufWrite.simps) (simp add: Let_def)
    from bufWrite_empty [OF this] q1 None show ?thesis by (metis append.assoc append_take_drop_id)
  qed
qed

lemma recordLoop_law:
  assumes "recordLoop env opts h buf written rejs w = (r, w')"
  shows "\<exists>q. content w' = content w @ q \<and>
    (\<forall>buf' written'. r = Inr (buf', written') \<longrightarrow> (\<exists>out. q @ buf' = buf @ out \<and> linesOf env opts rejs out))"
  using assms
proof (induction rejs arbitrary: buf written w)
  case Nil
  then show ?case by (auto simp: linesOf_def)
next
  case (Cons rej rejs)
  obtain now w1 where n: "fs_now env w = (now, w1)" by force
  have c1: "content w1 = content w" using quiet_laws(6) [of w] n by simp
  show ?case
  proof (cases "marshalRecord env (toRecord opts now rej)")
    case (Inl x)
    with Cons.prems n c1 show ?thesis by auto
  next
    case (Inr ln)
    obtain e buf1 w2 where bw: "bufWrite env h buf (ln @ [CHR 0x0A]) w1 = (e, buf1, w2)" by (rule prod_cases3)
    obtain q1 where q1: "content w2 = content w @ q1" "e = None \<longrightarrow> q1 @ buf1 = buf @ ln @ [CHR 0x0A]"
      using bufWrite_law [OF bw] c1 by auto
    show ?thesis
    proof (cases e)
      case (Some x)
      with Cons.prems n Inr bw q1 show ?thesis by (auto simp: Let_def)
    next
      case None
      with Cons.prems n Inr bw obtain wr where rest: "recordLoop env opts h buf1 wr rejs w2 = (r, w')" by (auto simp: Let_def)
      obtain q2 where q2: "content w' = content w2 @ q2"
        "\<forall>buf' written'. r = Inr (buf', written') \<longrightarrow> (\<exists>out. q2 @ buf' = buf1 @ out \<and> linesOf env opts rejs out)"
        using Cons.IH [OF rest] by blast
      have "\<exists>out'. (q1 @ q2) @ buf' = buf @ out' \<and> linesOf env opts (rej # rejs) out'"
        if r: "r = Inr (buf', written')" for buf' written'
      proof -
        obtain out where out: "q2 @ buf' = buf1 @ out" "linesOf env opts rejs out" using q2(2) r by blast
        have "(q1 @ q2) @ buf' = q1 @ buf1 @ out" using out(1) by simp
        also have "\<dots> = buf @ (ln @ [CHR 0x0A]) @ out" using q1(2) None by (metis append.assoc)
        finally have eq: "(q1 @ q2) @ buf' = buf @ (ln @ [CHR 0x0A]) @ out" .
        obtain lines where "out = concat (map (\<lambda>l. l @ [CHR 0x0A]) lines)"
          "list_all2 (\<lambda>rej l. \<exists>now. marshalRecord env (toRecord opts now rej) = Inr l) rejs lines"
          using out(2) by (auto simp: linesOf_def)
        then have "linesOf env opts (rej # rejs) ((ln @ [CHR 0x0A]) @ out)"
          unfolding linesOf_def using Inr by (intro exI [of _ "ln # lines"]) auto
        with eq show ?thesis by blast
      qed
      then show ?thesis using q1(1) q2(1) by (intro exI [of _ "q1 @ q2"]) auto
    qed
  qed
qed

lemma dlq_open_content: "dlq_open env dw w = (r, dw1, w1) \<Longrightarrow> content w1 = content w \<and> dw_opts dw1 = dw_opts dw"
proof -
  assume a: "dlq_open env dw w = (r, dw1, w1)"
  have "fs_mkdir env d v = (x, v') \<Longrightarrow> content v' = content v" "fs_open env p v = (y, v') \<Longrightarrow> content v' = content v"
    "fs_size env h v = (z, v') \<Longrightarrow> content v' = content v" for d v x v' p y h z
    using quiet_laws(1-3) by (metis snd_conv)+
  then show ?thesis using a quiet_laws(4)
    by (auto simp: dlq_open_def split: option.splits prod.splits sum.splits)
qed

lemma rotate_content: "rotate env h dw w = (e, dw', w') \<Longrightarrow> content w' = content w \<and> durable w' = durable w"
proof -
  assume a: "rotate env h dw w = (e, dw', w')"
  obtain e1 w1 where c: "fs_close env h w = (e1, w1)" by force
  obtain now w2 where n: "fs_now env w1 = (now, w2)" by force
  obtain e3 w3 where r: "fs_rename env (dw_path dw) (dw_path dw @ ''.'' @ formatStamp now) w2 = (e3, w3)" by force
  have "content w1 = content w" "durable w1 = durable w" using quiet_laws(4,7) [of h w] c by auto
  moreover have "content w2 = content w1" "durable w2 = durable w1" using quiet_laws(6,9) [of w1] n by auto
  moreover have "content w3 = content w2" "durable w3 = durable w2"
    using quiet_laws(5,8) [of "dw_path dw" "dw_path dw @ ''.'' @ formatStamp now" w2] r by auto
  ultimately show ?thesis using a c n r by (auto simp: rotate_def Let_def split: option.splits)
qed

lemma dlq_Record_law:
  assumes "dlq_Record env rejs dw w = (e, dw', w')" and "rejs \<noteq> []"
  shows "prefix (content w) (content w') \<and>
    (e = None \<longrightarrow> durable w' = content w' \<and> (\<exists>out. content w' = content w @ out \<and> linesOf env (dw_opts dw) rejs out))"
proof -
  obtain r dw1 w1 where op: "dlq_open env dw w = (r, dw1, w1)" by (rule prod_cases3)
  note c1 = dlq_open_content [OF op]
  show ?thesis
  proof (cases r)
    case (Inl x)
    with assms op c1 show ?thesis by (auto simp: dlq_Record_def)
  next
    case (Inr h)
    obtain r2 w2 where lp: "recordLoop env (dw_opts dw1) h [] 0 rejs w1 = (r2, w2)" by force
    from recordLoop_law [OF lp] obtain q where q: "content w2 = content w1 @ q"
      "\<forall>buf' written'. r2 = Inr (buf', written') \<longrightarrow> (\<exists>out. q @ buf' = [] @ out \<and> linesOf env (dw_opts dw1) rejs out)" by blast
    show ?thesis
    proof (cases r2)
      case (Inl x)
      with assms op Inr lp c1 q show ?thesis by (auto simp: dlq_Record_def)
    next
      case r2: (Inr bw)
      obtain buf written where bw: "bw = (buf, written)" by force
      obtain e3 w3 where fl: "bufFlush env h buf w2 = (e3, w3)" by force
      obtain e4 w4 where sy: "fs_sync env h w3 = (e4, w4)" by force
      obtain q3 where q3: "content w3 = content w2 @ q3" "e3 = None \<longrightarrow> q3 = buf"
        using fl write_law(2) [of h buf w2 e3 w3] by (auto simp: bufFlush_def split: if_splits)
      note s4 = sync_law [OF sy]
      obtain out where out: "q @ buf = out" "linesOf env (dw_opts dw1) rejs out" using q(2) r2 bw by auto
      define dw2 where "dw2 = dw1\<lparr>dw_size := dw_size dw1 + written\<rparr>"
      have res: "dlq_Record env rejs dw w = (case e3 of Some x \<Rightarrow> (Some (DlqFlush (dw_path dw1) x), dw1, w3)
          | None \<Rightarrow> (case e4 of Some x \<Rightarrow> (Some (DlqSync (dw_path dw1) x), dw1, w4)
            | None \<Rightarrow> if do_MaxBytes (dw_opts dw2) \<le> dw_size dw2 then rotate env h dw2 w4 else (None, dw2, w4)))"
        using assms(2) by (simp add: dlq_Record_def op Inr lp r2 bw fl sy dw2_def split: option.split)
      have "content w' = content w3 \<and> (e = None \<longrightarrow> e3 = None \<and> durable w' = content w')"
        using assms(1) res s4 rotate_content [of h dw2 w4 e dw' w']
        by (auto split: option.splits if_splits)
      then show ?thesis using q3 q(1) c1 out by auto
    qed
  qed
qed

end

subsection \<open>Every line is one record\<close>

definition printable :: "bytes \<Rightarrow> bool" where
  "printable s \<longleftrightarrow> list_all (\<lambda>c. 32 \<le> byteVal c) s"

lemma printable_simps [simp]:
  "printable []" "printable (c # s) \<longleftrightarrow> 32 \<le> byteVal c \<and> printable s" "printable (s @ t) \<longleftrightarrow> printable s \<and> printable t"
  by (simp_all add: printable_def)

lemma printable_digits: "\<forall>c \<in> set s. isDigit c \<Longrightarrow> printable s"
  by (induction s) (auto simp: isDigit_def)

lemma byteVal_literals [simp]:
  "32 \<le> byteVal (CHR ''-'')" "32 \<le> byteVal (CHR ''.'')" "32 \<le> byteVal (CHR ''T'')" "32 \<le> byteVal (CHR ''Z'')"
  "32 \<le> byteVal (CHR '':'')" "32 \<le> byteVal (CHR ''0'')" "32 \<le> byteVal (CHR 0x22)"
  by (simp_all add: byteVal_def)

lemma printable_numbers:
  "printable (showNat n)" "printable (showInt i)" "printable (formatUint v)" "printable (padNat k n)" "printable (padInt k i)"
proof -
  show n: "printable (showNat n)" for n by (rule printable_digits [OF showNat_digits])
  have r: "printable (replicate m CHR ''0'')" for m by (induction m) auto
  show p: "printable (padNat k n)" for k n by (simp add: padNat_def n r)
  show "printable (showInt i)" "printable (formatUint v)" "printable (padInt k i)"
    by (simp_all add: showInt_def formatUint_def padInt_def n p)
qed

lemma printable_trimRight: "printable s \<Longrightarrow> printable (trimRight p s)"
  by (simp add: printable_def trimRight_def list_all_iff) (metis set_dropWhileD set_rev)

lemma printable_time: "printable (formatRFC3339Nano t)"
  by (simp add: formatRFC3339Nano_def formatSeconds_def formatFraction_def printable_numbers printable_trimRight
      Let_def split: prod.split)

lemma printable_string: "printable (jsonMarshalString s)"
  using jsonStringBody_printable [of s] by (simp add: jsonMarshalString_def printable_def byteVal_def)

lemma printable_member: "printable name \<Longrightarrow> printable v \<Longrightarrow> printable (member name v)"
  by (simp add: member_def byteVal_def)

lemma printable_joinWith: "printable sep \<Longrightarrow> list_all printable ps \<Longrightarrow> printable (joinWith sep ps)"
  by (induction sep ps rule: joinWith.induct) auto

text \<open>A record is encoded without control characters, provided the compacted body has none, as JSON has none.\<close>

lemma marshalRecord_printable:
  assumes "marshalRecord env r = Inr l"
    and "\<And>b b'. fs_compact env b = Inr b' \<Longrightarrow> printable b'"
  shows "printable l" and "\<exists>m. l = ''{'' @ m @ ''}''"
proof -
  have names: "printable ''recorded_at''" "printable ''stream''" "printable ''key''" "printable ''version''"
    "printable ''deleted''" "printable ''status''" "printable ''reason''" "printable ''body_bytes''" "printable ''body''"
    "printable ''true''" "printable '',''" "printable ''{''" "printable ''}''"
    by (simp_all add: byteVal_def)
  show "printable l"
    using assms names
    by (auto simp: marshalRecord_def Let_def printable_numbers printable_time printable_string printable_member
        intro!: printable_joinWith split: if_splits sum.splits)
  show "\<exists>m. l = ''{'' @ m @ ''}''"
    using assms(1) by (auto simp: marshalRecord_def Let_def split: if_splits sum.splits)
qed

lemma trimSpace_object: "trimSpace (''{'' @ m @ ''}'') \<noteq> []"
  by (simp add: trimSpace_def trimRight_def isSpace_def byteVal_def)

lemma fileLines_written: "\<forall>l \<in> set ls. CHR 0x0A \<notin> set l \<Longrightarrow> fileLines (concat (map (\<lambda>l. l @ [CHR 0x0A]) ls)) = ls"
  by (simp add: fileLines_def splitOn_lines)

lemma linesOf_lines:
  assumes "linesOf env opts rejs out" and "\<And>b b'. fs_compact env b = Inr b' \<Longrightarrow> printable b'"
  shows "length (fileLines out) = length rejs" and "\<forall>l \<in> set (fileLines out). trimSpace l \<noteq> []"
    and "list_all2 (\<lambda>rej l. \<exists>now. marshalRecord env (toRecord opts now rej) = Inr l) rejs (fileLines out)"
proof -
  obtain lines where l: "out = concat (map (\<lambda>l. l @ [CHR 0x0A]) lines)"
    "list_all2 (\<lambda>rej l. \<exists>now. marshalRecord env (toRecord opts now rej) = Inr l) rejs lines"
    using assms(1) by (auto simp: linesOf_def)
  have each: "printable x \<and> (\<exists>m. x = ''{'' @ m @ ''}'')" if "x \<in> set lines" for x
    using l(2) that marshalRecord_printable [OF _ assms(2)] by (fastforce simp: list_all2_conv_all_nth in_set_conv_nth)
  then have "\<forall>x \<in> set lines. CHR 0x0A \<notin> set x" by (force simp: printable_def list_all_iff byteVal_def)
  then have f: "fileLines out = lines" using fileLines_written l(1) by simp
  show "length (fileLines out) = length rejs" using l(2) f by (simp add: list_all2_lengthD)
  show "\<forall>l \<in> set (fileLines out). trimSpace l \<noteq> []" using each trimSpace_object f by auto
  show "list_all2 (\<lambda>rej l. \<exists>now. marshalRecord env (toRecord opts now rej) = Inr l) rejs (fileLines out)"
    using l(2) f by simp
qed

subsection \<open>Reading back\<close>

text \<open>The decoder of a line is an argument: \<^verbatim>\<open>json.Unmarshal\<close> into a record.\<close>

fun readLines :: "(bytes \<Rightarrow> string + dlq_record) \<Rightarrow> dlq_record list \<Rightarrow> bytes list \<Rightarrow> dlq_error + dlq_record list" where
  "readLines unmarshal recs [] = Inr recs"
| "readLines unmarshal recs (l # ls) =
     (if maxLine \<le> length l then Inl (DlqRead ''token too long'')
      else if trimSpace l = [] then readLines unmarshal recs ls
      else (case unmarshal (trimSpace l) of
          Inl e \<Rightarrow> Inl (DlqRead e)
        | Inr r \<Rightarrow> readLines unmarshal (recs @ [r]) ls))"

definition dlq_Read ::
    "(string \<Rightarrow> string + bytes) \<Rightarrow> (bytes \<Rightarrow> string + dlq_record) \<Rightarrow> string \<Rightarrow> dlq_error + dlq_record list" where
  "dlq_Read read unmarshal path = (case read path of
      Inl e \<Rightarrow> Inl (DlqOpen path e)
    | Inr content \<Rightarrow> readLines unmarshal [] (fileLines content))"

subsection \<open>A disk with a quota\<close>

text \<open>
  A file system of one growing file with a quota: what was written, what is on disk, and the bytes left.  A
  write that does not fit writes what does and reports the failure.
\<close>

type_synonym disk = "bytes \<times> bytes \<times> nat"

abbreviation written :: "disk \<Rightarrow> bytes" where
  "written \<equiv> fst"

abbreviation synced :: "disk \<Rightarrow> bytes" where
  "synced \<equiv> \<lambda>d. fst (snd d)"

definition quotaDisk :: "(unit, disk) fs_env" where
  "quotaDisk = \<lparr>fs_mkdir = (\<lambda>_ d. (None, d)), fs_open = (\<lambda>_ d. (Inr (), d)),
     fs_size = (\<lambda>_ d. (Inr (int (length (fst d))), d)),
     fs_write = (\<lambda>_ p (c, s, free). (if length p \<le> free then None else Some ''no space left on device'',
        c @ take free p, s, free - length p)),
     fs_sync = (\<lambda>_ (c, s, free). (None, c, c, free)), fs_close = (\<lambda>_ d. (None, d)),
     fs_rename = (\<lambda>_ _ d. (None, d)), fs_now = (\<lambda>d. (0, d)), fs_compact = (\<lambda>_. Inl ''no payload'')\<rparr>"

lemma quotaDisk_appendOnly: "appendOnly quotaDisk written synced"
  by (auto simp: appendOnly_def quotaDisk_def take_is_prefix split: if_splits)

interpretation quota: append_only quotaDisk written synced
  by unfold_locales (rule quotaDisk_appendOnly)

definition exampleWriter :: "unit dlq_writer" where
  "exampleWriter = projr (dlq_New (\<lambda>dir file. dir @ ''/'' @ file)
     \<lparr>do_Dir = ''/var/dlq'', do_Stream = ''orders'', do_MaxBytes = 0, do_IncludePayload = False\<rparr>)"

definition exampleRejection :: rejection where
  "exampleRejection =
     \<lparr>rej_Doc = \<lparr>doc_Key = ''7'', doc_Body = ''{}'', doc_Version = 3, doc_Deleted = False\<rparr>,
      rej_Status = 400, rej_Reason = ''mapping''\<rparr>"



lemma linesOf_append: "linesOf env opts xs a \<Longrightarrow> linesOf env opts ys b \<Longrightarrow> linesOf env opts (xs @ ys) (a @ b)"
  unfolding linesOf_def by (elim exE conjE, rule_tac x = "lines @ linesa" in exI) (simp add: list_all2_appendI)

lemma countLines_linesOf:
  assumes "linesOf env opts rejs out" and "\<And>b b'. fs_compact env b = Inr b' \<Longrightarrow> printable b'"
    and "\<forall>l \<in> set (fileLines out). length l < maxLine"
  shows "countLines out = (length rejs, True)"
  using linesOf_lines(1,2) [OF assms(1,2)] assms(3) by (simp add: countLines_def takeWhile_eq_all_conv [THEN iffD2])

text \<open>
  What the status report counts is what was recorded: when the file so far holds one line for each of the
  documents recorded earlier, then after another successful call the count is the number of both together,
  provided no line outgrows the reader's buffer.
\<close>

theorem recorded_is_counted:
  assumes "appendOnly env content durable"
    and "\<And>b b'. fs_compact env b = Inr b' \<Longrightarrow> printable b'"
    and "linesOf env (dw_opts dw) earlier (content w)"
    and "dlq_Record env rejs dw w = (None, dw', w')"
    and "\<forall>l \<in> set (fileLines (content w')). length l < maxLine"
  shows "countLines (content w') = (length earlier + length rejs, True)"
proof (cases "rejs = []")
  case True
  with assms(4) have "w' = w" by (simp add: dlq_Record_def)
  with countLines_linesOf [OF assms(3,2)] assms(5) True show ?thesis by simp
next
  case False
  obtain out where "content w' = content w @ out" "linesOf env (dw_opts dw) rejs out"
    using append_only.dlq_Record_law [OF append_only.intro [OF assms(1)] assms(4) False] by blast
  with countLines_linesOf [OF linesOf_append [OF assms(3)] assms(2)] assms(5) show ?thesis by simp
qed

text \<open>
  A write that fails half way leaves the beginning of a line behind.  The next call appends to it, so the
  two records share one line, which is neither of them: the count is one short, and reading the file fails.
\<close>

theorem torn_line_joins_next:
  "(case dlq_Record quotaDisk [exampleRejection] exampleWriter ([], [], 13) of (e1, dw1, d1) \<Rightarrow>
      case dlq_Record quotaDisk [exampleRejection] dw1 (fst d1, fst (snd d1), 1000) of (e2, dw2, d2) \<Rightarrow>
        e1 \<noteq> None \<and> e2 = None \<and> length (fileLines (written d2)) = 1 \<and>
        take 26 (written d2) = [CHR ''{'', CHR 0x22] @ ''recorded_at'' @ [CHR ''{'', CHR 0x22] @ ''recorded_at'')"
  by code_simp

end
