(* ===== verification/Supervisor.thy ===== *)
theory Supervisor
  imports Backfill Router MySQLStore Preflight Generate SchemaStore DeadLetters
begin

text \<open>
  \<^verbatim>\<open>internal/supervisor\<close>: supervisor.go (the choice of the streams, the session, the check of the source),
  build.go (how a stream is put together and taken down again), stream.go without the reader (which is in
  the theory of the router), and health.go.

  Databases, the loader of table definitions, the exchange with Elasticsearch, files, and the parsers of
  addresses and of zones are fields of \<open>build_env\<close>.  Logging, metrics and the metrics server are not modelled.
\<close>

subsection \<open>Construction\<close>

definition seqBlockSize :: u64 where
  "seqBlockSize = 10000"

definition readinessLagLimit :: int where
  "readinessLagLimit = 5 * 60 * 1000000000"

record supervisor =
  sv_cfg :: config
  sv_streams :: "stream_config list"
  sv_dlqDir :: string

datatype new_error = DeadLetterDirRequired | UnknownStream string "string list" | NoStreamsConfigured

definition selectStreams :: "config \<Rightarrow> string \<Rightarrow> new_error + stream_config list" where
  "selectStreams cfg streamName =
     (if streamName \<noteq> [] then (case configStream cfg streamName of
          Inl known \<Rightarrow> Inl (UnknownStream streamName known)
        | Inr stream \<Rightarrow> Inr [stream])
      else
        (let names = StreamNames cfg
         in if names = [] then Inl NoStreamsConfigured
            else Inr (map (\<lambda>name. the (map_of (cf_Streams cfg) name)) names)))"

definition sup_New :: "config \<Rightarrow> string \<Rightarrow> string \<Rightarrow> new_error + supervisor" where
  "sup_New cfg streamName dlqDir =
     (if dlqDir = [] then Inl DeadLetterDirRequired
      else (case selectStreams cfg streamName of
          Inl e \<Rightarrow> Inl e
        | Inr streams \<Rightarrow> Inr \<lparr>sv_cfg = cfg, sv_streams = streams, sv_dlqDir = dlqDir\<rparr>))"

subsection \<open>The address of the source\<close>

text \<open>
  \<^verbatim>\<open>net.SplitHostPort\<close>: the port is what follows the last colon, and a host with colons is in brackets.
\<close>

definition splitHostPort :: "string \<Rightarrow> (string \<times> string) option" where
  "splitHostPort s = (case s of
      [] \<Rightarrow> None
    | c # r \<Rightarrow>
        if CHR '':'' \<notin> set s then None
        else if c = CHR 0x5B then
          (let host = takeWhile (\<lambda>x. x \<noteq> CHR 0x5D) r; behind = drop (Suc (length host)) r
           in if CHR 0x5D \<notin> set r then None
              else (case behind of
                  [] \<Rightarrow> None
                | d # port \<Rightarrow>
                    if d \<noteq> CHR '':'' \<or> CHR '':'' \<in> set port then None
                    else if CHR 0x5B \<in> set r \<or> CHR 0x5D \<in> set port then None
                    else Some (host, port)))
        else
          (let port = rev (takeWhile (\<lambda>x. x \<noteq> CHR '':'') (rev s)); host = take (length s - Suc (length port)) s
           in if CHR '':'' \<in> set host then None
              else if CHR 0x5B \<in> set s \<or> CHR 0x5D \<in> set s then None
              else Some (host, port)))"

definition trimBrackets :: "string \<Rightarrow> string" where
  "trimBrackets s = trimRight (\<lambda>c. c = CHR 0x5B \<or> c = CHR 0x5D) (dropWhile (\<lambda>c. c = CHR 0x5B \<or> c = CHR 0x5D) s)"

record parsed_dsn =
  pd_Net :: string
  pd_Addr :: string
  pd_User :: string
  pd_Passwd :: string

datatype address_error = DSNUnreadable string | NotTCP string | PortUnreadable string

definition addressOf :: "(string \<Rightarrow> string + parsed_dsn) \<Rightarrow> string \<Rightarrow> address_error + string \<times> 16 word" where
  "addressOf parseDSN dsn = (case parseDSN dsn of
      Inl e \<Rightarrow> Inl (DSNUnreadable e)
    | Inr cfg \<Rightarrow>
        if pd_Net cfg \<noteq> ''tcp'' then Inl (NotTCP (pd_Net cfg))
        else (case splitHostPort (pd_Addr cfg) of
            None \<Rightarrow> Inr (trimBrackets (pd_Addr cfg), 3306)
          | Some (host, portStr) \<Rightarrow> (case parseUint64 portStr of
                Inl e \<Rightarrow> Inl (PortUnreadable (pd_Addr cfg))
              | Inr n \<Rightarrow> if 65535 < n then Inl (PortUnreadable (pd_Addr cfg)) else Inr (host, ucast n))))"

definition usernameOf :: "(string \<Rightarrow> string + parsed_dsn) \<Rightarrow> string \<Rightarrow> string" where
  "usernameOf parseDSN dsn = (case parseDSN dsn of Inr cfg \<Rightarrow> pd_User cfg | Inl _ \<Rightarrow> [])"

definition passwordOf :: "(string \<Rightarrow> string + parsed_dsn) \<Rightarrow> string \<Rightarrow> string" where
  "passwordOf parseDSN dsn = (case parseDSN dsn of Inr cfg \<Rightarrow> pd_Passwd cfg | Inl _ \<Rightarrow> [])"

subsection \<open>Health (health.go)\<close>

text \<open>The error of a stream is the error its pipeline returned; the end of the context is not a failure.\<close>

record stream_state =
  ss_streaming :: bool
  ss_lastEvent :: time
  ss_lastError :: "runner_error option"

definition zeroState :: stream_state where
  "zeroState = \<lparr>ss_streaming = False, ss_lastEvent = zeroTime, ss_lastError = None\<rparr>"

definition state_set :: "bool \<Rightarrow> runner_error option \<Rightarrow> stream_state \<Rightarrow> stream_state" where
  "state_set streaming err s = s\<lparr>ss_streaming := streaming, ss_lastError := err\<rparr>"

definition state_observed :: "time \<Rightarrow> stream_state \<Rightarrow> stream_state" where
  "state_observed at s = s\<lparr>ss_lastEvent := at\<rparr>"

datatype not_ready = NotStarted | StreamFailed string runner_error | NotStreaming string | LaggingBehind string int

fun readyLoop :: "time \<Rightarrow> (string \<times> stream_state) list \<Rightarrow> not_ready option" where
  "readyLoop now [] = None"
| "readyLoop now ((name, s) # rest) =
     (if ss_lastError s \<noteq> None \<and> ss_lastError s \<noteq> Some ContextDone then Some (StreamFailed name (the (ss_lastError s)))
      else if \<not> ss_streaming s then Some (NotStreaming name)
      else if \<not> isZeroTime (ss_lastEvent s) \<and> readinessLagLimit < timeSub now (ss_lastEvent s)
      then Some (LaggingBehind name (timeSub now (ss_lastEvent s)))
      else readyLoop now rest)"

definition ready :: "time \<Rightarrow> (string \<times> stream_state) list \<Rightarrow> not_ready option" where
  "ready now running = (if running = [] then Some NotStarted else readyLoop now running)"

subsection \<open>Building a stream (build.go)\<close>

text \<open>
  The sink of a runtime is an interface value: it may be nil, hold a nil pointer, or hold a sink.  A
  constructor that fails returns a nil pointer, which becomes an interface value that is not nil.
\<close>

datatype sink_ref = NilInterface | NilPointer | SinkRef built_sink

record ('s, 'h) building =
  bd_cfg :: stream_config
  bd_meta :: "table_meta option"
  bd_plan :: "plan option"
  bd_sink :: sink_ref
  bd_dlq :: "'h dlq_writer option"
  bd_runner :: "runner option"
  bd_alloc :: "allocator option"
  bd_lock :: "'s stream_lock option"
  bd_state :: stream_state

definition newRuntime :: "stream_config \<Rightarrow> ('s, 'h) building" where
  "newRuntime stream = \<lparr>bd_cfg = stream, bd_meta = None, bd_plan = None, bd_sink = NilInterface, bd_dlq = None,
     bd_runner = None, bd_alloc = None, bd_lock = None, bd_state = zeroState\<rparr>"

record ('s, 'h, 'w) build_env =
  bv_location :: "string \<Rightarrow> location option"
  bv_sessions :: "('s, 'w) session_db"
  bv_loadTable :: "string \<Rightarrow> string \<Rightarrow> 'w \<Rightarrow> (load_error + table_meta) \<times> 'w"
  bv_admin :: "'w admin_env"
  bv_parseURL :: "string \<Rightarrow> string + parsed_url"
  bv_join :: "string \<Rightarrow> string \<Rightarrow> string"
  bv_fs :: "('h, 'w) fs_env"
  bv_setError :: "string option \<Rightarrow> string \<Rightarrow> 'w \<Rightarrow> db_error option \<times> 'w"

datatype build_error =
    ZoneUnknown string
  | LockRefused lock_error
  | TableUnreadable load_error
  | NoEncoding string
  | PlanRefused compile_error
  | EsRefused es_error
  | ChRefused ch_error
  | SinkNotImplemented string
  | KeyUnresolved schema_error
  | FieldsUnresolved generate_error
  | MappingRefused admin_error
  | DlqRefused dlq_error
  | AllocatorRefused alloc_error
  | RunnerRefused runner_error

definition dialectFor :: "string \<Rightarrow> build_error + dialect" where
  "dialectFor sinkType =
     (if sinkType = SinkElasticsearch then Inr DialectElasticsearch
      else if sinkType = SinkClickHouse then Inr DialectClickHouse
      else Inl (NoEncoding sinkType))"

definition esOptionsOf :: "sink_config \<Rightarrow> es_options" where
  "esOptionsOf k = \<lparr>eo_Addresses = sk_Addresses k, eo_Index = sk_Index k, eo_Alias = sk_Alias k, eo_Username = [],
     eo_Password = [], eo_Workers = sk_Workers k, eo_MaxAttempts = 0, eo_BaseBackoff = 0, eo_MaxBackoff = 0,
     eo_Compress = True, eo_RequestTimeout = 0\<rparr>"

definition chOptionsOf :: "sink_config \<Rightarrow> ch_options" where
  "chOptionsOf k = \<lparr>co_DSN = sk_DSN k, co_Table = sk_Table k, co_Workers = sk_Workers k, co_MaxAttempts = 0,
     co_BaseBackoff = 0, co_MaxBackoff = 0, co_Compress = True, co_RequestTimeout = 0\<rparr>"

definition buildSink :: "(string \<Rightarrow> string + parsed_url) \<Rightarrow> sink_config \<Rightarrow> sink_ref \<times> build_error option" where
  "buildSink parseURL k =
     (if sk_Type k = SinkElasticsearch then (case es_New (esOptionsOf k) of
          Inl e \<Rightarrow> (NilPointer, Some (EsRefused e))
        | Inr s \<Rightarrow> (SinkRef (EsSink s), None))
      else if sk_Type k = SinkClickHouse then (case ch_New parseURL (chOptionsOf k) of
          Inl e \<Rightarrow> (NilPointer, Some (ChRefused e))
        | Inr s \<Rightarrow> (SinkRef (ChSink s), None))
      else (NilInterface, Some (SinkNotImplemented (sk_Type k))))"

text \<open>Only an Elasticsearch destination is compared; asking it advances the sink's address.\<close>

definition validateDestination ::
    "('s, 'h, 'w) build_env \<Rightarrow> stream_config \<Rightarrow> sink_ref \<Rightarrow> table_meta \<Rightarrow> 'w \<Rightarrow> build_error option \<times> sink_ref \<times> 'w" where
  "validateDestination env stream destination meta w = (case destination of
      SinkRef (EsSink es) \<Rightarrow> (case ResolveKey meta (mp_Key (sm_Mapping stream)) of
          Inl e \<Rightarrow> (Some (KeyUnresolved e), destination, w)
        | Inr keyNames \<Rightarrow>
            (case ExpectedElasticsearchFields meta (mp_Include (sm_Mapping stream)) (mp_Exclude (sm_Mapping stream))
                keyNames (mp_Rename (sm_Mapping stream)) of
               Inl e \<Rightarrow> (Some (FieldsUnresolved e), destination, w)
             | Inr expected \<Rightarrow> (case ValidateMapping (bv_admin env) expected es w of
                   (Some e, es1, w1) \<Rightarrow> (Some (MappingRefused e), SinkRef (EsSink es1), w1)
                 | (None, es1, w1) \<Rightarrow> (None, SinkRef (EsSink es1), w1))))
    | _ \<Rightarrow> (None, destination, w))"

definition limitsOf :: "batch_config \<Rightarrow> limits" where
  "limitsOf b = \<lparr>lim_MaxRows = bc_MaxRows b, lim_MaxBytes = bc_MaxBytes b, lim_FlushInterval = bc_FlushInterval b\<rparr>"

definition buildRunner :: "runtime_config \<Rightarrow> ('s, 'h) building \<Rightarrow> runner_error + runner" where
  "buildRunner rc rt = NewRunner (sm_Name (bd_cfg rt)) (bd_plan rt \<noteq> None) (bd_sink rt \<noteq> NilInterface) True
     (limitsOf (sm_Batch (bd_cfg rt))) (rc_ShutdownGrace rc)"

definition buildStream ::
    "('s, 'h, 'w) build_env \<Rightarrow> mysql_store \<Rightarrow> runtime_config \<Rightarrow> string \<Rightarrow> location option \<Rightarrow> ('s, 'h) building \<Rightarrow>
     schema_store \<Rightarrow> 'w \<Rightarrow> build_error option \<times> ('s, 'h) building \<times> schema_store \<times> 'w" where
  "buildStream env store rc dlqDir zone rt schemas w =
     (let stream = bd_cfg rt
      in case my_Lock (bv_sessions env) store (sm_Name stream) w of
           (Inl e, w1) \<Rightarrow> (Some (LockRefused e), rt, schemas, w1)
         | (Inr lock, w1) \<Rightarrow>
             (let rt1 = rt\<lparr>bd_lock := Some lock\<rparr>
              in case storeTable (bv_loadTable env) (streamSchema stream) (streamTable stream) schemas w1 of
                   (Inl e, schemas1, w2) \<Rightarrow> (Some (TableUnreadable e), rt1, schemas1, w2)
                 | (Inr meta, schemas1, w2) \<Rightarrow>
                     (let rt2 = rt1\<lparr>bd_meta := Some meta\<rparr>
                      in case dialectFor (sk_Type (sm_Sink stream)) of
                           Inl e \<Rightarrow> (Some e, rt2, schemas1, w2)
                         | Inr dialect \<Rightarrow>
                             (case Compile (Some meta) (sm_Mapping stream) dialect zone (mp_OnZeroDate (sm_Mapping stream)) of
                                Inl e \<Rightarrow> (Some (PlanRefused e), rt2, schemas1, w2)
                              | Inr plan \<Rightarrow>
                                  (case buildSink (bv_parseURL env) (sm_Sink stream) of (sink, sinkErr) \<Rightarrow>
                                     (let rt3 = rt2\<lparr>bd_plan := Some plan, bd_sink := sink\<rparr>
                                      in case sinkErr of
                                           Some e \<Rightarrow> (Some e, rt3, schemas1, w2)
                                         | None \<Rightarrow> (case validateDestination env stream sink meta w2 of
                                               (Some e, sink1, w3) \<Rightarrow> (Some e, rt3\<lparr>bd_sink := sink1\<rparr>, schemas1, w3)
                                             | (None, sink1, w3) \<Rightarrow>
                                                 (let rt4 = rt3\<lparr>bd_sink := sink1\<rparr>
                                                  in case dlq_New (bv_join env) \<lparr>do_Dir = dlqDir, do_Stream = sm_Name stream,
                                                         do_MaxBytes = 0, do_IncludePayload = False\<rparr> of
                                                       Inl e \<Rightarrow> (Some (DlqRefused e), rt4, schemas1, w3)
                                                     | Inr dlq \<Rightarrow>
                                                         (let rt5 = rt4\<lparr>bd_dlq := Some dlq\<rparr>
                                                          in case NewAllocator (sm_Name stream) seqBlockSize of
                                                               Inl e \<Rightarrow> (Some (AllocatorRefused e), rt5, schemas1, w3)
                                                             | Inr alloc \<Rightarrow>
                                                                 (let rt6 = rt5\<lparr>bd_alloc := Some alloc\<rparr>
                                                                  in case buildRunner rc rt6 of
                                                                       Inl e \<Rightarrow> (Some (RunnerRefused e), rt6, schemas1, w3)
                                                                     | Inr runner \<Rightarrow>
                                                                         (None, rt6\<lparr>bd_runner := Some runner\<rparr>, schemas1, w3)))))))))))"

text \<open>The loop over the streams: the runtime whose building failed is among those returned.\<close>

fun prepareLoop ::
    "('s, 'h, 'w) build_env \<Rightarrow> mysql_store \<Rightarrow> runtime_config \<Rightarrow> string \<Rightarrow> location option \<Rightarrow>
     ('s, 'h) building list \<Rightarrow> stream_config list \<Rightarrow> schema_store \<Rightarrow> 'w \<Rightarrow>
     build_error option \<times> ('s, 'h) building list \<times> schema_store \<times> 'w" where
  "prepareLoop env store rc dlqDir zone rts [] schemas w = (None, rts, schemas, w)"
| "prepareLoop env store rc dlqDir zone rts (stream # streams) schemas w =
     (case buildStream env store rc dlqDir zone (newRuntime stream) schemas w of
        (Some e, rt, schemas1, w1) \<Rightarrow> (Some e, rts @ [rt], schemas1, w1)
      | (None, rt, schemas1, w1) \<Rightarrow> prepareLoop env store rc dlqDir zone (rts @ [rt]) streams schemas1 w1)"

definition prepare ::
    "('s, 'h, 'w) build_env \<Rightarrow> mysql_store \<Rightarrow> supervisor \<Rightarrow> schema_store \<Rightarrow> 'w \<Rightarrow>
     build_error option \<times> ('s, 'h) building list \<times> schema_store \<times> 'w" where
  "prepare env store sv schemas w =
     (let zoneName = sc_TimeZone (cf_Source (sv_cfg sv))
      in case bv_location env zoneName of
           None \<Rightarrow> (Some (ZoneUnknown zoneName), [], schemas, w)
         | Some zone \<Rightarrow>
             prepareLoop env store (cf_Runtime (sv_cfg sv)) (sv_dlqDir sv) (Some zone) [] (sv_streams sv) schemas w)"

text \<open>Taking the streams down.  Closing a sink through a nil pointer panics; the flag says so.\<close>

fun release :: "('s, 'h, 'w) build_env \<Rightarrow> ('s, 'h) building list \<Rightarrow> 'w \<Rightarrow> bool \<times> 'w" where
  "release env [] w = (False, w)"
| "release env (rt # rts) w =
     (if bd_sink rt = NilPointer then (True, w)
      else
        (let w1 = (case bd_dlq rt of None \<Rightarrow> w | Some dw \<Rightarrow> (case dlq_Close (bv_fs env) dw w of (_, _, w') \<Rightarrow> w'));
             w2 = (case my_Release (bv_sessions env) (bd_lock rt) w1 of (_, _, w') \<Rightarrow> w')
         in release env rts w2))"

subsection \<open>The session and the source (supervisor.go)\<close>

record 'w session_env =
  se_open :: "string \<Rightarrow> 'w \<Rightarrow> string option \<times> 'w"
  se_close :: "string \<Rightarrow> 'w \<Rightarrow> 'w"
  se_probe :: "'w \<Rightarrow> db_error option \<times> 'w"
  se_create :: "'w \<Rightarrow> db_error option \<times> 'w"
  se_variables :: "'w \<Rightarrow> (string + (string + string \<times> string) list \<times> string option) \<times> 'w"
  se_grants :: "'w \<Rightarrow> (string + string list) \<times> 'w"

datatype connect_error =
    SourceUnreachable string
  | StoreUnreachable string
  | StoreTable identifier_error
  | StoreSchema store_failure

text \<open>On a failure what was opened is closed again.\<close>

definition connect :: "'w session_env \<Rightarrow> config \<Rightarrow> 'w \<Rightarrow> (connect_error + mysql_store) \<times> 'w" where
  "connect env cfg w =
     (let source = sc_DSN (cf_Source cfg); meta = st_DSN (cf_Checkpoint cfg)
      in case se_open env source w of
           (Some e, w1) \<Rightarrow> (Inl (SourceUnreachable e), w1)
         | (None, w1) \<Rightarrow> (case se_open env meta w1 of
               (Some e, w2) \<Rightarrow> (Inl (StoreUnreachable e), se_close env source w2)
             | (None, w2) \<Rightarrow> (case NewMySQLStore True (st_Table (cf_Checkpoint cfg)) of
                   Inl e \<Rightarrow> (Inl (StoreTable e), se_close env meta (se_close env source w2))
                 | Inr store \<Rightarrow> (case EnsureSchema (se_probe env) (se_create env) store w2 of
                       (Some e, w3) \<Rightarrow> (Inl (StoreSchema e), se_close env meta (se_close env source w3))
                     | (None, w3) \<Rightarrow> (Inr store, w3)))))"

definition sessionClose :: "'w session_env \<Rightarrow> config \<Rightarrow> 'w \<Rightarrow> 'w" where
  "sessionClose env cfg w = se_close env (st_DSN (cf_Checkpoint cfg)) (se_close env (sc_DSN (cf_Source cfg)) w)"

datatype source_error = SourceUnchecked string | ChecksFailed nat | OwnServerID "32 word"

definition checkSource :: "'w session_env \<Rightarrow> 32 word \<Rightarrow> 'w \<Rightarrow> source_error option \<times> 'w" where
  "checkSource env serverID w = (case preflightRun (se_variables env) (se_grants env) w of
      (Inl e, w1) \<Rightarrow> (Some (SourceUnchecked e), w1)
    | (Inr report, w1) \<Rightarrow>
        if \<not> reportOK report then (Some (ChecksFailed (length (Failures report))), w1)
        else if reportGet report ''server_id'' = Some (showNat (unat serverID)) then (Some (OwnServerID serverID), w1)
        else (None, w1))"

text \<open>A failure to record the state is only logged.\<close>

definition recordError :: "('s, 'h, 'w) build_env \<Rightarrow> string \<Rightarrow> string \<Rightarrow> 'w \<Rightarrow> 'w" where
  "recordError env stream reason w = snd (RecordError (bv_setError env) stream reason w)"


subsection \<open>The locks of the streams\<close>

text \<open>
  Nothing but the lock functions themselves touches the locks of the server: not the loader, not
  Elasticsearch, not the files.
\<close>

definition sameLocks :: "('w \<Rightarrow> string \<rightharpoonup> 's) \<Rightarrow> ('w \<Rightarrow> 's set) \<Rightarrow> 'w \<Rightarrow> 'w \<Rightarrow> bool" where
  "sameLocks holder pinned w w' \<longleftrightarrow> holder w' = holder w \<and> pinned w' = pinned w"

definition quietBuild :: "('s, 'h, 'w) build_env \<Rightarrow> ('w \<Rightarrow> string \<rightharpoonup> 's) \<Rightarrow> ('w \<Rightarrow> 's set) \<Rightarrow> bool" where
  "quietBuild env holder pinned \<longleftrightarrow> mysqlLocks (bv_sessions env) holder pinned \<and>
     (\<forall>a b w. sameLocks holder pinned w (snd (bv_loadTable env a b w))) \<and>
     (\<forall>verb url body auth w. sameLocks holder pinned w (snd (ae_do (bv_admin env) verb url body auth w))) \<and>
     (\<forall>h w. sameLocks holder pinned w (snd (fs_close (bv_fs env) h w)))"

definition connOf :: "('s, 'h) building \<Rightarrow> 's option" where
  "connOf rt = (case bd_lock rt of None \<Rightarrow> None | Some l \<Rightarrow> sl_conn l)"

definition conns :: "('s, 'h) building list \<Rightarrow> 's list" where
  "conns rts = concat (map (\<lambda>rt. case connOf rt of None \<Rightarrow> [] | Some c \<Rightarrow> [c]) rts)"

lemma conns_simps [simp]:
  "conns [] = []" "conns (rt # rts) = (case connOf rt of None \<Rightarrow> [] | Some c \<Rightarrow> [c]) @ conns rts"
  "conns (rts @ rts') = conns rts @ conns rts'"
  by (simp_all add: conns_def)

lemma sameLocks_refl [simp]: "sameLocks holder pinned w w"
  by (simp add: sameLocks_def)

lemma sameLocks_owned: "sameLocks holder pinned w w' \<Longrightarrow> owned holder pinned c s w' = owned holder pinned c s w"
  by (simp add: sameLocks_def owned_def)

locale quiet_builder =
  fixes env :: "('s, 'h, 'w) build_env" and holder :: "'w \<Rightarrow> string \<rightharpoonup> 's" and pinned :: "'w \<Rightarrow> 's set"
  assumes quiet: "quietBuild env holder pinned"
begin

abbreviation same :: "'w \<Rightarrow> 'w \<Rightarrow> bool" where
  "same \<equiv> sameLocks holder pinned"

abbreviation owns :: "'s \<Rightarrow> string \<Rightarrow> 'w \<Rightarrow> bool" where
  "owns \<equiv> owned holder pinned"

lemma locks: "mysqlLocks (bv_sessions env) holder pinned"
  using quiet by (simp add: quietBuild_def)

lemma quiet_table: "storeTable (bv_loadTable env) a b schemas w = (r, schemas', w') \<Longrightarrow> same w w'"
  using quiet unfolding quietBuild_def storeTable_def
  by (auto split: option.splits prod.splits sum.splits) (metis snd_conv)+

lemma quiet_request: "es_do (bv_admin env) verb path body s w = (resp, s1, w1) \<Longrightarrow> same w w1"
  using es_do_sends quiet unfolding quietBuild_def by (metis snd_conv)

lemma quiet_validate: "validateDestination env stream ref meta w = (e, ref', w') \<Longrightarrow> same w w'"
  by (auto simp: validateDestination_def ValidateMapping_def fetchMapping_def Let_def
      split: sink_ref.splits built_sink.splits sum.splits prod.splits if_splits option.splits list.splits dest: quiet_request)

lemma quiet_closeFile: "dlq_Close (bv_fs env) dw w = (e, dw', w') \<Longrightarrow> same w w'"
  using quiet unfolding quietBuild_def dlq_Close_def by (auto split: option.splits prod.splits) (metis snd_conv)+

lemmas Lock_pins = my_Lock_pins [OF locks]

text \<open>What building one stream does to the locks: it takes at most one connection, and keeps the owners there were.\<close>

lemma buildStream_lock:
  assumes "buildStream env store rc dir zone (newRuntime stream) schemas w = (e, rt, schemas', w')"
  shows "\<exists>r w1. my_Lock (bv_sessions env) store (sm_Name stream) w = (r, w1) \<and> same w1 w' \<and>
    (case r of Inl _ \<Rightarrow> bd_lock rt = None \<and> e \<noteq> None | Inr l \<Rightarrow> bd_lock rt = Some l)"
proof -
  obtain r w1 where l: "my_Lock (bv_sessions env) store (sm_Name stream) w = (r, w1)" by force
  show ?thesis
  proof (cases r)
    case (Inl x)
    with assms l show ?thesis by (auto simp: buildStream_def newRuntime_def)
  next
    case (Inr lock)
    obtain t s1 w2 where st: "storeTable (bv_loadTable env) (streamSchema stream) (streamTable stream) schemas w1 = (t, s1, w2)"
      by (rule prod_cases3)
    have s2: "same w1 w2" by (rule quiet_table [OF st])
    have s3: "same w1 w3" if "validateDestination env st' ref m w2 = (x, ref', w3)" for st' ref m x ref' w3
      using quiet_validate [OF that] s2 by (simp add: sameLocks_def)
    show ?thesis using assms l Inr st s2 s3
      by (auto simp: buildStream_def newRuntime_def Let_def split: sum.splits prod.splits option.splits)
  qed
qed

lemma buildStream_pins:
  assumes "buildStream env store rc dir zone (newRuntime stream) schemas w = (e, rt, schemas', w')"
  shows "pinned w' = set (conns [rt]) \<union> pinned w" and "set (conns [rt]) \<inter> pinned w = {}"
    and "owns c s w \<Longrightarrow> owns c s w'"
    and "e = None \<Longrightarrow> \<exists>c. connOf rt = Some c \<and> owns c (sm_Name stream) w'"
proof -
  obtain r w1 where l: "my_Lock (bv_sessions env) store (sm_Name stream) w = (r, w1)" and s: "same w1 w'"
    and rt: "case r of Inl _ \<Rightarrow> bd_lock rt = None \<and> e \<noteq> None | Inr l \<Rightarrow> bd_lock rt = Some l"
    using buildStream_lock [OF assms] by blast
  note p = Lock_pins [OF l]
  have "pinned w' = set (conns [rt]) \<union> pinned w \<and> set (conns [rt]) \<inter> pinned w = {}"
  proof (cases r)
    case (Inl x)
    then have "pinned w' = pinned w" "connOf rt = None" using p s rt by (simp_all add: connOf_def sameLocks_def)
    then show ?thesis by simp
  next
    case (Inr k)
    with p obtain c where "sl_conn k = Some c" "c \<notin> pinned w" "pinned w1 = insert c (pinned w)" by auto
    moreover have "pinned w' = pinned w1" "bd_lock rt = Some k" using Inr s rt by (simp_all add: sameLocks_def)
    ultimately show ?thesis by (simp add: connOf_def)
  qed
  then show "pinned w' = set (conns [rt]) \<union> pinned w" "set (conns [rt]) \<inter> pinned w = {}" by simp_all
  show "owns c s w'" if "owns c s w" using my_Lock_keeps [OF locks that l] sameLocks_owned [OF s, of c] by simp
  show "\<exists>c. connOf rt = Some c \<and> owns c (sm_Name stream) w'" if "e = None"
  proof -
    from rt that obtain k where "r = Inr k" "bd_lock rt = Some k" by (auto split: sum.splits)
    with my_Lock_owns [OF locks, of store "sm_Name stream" w k w1] l sameLocks_owned [OF s] show ?thesis
      by (auto simp: connOf_def)
  qed
qed

lemma prepareLoop_pins:
  assumes "prepareLoop env store rc dir zone rts streams schemas w = (e, rts', schemas', w')"
    and "pinned w = set (conns rts) \<union> base" and "distinct (conns rts)" and "set (conns rts) \<inter> base = {}"
  shows "pinned w' = set (conns rts') \<union> base \<and> distinct (conns rts') \<and> set (conns rts') \<inter> base = {} \<and>
    (\<forall>c s. owns c s w \<longrightarrow> owns c s w')"
  using assms
proof (induction streams arbitrary: rts schemas w)
  case Nil
  then show ?case by simp
next
  case (Cons stream streams)
  obtain e1 rt s1 w1 where b: "buildStream env store rc dir zone (newRuntime stream) schemas w = (e1, rt, s1, w1)"
    by (rule prod_cases4)
  note pins = buildStream_pins [OF b]
  have inv: "pinned w1 = set (conns (rts @ [rt])) \<union> base" "distinct (conns (rts @ [rt]))" "set (conns (rts @ [rt])) \<inter> base = {}"
    using pins(1,2) Cons.prems(2-4) by (auto split: option.splits)
  show ?case
  proof (cases e1)
    case (Some x)
    with Cons.prems(1) b inv pins(3) show ?thesis by auto
  next
    case None
    with Cons.prems(1) b have "prepareLoop env store rc dir zone (rts @ [rt]) streams s1 w1 = (e, rts', schemas', w')" by simp
    from Cons.IH [OF this inv] pins(3) show ?thesis by blast
  qed
qed

lemmas Release_unpins = my_Release_unpins [OF locks]

lemma release_unpins:
  assumes "release env rts w = (False, w')"
    and "pinned w = set (conns rts) \<union> base" and "distinct (conns rts)" and "set (conns rts) \<inter> base = {}"
  shows "pinned w' = base \<and> (\<forall>c s. c \<in> base \<longrightarrow> owns c s w \<longrightarrow> owns c s w')"
  using assms
proof (induction rts arbitrary: w)
  case Nil
  then show ?case by simp
next
  case (Cons rt rts)
  define w1 where "w1 = (case bd_dlq rt of None \<Rightarrow> w | Some dw \<Rightarrow> (case dlq_Close (bv_fs env) dw w of (_, _, w') \<Rightarrow> w'))"
  have s1: "same w w1" using quiet_closeFile by (auto simp: w1_def split: option.splits prod.splits)
  obtain e l w2 where r: "my_Release (bv_sessions env) (bd_lock rt) w1 = (e, l, w2)" by (rule prod_cases3)
  have rest: "release env rts w2 = (False, w')"
    using Cons.prems(1) r by (simp add: w1_def [symmetric] Let_def split: if_splits)
  note u = Release_unpins [OF r]
  have "pinned w2 = set (conns rts) \<union> base"
    using u(1) s1 Cons.prems(2-4) by (auto simp: connOf_def sameLocks_def split: option.splits)
  moreover have "owns c s w2" if c: "c \<in> base" "owns c s w" for c s
  proof -
    have "connOf rt \<noteq> Some c" using Cons.prems(4) c(1) by auto
    then have "case bd_lock rt of None \<Rightarrow> True | Some k \<Rightarrow> sl_conn k \<noteq> Some c" by (simp add: connOf_def split: option.splits)
    with u(2) [of c s] sameLocks_owned [OF s1] c(2) show ?thesis by blast
  qed
  moreover have "distinct (conns rts)" "set (conns rts) \<inter> base = {}" using Cons.prems(3,4) by auto
  ultimately show ?case using Cons.IH [OF rest] by blast
qed

end

subsection \<open>What a built stream is\<close>

definition builtFrom :: "runtime_config \<Rightarrow> location option \<Rightarrow> stream_config \<Rightarrow> ('s, 'h) building \<Rightarrow> bool" where
  "builtFrom rc zone stream rt \<longleftrightarrow> bd_cfg rt = stream \<and>
     (\<exists>meta plan dialect sink dlq alloc runner.
        bd_meta rt = Some meta \<and> dialectFor (sk_Type (sm_Sink stream)) = Inr dialect \<and>
        Compile (Some meta) (sm_Mapping stream) dialect zone (mp_OnZeroDate (sm_Mapping stream)) = Inr plan \<and>
        bd_plan rt = Some plan \<and> bd_sink rt = SinkRef sink \<and> bd_dlq rt = Some dlq \<and>
        NewAllocator (sm_Name stream) seqBlockSize = Inr alloc \<and> bd_alloc rt = Some alloc \<and>
        NewRunner (sm_Name stream) True True True (limitsOf (sm_Batch stream)) (rc_ShutdownGrace rc) = Inr runner \<and>
        bd_runner rt = Some runner)"

lemma validateDestination_sink:
  "validateDestination env stream (SinkRef s) meta w = (e, ref, w') \<Longrightarrow> \<exists>s'. ref = SinkRef s'"
  by (auto simp: validateDestination_def split: built_sink.splits sum.splits prod.splits option.splits)

lemma buildSink_ok: "buildSink parse k = (ref, None) \<Longrightarrow> \<exists>s. ref = SinkRef s"
  by (auto simp: buildSink_def split: if_splits sum.splits)

lemma buildStream_built:
  assumes "buildStream env store rc dir zone (newRuntime stream) schemas w = (None, rt, schemas', w')"
  shows "builtFrom rc zone stream rt"
proof -
  obtain r w1 where l: "my_Lock (bv_sessions env) store (sm_Name stream) w = (r, w1)" by force
  with assms obtain lock where lock: "r = Inr lock" by (cases r) (auto simp: buildStream_def newRuntime_def Let_def)
  obtain t s1 w2 where st: "storeTable (bv_loadTable env) (streamSchema stream) (streamTable stream) schemas w1 = (t, s1, w2)"
    by (rule prod_cases3)
  with assms l lock obtain meta where t: "t = Inr meta"
    by (cases t) (auto simp: buildStream_def newRuntime_def Let_def)
  obtain dialect where d: "dialectFor (sk_Type (sm_Sink stream)) = Inr dialect"
    using assms l lock st t by (auto simp: buildStream_def newRuntime_def Let_def split: sum.splits)
  obtain plan where p: "Compile (Some meta) (sm_Mapping stream) dialect zone (mp_OnZeroDate (sm_Mapping stream)) = Inr plan"
    using assms l lock st t d by (auto simp: buildStream_def newRuntime_def Let_def split: sum.splits)
  obtain ref e where bs: "buildSink (bv_parseURL env) (sm_Sink stream) = (ref, e)" by force
  have "e = None" using assms l lock st t d p bs by (auto simp: buildStream_def newRuntime_def Let_def split: option.splits)
  with bs obtain s where s: "ref = SinkRef s" "e = None" using buildSink_ok by blast
  obtain e2 ref2 w3 where v: "validateDestination env stream ref meta w2 = (e2, ref2, w3)" by (rule prod_cases3)
  have "\<exists>s2. ref2 = SinkRef s2" using validateDestination_sink [OF v [unfolded s(1)]] .
  then obtain s2 where s2: "ref2 = SinkRef s2" ..
  show ?thesis using assms l lock st t d p bs s v s2
    by (auto simp: buildStream_def newRuntime_def Let_def builtFrom_def buildRunner_def split: sum.splits option.splits)
qed

context quiet_builder
begin

text \<open>A stream that is claimed: the connection of its lock holds the lock's name.\<close>

definition claimed :: "'w \<Rightarrow> stream_config \<Rightarrow> ('s, 'h) building \<Rightarrow> bool" where
  "claimed w stream rt \<longleftrightarrow> (\<exists>c. connOf rt = Some c \<and> owns c (sm_Name stream) w)"

lemma prepareLoop_built:
  assumes "prepareLoop env store rc dir zone rts streams schemas w = (None, rts', schemas', w')"
    and "list_all2 (\<lambda>stream rt. builtFrom rc zone stream rt \<and> claimed w stream rt) earlier rts"
  shows "list_all2 (\<lambda>stream rt. builtFrom rc zone stream rt \<and> claimed w' stream rt) (earlier @ streams) rts'"
  using assms
proof (induction streams arbitrary: rts schemas w earlier)
  case Nil
  then show ?case by simp
next
  case (Cons stream streams)
  obtain e1 rt s1 w1 where b: "buildStream env store rc dir zone (newRuntime stream) schemas w = (e1, rt, s1, w1)"
    by (rule prod_cases4)
  with Cons.prems(1) have e1: "e1 = None" by (cases e1) auto
  note pins = buildStream_pins [OF b]
  have "claimed w s r \<Longrightarrow> claimed w1 s r" for s r using pins(3) by (auto simp: claimed_def)
  then have "list_all2 (\<lambda>stream rt. builtFrom rc zone stream rt \<and> claimed w1 stream rt) earlier rts"
    using Cons.prems(2) by (auto elim: list_all2_mono)
  moreover have "builtFrom rc zone stream rt \<and> claimed w1 stream rt"
    using buildStream_built b e1 pins(4) by (auto simp: claimed_def)
  ultimately have "list_all2 (\<lambda>stream rt. builtFrom rc zone stream rt \<and> claimed w1 stream rt) (earlier @ [stream]) (rts @ [rt])"
    by (simp add: list_all2_appendI)
  moreover have "prepareLoop env store rc dir zone (rts @ [rt]) streams s1 w1 = (None, rts', schemas', w')"
    using Cons.prems(1) b e1 by simp
  ultimately show ?case using Cons.IH [of "rts @ [rt]" s1 w1 "earlier @ [stream]"] by simp
qed

end

subsection \<open>Properties\<close>

text \<open>A server with numbered connections, a loader that knows one table, and no other effects.\<close>

definition exampleBuildEnv :: "(nat, unit, (string \<rightharpoonup> nat) \<times> nat list) build_env" where
  "exampleBuildEnv = \<lparr>bv_location = (\<lambda>_. Some UTC), bv_sessions = exampleSessions,
     bv_loadTable = (\<lambda>_ _ w. (Inr exampleTable, w)),
     bv_admin = \<lparr>ae_do = (\<lambda>_ _ _ _ w. (Answered 500 [], w)), ae_aliasNames = (\<lambda>_. Inr []), ae_settings = (\<lambda>_. Inr []),
       ae_mappings = (\<lambda>_. Inr [])\<rparr>,
     bv_parseURL = (\<lambda>_. Inr \<lparr>pu_Scheme = ''clickhouse'', pu_User = None, pu_Query = [], pu_Endpoint = []\<rparr>),
     bv_join = (\<lambda>a b. a @ b),
     bv_fs = \<lparr>fs_mkdir = (\<lambda>_ w. (None, w)), fs_open = (\<lambda>_ w. (Inr (), w)), fs_size = (\<lambda>_ w. (Inr 0, w)),
       fs_write = (\<lambda>_ _ w. (None, w)), fs_sync = (\<lambda>_ w. (None, w)), fs_close = (\<lambda>_ w. (None, w)),
       fs_rename = (\<lambda>_ _ w. (None, w)), fs_now = (\<lambda>w. (0, w)), fs_compact = Inr\<rparr>,
     bv_setError = (\<lambda>_ _ w. (None, w))\<rparr>"

lemma example_quietBuild: "quietBuild exampleBuildEnv fst (set \<circ> snd)"
  using example_mysqlLocks by (simp add: quietBuild_def exampleBuildEnv_def)

interpretation qb: quiet_builder exampleBuildEnv fst "set \<circ> snd"
  by unfold_locales (rule example_quietBuild)

definition chStream :: stream_config where
  "chStream = exampleStream\<lparr>sm_Sink := \<lparr>sk_Type = ''clickhouse'', sk_WorkersRaw = None, sk_Workers = 1, sk_Addresses = [],
     sk_Index = [], sk_Alias = [], sk_DSN = ''dsn'', sk_Table = ''orders''\<rparr>\<rparr>"

definition httpEnv :: "(nat, unit, (string \<rightharpoonup> nat) \<times> nat list) build_env" where
  "httpEnv = exampleBuildEnv\<lparr>bv_parseURL :=
     (\<lambda>_. Inr \<lparr>pu_Scheme = ''http'', pu_User = None, pu_Query = [], pu_Endpoint = ''http://ch''\<rparr>)\<rparr>"

lemma http_quietBuild: "quietBuild httpEnv fst (set \<circ> snd)"
  using example_quietBuild by (simp add: quietBuild_def httpEnv_def)

definition exampleSupervisor :: "stream_config list \<Rightarrow> supervisor" where
  "exampleSupervisor streams = \<lparr>sv_cfg = \<lparr>cf_Source = exampleSource, cf_Checkpoint = \<lparr>st_DSN = ''dsn'', st_Table = ''t''\<rparr>,
       cf_Runtime = \<lparr>rc_BufferSizeRaw = None, rc_ShutdownGrace = 1, rc_MetricsAddr = [], rc_AssumedRowBytes = 1, rc_BufferSize = 1\<rparr>,
       cf_Streams = map (\<lambda>s. (sm_Name s, s)) streams\<rparr>,
     sv_streams = streams, sv_dlqDir = ''dlq''\<rparr>"

abbreviation exampleStore :: mysql_store where
  "exampleStore \<equiv> \<lparr>my_table = ''t'', my_LockTimeout = 0\<rparr>"





text \<open>
  A ClickHouse address that is not http fails the construction of the sink, as it should; but the runtime
  then holds an interface value with a nil pointer, and taking it down panics before the lock is released.
\<close>

theorem refused_sink_panics:
  "let (e, rts, _, w) = prepare exampleBuildEnv exampleStore (exampleSupervisor [chStream]) NewStore (Map.empty, [])
   in e = Some (ChRefused (DSNScheme ''clickhouse'')) \<and> fst (release exampleBuildEnv rts w) \<and>
      snd (snd (release exampleBuildEnv rts w)) \<noteq> []"
  by code_simp

end
