(* ===== verification/Accepted.thy ===== *)
theory Accepted
  imports Supervisor
begin

text \<open>
  What acceptance of a configuration means for the rest: the checks of \<^verbatim>\<open>internal/config\<close> against the
  conditions under which the constructors of \<^verbatim>\<open>internal/checkpoint\<close>, \<^verbatim>\<open>internal/pipeline\<close>, \<^verbatim>\<open>internal/sink\<close>
  and \<^verbatim>\<open>internal/supervisor\<close> succeed.
\<close>

subsection \<open>Refusals\<close>

text \<open>
  The refusals that depend on more than the configuration: on the lock, the table, the destination, or the
  scheme of an address, which the configuration does not check.
\<close>

fun outsideRefusal :: "build_error \<Rightarrow> bool" where
  "outsideRefusal (LockRefused e) = (\<nexists>x. e = LockName x)"
| "outsideRefusal (TableUnreadable _) = True"
| "outsideRefusal (PlanRefused e) = (\<nexists>x. e = UnknownZeroDatePolicy x)"
| "outsideRefusal (ChRefused e) = ((\<exists>x. e = DSNUnparsable x) \<or> (\<exists>x. e = DSNScheme x))"
| "outsideRefusal (KeyUnresolved _) = True"
| "outsideRefusal (FieldsUnresolved _) = True"
| "outsideRefusal (MappingRefused _) = True"
| "outsideRefusal _ = False"

lemma filename_stream:
  assumes "list_all isNameChar name" and "name \<noteq> []"
  shows "filepathBase name = name" and "CHR ''/'' \<notin> set name" and "CHR 0x5C \<notin> set name"
    and "name \<noteq> ''.''" and "name \<noteq> ''..''"
proof -
  have no: "\<not> isNameChar (CHR ''/'')" "\<not> isNameChar (CHR 0x5C)" "\<not> isNameChar (CHR ''.'')"
    by (simp_all add: isNameChar_def isNameStart_def isDigit_def byteVal_def)
  show s: "CHR ''/'' \<notin> set name" "CHR 0x5C \<notin> set name" and "name \<noteq> ''.''" "name \<noteq> ''..''"
    using assms(1) no by (auto simp: list_all_iff)
  have "trimRight (\<lambda>c. c = CHR ''/'') name = name"
    using s(1) assms(2) by (cases name rule: rev_cases) (auto simp: trimRight_def)
  then show "filepathBase name = name" using assms(2) s(1) by (simp add: filepathBase_def splitOn_no_sep)
qed

lemma validateStream_names:
  assumes "validateStream name s = []"
  shows "list_all isNameChar name" and "mp_OnZeroDate (sm_Mapping s) \<in> {''null'', ''error'', ''epoch''}"
  using assms by (auto simp: validateStream_def problemIf_def Let_def split: if_splits)

lemma validated_runner:
  assumes "validateStream (sm_Name s) s = []" and "0 < bc_FlushInterval (sm_Batch s)"
  shows "\<exists>r. NewRunner (sm_Name s) True True True (limitsOf (sm_Batch s)) grace = Inr r"
  using validateStream_facts [OF assms(1)] assms(2) by (simp add: NewRunner_def NewBatcher_def limitsOf_def)

lemma validated_sink:
  assumes "validateStream (sm_Name s) s = []"
  shows "\<exists>d. dialectFor (sk_Type (sm_Sink s)) = Inr d"
    and "snd (buildSink parse (sm_Sink s)) = Some e \<Longrightarrow> outsideRefusal e"
proof -
  note f = validateStream_facts [OF assms]
  note k = validateSink_facts [OF f(9)]
  show "\<exists>d. dialectFor (sk_Type (sm_Sink s)) = Inr d" using k by (auto simp: dialectFor_def)
  show "outsideRefusal e" if "snd (buildSink parse (sm_Sink s)) = Some e"
    using k that f(7)
    by (auto simp: buildSink_def es_New_def ch_New_def esOptionsOf_def chOptionsOf_def Let_def SinkElasticsearch_def SinkClickHouse_def
        split: if_splits sum.splits)
qed

lemma validated_lock: "validateStream name s = [] \<Longrightarrow> my_validateStream name = None"
  using validateStream_facts(1,2) [of name s] by (simp add: my_validateStream_def maxStreamNameLen_def MaxStreamNameLen_def)

lemma mapResult_Inl: "mapResult f xs = Inl e \<Longrightarrow> \<exists>x \<in> set xs. f x = Inl e"
  by (induction xs) (auto split: sum.splits)

lemma compileKeys_Inl: "compileKeys t flds names = Inl e \<Longrightarrow> \<exists>a b. e = KeyColumnMissing a b"
  by (induction names) (auto split: option.splits sum.splits)

lemma compileField_Inl: "compileField mp c = Inl e \<Longrightarrow> \<nexists>x. e = UnknownZeroDatePolicy x"
  by (auto simp: compileField_def charsetNeedsConversion_def Let_def split: sum.splits if_splits)

lemma validated_plan:
  assumes "validateStream name s = []" and "Compile m mp d z (mp_OnZeroDate (sm_Mapping s)) = Inl e"
  shows "\<nexists>x. e = UnknownZeroDatePolicy x"
proof -
  have "mapResult (compileField mp) cols = Inl e' \<Longrightarrow> \<nexists>x. e' = UnknownZeroDatePolicy x" for cols e'
    using mapResult_Inl compileField_Inl by metis
  moreover have "compileKeys t flds names = Inl e' \<Longrightarrow> \<nexists>x. e' = UnknownZeroDatePolicy x" for t flds names e'
    using compileKeys_Inl by fastforce
  ultimately show ?thesis using validateStream_names(2) [OF assms(1)] assms(2)
    by (auto simp: Compile_def Let_def split: option.splits sum.splits if_splits prod.splits)
qed

lemma my_Lock_named: "my_validateStream stream = None \<Longrightarrow> my_Lock db store stream w = (Inl e, w') \<Longrightarrow> \<nexists>x. e = LockName x"
  by (auto simp: my_Lock_def split: prod.splits sum.splits if_splits)

text \<open>Building a stream of a validated configuration fails only for an outside reason.\<close>

lemma buildStream_outside:
  fixes env :: "('s, 'h, 'w) build_env"
  assumes valid: "validateStream (sm_Name s) s = []" and flush: "0 < bc_FlushInterval (sm_Batch s)" and dir: "dir \<noteq> []"
    and run: "buildStream env store rc dir zone (newRuntime s) schemas w = (Some e, rt, schemas', w')"
  shows "outsideRefusal e"
proof -
  obtain r w1 where l: "my_Lock (bv_sessions env) store (sm_Name s) w = (r, w1)" by force
  show ?thesis
  proof (cases r)
    case (Inl x)
    with run l my_Lock_named [OF validated_lock [OF valid], of "bv_sessions env" store w x w1] show ?thesis
      by (auto simp: buildStream_def newRuntime_def)
  next
    case lock: (Inr k)
    obtain t s1 w2 where st: "storeTable (bv_loadTable env) (streamSchema s) (streamTable s) schemas w1 = (t, s1, w2)"
      by (rule prod_cases3)
    obtain d where d: "dialectFor (sk_Type (sm_Sink s)) = Inr d" using validated_sink(1) [OF valid] by blast
    obtain ref err where bs: "buildSink (bv_parseURL env) (sm_Sink s) = (ref, err)" by force
    have sinkErr: "outsideRefusal x" if "err = Some x" for x
      using validated_sink(2) [OF valid, of "bv_parseURL env" x] bs that by simp
    have plan: "outsideRefusal (PlanRefused x)"
      if "Compile (Some m) (sm_Mapping s) d zone (mp_OnZeroDate (sm_Mapping s)) = Inl x" for m x
      using validated_plan [OF valid that] by simp
    have dest: "outsideRefusal x" if "validateDestination env s ref' m v = (Some x, ref'', v')" for ref' m v x ref'' v'
      using that by (auto simp: validateDestination_def split: sink_ref.splits built_sink.splits sum.splits prod.splits option.splits)
    have name: "sm_Name s \<noteq> []" using validateStream_facts(1) [OF valid] .
    note fname = filename_stream [OF validateStream_names(1) [OF valid] name]
    have dlq: "\<exists>x. dlq_New (bv_join env) \<lparr>do_Dir = dir, do_Stream = sm_Name s, do_MaxBytes = 0, do_IncludePayload = False\<rparr> =
        (Inr x :: dlq_error + 'h dlq_writer)"
      using dir name fname by (simp add: dlq_New_def)
    have alloc: "\<exists>x. NewAllocator (sm_Name s) seqBlockSize = Inr x" using name by (simp add: NewAllocator_def seqBlockSize_def)
    have runner: False if "buildRunner rc rt' = Inl x" "bd_cfg rt' = s" "bd_plan rt' = Some p" "bd_sink rt' = SinkRef q"
      for x p q and rt' :: "('s, 'h) building"
      using validated_runner [OF valid flush, of "rc_ShutdownGrace rc"] that by (simp add: buildRunner_def)
    show ?thesis
    proof (cases t)
      case (Inl x)
      with run l lock st show ?thesis by (auto simp: buildStream_def newRuntime_def Let_def)
    next
      case t: (Inr m)
      show ?thesis
      proof (cases "(\<exists>x. Compile (Some m) (sm_Mapping s) d zone (mp_OnZeroDate (sm_Mapping s)) = Inl x) \<or> (\<exists>x. err = Some x)")
        case True
        with run l lock st d t bs sinkErr plan show ?thesis
          by (auto simp: buildStream_def newRuntime_def Let_def split: sum.splits option.splits)
      next
        case False
        then obtain p where p: "Compile (Some m) (sm_Mapping s) d zone (mp_OnZeroDate (sm_Mapping s)) = Inr p" by (metis old.sum.exhaust)
        have err: "err = None" using False by (cases err) auto
        then obtain q where q: "err = None" "ref = SinkRef q" using buildSink_ok bs by blast
        obtain x ref' w3 where v: "validateDestination env s ref m w2 = (x, ref', w3)" by (rule prod_cases3)
        obtain q' where q': "ref' = SinkRef q'" using validateDestination_sink [OF v [unfolded q(2)]] by blast
        obtain dw where dw: "dlq_New (bv_join env) \<lparr>do_Dir = dir, do_Stream = sm_Name s, do_MaxBytes = 0, do_IncludePayload = False\<rparr>
            = (Inr dw :: dlq_error + 'h dlq_writer)" using dlq by blast
        obtain a where a: "NewAllocator (sm_Name s) seqBlockSize = Inr a" using alloc by blast
        show ?thesis
        proof (cases x)
          case (Some y)
          with run l lock st d t bs p q v dest [OF v [unfolded Some]] show ?thesis
            by (auto simp: buildStream_def newRuntime_def Let_def)
        next
          case None
          from run l lock st d t bs p q v None dw a q' show ?thesis
            by (auto simp: buildStream_def newRuntime_def Let_def split: sum.splits dest!: runner)
        qed
      qed
    qed
  qed
qed

text \<open>
  What the decoder of the file promises: a mapping has no key twice, and an interval, read by
  \<^verbatim>\<open>ParseDuration\<close>, is not negative.
\<close>

definition decodesWell :: "(bytes \<Rightarrow> string + config \<times> (string \<times> stream_config option) list) \<Rightarrow> bool" where
  "decodesWell decode \<longleftrightarrow> (\<forall>raw c streams. decode raw = Inr (c, streams) \<longrightarrow> distinct (map fst streams) \<and>
     (\<forall>name s. (name, Some s) \<in> set streams \<longrightarrow> 0 \<le> bc_FlushInterval (sm_Batch s)))"

lemma named_streams:
  "mapResult (\<lambda>(name, body). case body of None \<Rightarrow> Inl (StreamNoBody name) | Some s \<Rightarrow> Inr (name, s\<lparr>sm_Name := name\<rparr>)) streams
     = Inr named \<Longrightarrow>
   map fst named = map fst streams \<and>
   (\<forall>name s. (name, s) \<in> set named \<longrightarrow> (\<exists>s0. (name, Some s0) \<in> set streams \<and> s = s0\<lparr>sm_Name := name\<rparr>))"
proof (induction streams arbitrary: named)
  case (Cons e streams)
  obtain name body where e: "e = (name, body)" by force
  from Cons.prems e obtain s0 rest where s0: "body = Some s0" and rest: "named = (name, s0\<lparr>sm_Name := name\<rparr>) # rest"
    and tl: "mapResult (\<lambda>(name, body). case body of None \<Rightarrow> Inl (StreamNoBody name) | Some s \<Rightarrow> Inr (name, s\<lparr>sm_Name := name\<rparr>)) streams = Inr rest"
    by (auto split: sum.splits option.splits)
  from Cons.IH [OF tl] show ?case by (fastforce simp: e s0 rest)
qed simp

lemma Parse_stream:
  assumes "Parse lookup decode knownZone raw = Inr cfg" and "decodesWell decode" and "(name, s) \<in> set (cf_Streams cfg)"
  shows "validateStream (sm_Name s) s = [] \<and> 0 < bc_FlushInterval (sm_Batch s) \<and> sm_Name s = name"
proof -
  obtain expanded c streams named where dec: "decode expanded = Inr (c, streams)"
    and named: "mapResult (\<lambda>(name, body). case body of None \<Rightarrow> Inl (StreamNoBody name) | Some s \<Rightarrow> Inr (name, s\<lparr>sm_Name := name\<rparr>)) streams = Inr named"
    and cfg: "cfg = applyDefaults (c\<lparr>cf_Streams := named\<rparr>)" and valid: "Validate knownZone cfg = []"
    using assms(1) by (auto simp: Parse_def Let_def split: sum.splits if_splits)
  note n = named_streams [OF named]
  have well: "distinct (map fst streams)" "(a, Some b) \<in> set streams \<Longrightarrow> 0 \<le> bc_FlushInterval (sm_Batch b)" for a b
    using assms(2) dec unfolding decodesWell_def by blast+
  have streams: "cf_Streams cfg = map (apsnd streamDefaults) named" by (simp add: cfg applyDefaults_def)
  have "distinct (map fst (cf_Streams cfg))" using well(1) n by (simp add: streams comp_def)
  then have v: "validateStream name s = []" using Validate_stream [OF valid assms(3)] by simp
  obtain s0 where s0: "(name, Some s0) \<in> set streams" "s = streamDefaults (s0\<lparr>sm_Name := name\<rparr>)"
    using assms(3) n unfolding streams by fastforce
  have "sm_Name s = name" by (simp add: s0(2) streamDefaults_def)
  moreover have "0 < bc_FlushInterval (sm_Batch s)"
    using well(2) [OF s0(1)] by (simp add: s0(2) streamDefaults_def setDuration_def)
  ultimately show ?thesis using v by simp
qed

lemma selected_streams:
  assumes "sup_New cfg streamName dir = Inr sv" and "s \<in> set (sv_streams sv)"
  shows "\<exists>name. (name, s) \<in> set (cf_Streams cfg)" and "sv_dlqDir sv = dir" and "dir \<noteq> []" and "sv_cfg sv = cfg"
proof -
  have known: "(name, the (map_of (cf_Streams cfg) name)) \<in> set (cf_Streams cfg)" if "name \<in> set (StreamNames cfg)" for name
    using that by (force simp: StreamNames_def dest: weak_map_of_SomeI intro: map_of_SomeD)
  show "sv_dlqDir sv = dir" "dir \<noteq> []" "sv_cfg sv = cfg"
    using assms(1) by (auto simp: sup_New_def split: if_splits sum.splits)
  have sel: "selectStreams cfg streamName = Inr (sv_streams sv)"
    using assms(1) by (auto simp: sup_New_def split: if_splits sum.splits)
  show "\<exists>name. (name, s) \<in> set (cf_Streams cfg)"
  proof (cases "streamName = []")
    case True
    with sel have "sv_streams sv = map (\<lambda>name. the (map_of (cf_Streams cfg) name)) (StreamNames cfg)"
      by (auto simp: selectStreams_def Let_def split: if_splits)
    with assms(2) obtain name where "name \<in> set (StreamNames cfg)" "s = the (map_of (cf_Streams cfg) name)" by auto
    with known show ?thesis by blast
  next
    case False
    with sel obtain x where "map_of (cf_Streams cfg) streamName = Some x" "sv_streams sv = [x]"
      by (auto simp: selectStreams_def configStream_def split: sum.splits option.splits)
    with assms(2) have "map_of (cf_Streams cfg) streamName = Some s" by simp
    then show ?thesis by (blast dest: map_of_SomeD)
  qed
qed


text \<open>An accepted configuration with one stream, whose address of ClickHouse has another scheme.\<close>

definition exampleDecode :: "bytes \<Rightarrow> string + config \<times> (string \<times> stream_config option) list" where
  "exampleDecode raw = Inr (sv_cfg (exampleSupervisor []), [(''s'', Some chStream)])"

definition exampleConfig :: config where
  "exampleConfig = projr (Parse (\<lambda>_. None) exampleDecode (\<lambda>_. True) [])"

lemma example_decodesWell: "decodesWell exampleDecode"
  by (simp add: decodesWell_def exampleDecode_def chStream_def exampleStream_def)


end
