(* ===== verification/Service.thy ===== *)
theory Service
  imports Supervisor
begin

text \<open>
  The whole service: \<^verbatim>\<open>Run\<close> of supervisor.go and \<^verbatim>\<open>stream\<close>, \<^verbatim>\<open>newStreamer\<close> and \<^verbatim>\<open>startPipeline\<close> of stream.go, on the
  models of the session, the preparation, the backfill, the binlog reader, the router and the runner.

  The tasks of a group run at the same time.  The model runs the reader first and the pipelines after it,
  each on what was sent to its queue; the queues are unbounded, the sends that meet the end of the context
  and the way a runner's \<^verbatim>\<open>select\<close> comes upon its events are arguments, and so is the order in which the tasks
  end, on which the error that is reported depends.  What is not modelled is the interleaving of the calls
  that different pipelines make to the store and to their destinations.
\<close>

subsection \<open>Streaming (stream.go)\<close>

record ('g, 'q, 's, 'h, 'w) service_env =
  sx_build :: "('s, 'h, 'w) build_env"
  sx_session :: "'w session_env"
  sx_queryRow :: "string \<Rightarrow> 'w \<Rightarrow> (db_error + db_row) \<times> 'w"
  sx_upsert :: "db_row \<Rightarrow> 'w \<Rightarrow> db_error option \<times> 'w"
  sx_pipeline :: "stream_config \<Rightarrow> 'w sup_env"
  sx_parseDSN :: "string \<Rightarrow> string + parsed_dsn"
  sx_binlog :: "('g, 'q, 'w) binlog_env"
  sx_contain :: "'g \<Rightarrow> 'g \<Rightarrow> bool"
  sx_sequencer :: "allocator \<Rightarrow> 'q"
  sx_done :: "nat \<Rightarrow> bool"
  sx_ends :: "nat \<Rightarrow> nat list"
  sx_sourceText :: "stream_error \<Rightarrow> string"
  sx_runnerText :: "runner_error \<Rightarrow> string"

datatype stream_failure =
    StartFrom position_error
  | SourceAddress address_error
  | ReaderRefused stream_error
  | RoutingEnded route_error
  | SourceEnded stream_error
  | PipelineEnded string runner_error
  | NilDereference

text \<open>What the runtime of a stream works with: its own plan, and the checkpoint store of the session.\<close>

definition pipelineEnv :: "('g, 'q, 's, 'h, 'w) service_env \<Rightarrow> ('s, 'h) building \<Rightarrow> 'w sup_env" where
  "pipelineEnv env b = (let e = sx_pipeline env (bd_cfg b) in e\<lparr>su_deps := (su_deps e)\<lparr>
     d_plan := (case bd_plan b of None \<Rightarrow> d_plan (su_deps e) | Some p \<Rightarrow> p),
     d_load := my_Load (sx_queryRow env), d_save := my_Save (sx_upsert env)\<rparr>\<rparr>)"

definition newStreamer ::
    "('g, 'q, 's, 'h, 'w) service_env \<Rightarrow> config \<Rightarrow> router \<Rightarrow> string \<Rightarrow> stream_failure + binlog_setup" where
  "newStreamer env cfg r startGTID =
     (let source = cf_Source cfg
      in case addressOf (sx_parseDSN env) (sc_DSN source) of
           Inl e \<Rightarrow> Inl (SourceAddress e)
         | Inr (host, port) \<Rightarrow>
             (case bl_New \<lparr>bo_Host = host, bo_Port = port, bo_User = usernameOf (sx_parseDSN env) (sc_DSN source),
                 bo_Password = passwordOf (sx_parseDSN env) (sc_DSN source), bo_ServerID = sc_ServerID source,
                 bo_StartGTID = startGTID, bo_Tables = Tables r, bo_hasSchemas = True, bo_hasSequencer = True,
                 bo_HeartbeatPeriod = sc_HeartbeatPeriod source, bo_ReadTimeout = sc_ReadTimeout source,
                 bo_Buffer = rc_BufferSize (cf_Runtime cfg)\<rparr> of
                Inl e \<Rightarrow> Inl (ReaderRefused e)
              | Inr setup \<Rightarrow> Inr setup))"

text \<open>The start of a pipeline: the stream counts as streaming, and the reason it stopped for last is cleared.\<close>

definition markStreaming :: "('s, 'h) building \<Rightarrow> ('s, 'h) building" where
  "markStreaming b = b\<lparr>bd_state := state_set True None (bd_state b)\<rparr>"

definition clearErrors :: "('g, 'q, 's, 'h, 'w) service_env \<Rightarrow> ('s, 'h) building list \<Rightarrow> 'w \<Rightarrow> 'w" where
  "clearErrors env bs w = fold (\<lambda>b. recordError (sx_build env) (sm_Name (bd_cfg b)) []) bs w"

text \<open>The task of a pipeline, to its end; a failure other than the end of the context is recorded.\<close>

definition pipelineTask ::
    "('g, 'q, 's, 'h, 'w) service_env \<Rightarrow> change_event list \<Rightarrow> ('s, 'h) building \<Rightarrow> 'w \<Rightarrow>
     (stream_failure option \<times> ('s, 'h) building \<times> 'w) option" where
  "pipelineTask env evs b w = (case bd_runner b of
      None \<Rightarrow> Some (Some NilDereference, b, w)
    | Some r \<Rightarrow> (case Run (su_deps (pipelineEnv env b)) (su_script (pipelineEnv env b) evs) r w of
          (Running, _, _) \<Rightarrow> None
        | (Returned e, r1, w1) \<Rightarrow>
            (let b1 = b\<lparr>bd_runner := Some r1, bd_state := state_set False e (bd_state b)\<rparr>; name = sm_Name (bd_cfg b)
             in case e of
                  None \<Rightarrow> Some (None, b1, w1)
                | Some x \<Rightarrow>
                    if x = ContextDone then Some (None, b1, w1)
                    else Some (Some (PipelineEnded name x), b1,
                        recordError (sx_build env) name (sx_runnerText env x) w1))))"

fun pipelineTasks ::
    "('g, 'q, 's, 'h, 'w) service_env \<Rightarrow> (nat \<Rightarrow> change_event list) \<Rightarrow> nat \<Rightarrow> ('s, 'h) building list \<Rightarrow> 'w \<Rightarrow>
     (stream_failure option list \<times> ('s, 'h) building list \<times> 'w) option" where
  "pipelineTasks env sent i [] w = Some ([], [], w)"
| "pipelineTasks env sent i (b # bs) w = (case pipelineTask env (sent i) b w of
      None \<Rightarrow> None
    | Some (e, b1, w1) \<Rightarrow> (case pipelineTasks env sent (Suc i) bs w1 of
          None \<Rightarrow> None
        | Some (es, bs1, w2) \<Rightarrow> Some (e # es, b1 # bs1, w2)))"

definition readerFailure :: "reader_end \<Rightarrow> stream_failure option" where
  "readerFailure fin = (case fin of
      ReaderRouted e \<Rightarrow> Some (RoutingEnded e)
    | SourceStopped e \<Rightarrow> Some (SourceEnded e)
    | ReaderDone \<Rightarrow> None)"

text \<open>When the source stopped, that is recorded for every stream.\<close>

definition recordSource ::
    "('g, 'q, 's, 'h, 'w) service_env \<Rightarrow> reader_end \<Rightarrow> ('s, 'h) building list \<Rightarrow> 'w \<Rightarrow> 'w" where
  "recordSource env fin bs w = (case fin of
      SourceStopped e \<Rightarrow> fold (\<lambda>b. recordError (sx_build env) (sm_Name (bd_cfg b)) (sx_sourceText env e)) bs w
    | _ \<Rightarrow> w)"

definition emptyQueues :: queues where
  "emptyQueues = \<lparr>qs_sent = (\<lambda>_. []), qs_closed = {}, qs_sends = 0\<rparr>"

definition registrations :: "('s, 'h) building list \<Rightarrow> (string \<times> nat) list" where
  "registrations bs = zip (map (\<lambda>b. sm_Table (bd_cfg b)) bs) [0..<length bs]"

text \<open>A failure that is the end of the context is no error of the service.\<close>

definition withoutCancel :: "stream_failure option \<Rightarrow> stream_failure option" where
  "withoutCancel e = (if e = Some (RoutingEnded RouteCancelled) then None else e)"

definition sup_stream ::
    "('g, 'q, 's, 'h, 'w) service_env \<Rightarrow> config \<Rightarrow> ('s, 'h) building list \<Rightarrow> (string \<times> string) list \<Rightarrow> schema_store \<Rightarrow> 'w \<Rightarrow>
     (stream_failure option \<times> ('s, 'h) building list \<times> 'w) option" where
  "sup_stream env cfg bs positions schemas w =
     (case sharedStartPosition (be_parse (sx_binlog env)) (sx_contain env) positions of
        Inl e \<Rightarrow> Some (Some (StartFrom e), bs, w)
      | Inr startGTID \<Rightarrow>
          (let r = routerFor (registrations bs)
           in case bs of
                [] \<Rightarrow> Some (Some NilDereference, bs, w)
              | b # _ \<Rightarrow> (case bd_alloc b of
                    None \<Rightarrow> Some (Some NilDereference, bs, w)
                  | Some alloc \<Rightarrow> (case newStreamer env cfg r startGTID of
                        Inl e \<Rightarrow> Some (Some e, bs, w)
                      | Inr setup \<Rightarrow>
                          (case st_Events (sx_binlog env) setup
                              (newReader setup schemas (sx_sequencer env alloc) (clearErrors env bs w)) of
                             None \<Rightarrow> None
                           | Some (streamErr, st) \<Rightarrow>
                               (case readerTask (sx_done env) r (rd_out st) streamErr emptyQueues of (fin, _, q) \<Rightarrow>
                                  (case pipelineTasks env (qs_sent q) 0 (map markStreaming bs)
                                      (recordSource env fin bs (rd_world st)) of
                                     None \<Rightarrow> None
                                   | Some (es, bs1, w1) \<Rightarrow>
                                       (let tasks = es @ [readerFailure fin];
                                            first = fst (groupWait (map (\<lambda>i. tasks ! i) (sx_ends env (length tasks))) newGroup)
                                        in Some (withoutCancel first, bs1, w1)))))))))"

subsection \<open>The service (Run)\<close>

datatype run_end =
    RunConnect connect_error
  | RunSource source_error
  | RunPrepare build_error
  | RunBackfill sup_error
  | RunStream stream_failure
  | RunReturned
  | RunPanicked

text \<open>The runtimes as the backfill sees them; a part that is nil would be dereferenced.\<close>

definition runtimeOf :: "('s, 'h) building \<Rightarrow> stream_runtime option" where
  "runtimeOf b = (case (bd_meta b, bd_sink b, bd_alloc b, bd_runner b) of
      (Some meta, SinkRef sink, Some alloc, Some runner) \<Rightarrow>
        Some \<lparr>rt_cfg = bd_cfg b, rt_meta = meta, rt_sink = sink, rt_alloc = alloc, rt_runner = runner\<rparr>
    | _ \<Rightarrow> None)"

fun runtimesOf :: "('s, 'h) building list \<Rightarrow> stream_runtime list option" where
  "runtimesOf [] = Some []"
| "runtimesOf (b # bs) = (case (runtimeOf b, runtimesOf bs) of (Some rt, Some rts) \<Rightarrow> Some (rt # rts) | _ \<Rightarrow> None)"

definition withRuntime :: "('s, 'h) building \<Rightarrow> stream_runtime \<Rightarrow> ('s, 'h) building" where
  "withRuntime b rt = b\<lparr>bd_sink := SinkRef (rt_sink rt), bd_alloc := Some (rt_alloc rt), bd_runner := Some (rt_runner rt)\<rparr>"

definition envOf :: "('g, 'q, 's, 'h, 'w) service_env \<Rightarrow> ('s, 'h) building list \<Rightarrow> string \<Rightarrow> 'w sup_env" where
  "envOf env bs name = (case find (\<lambda>b. sm_Name (bd_cfg b) = name) bs of
      Some b \<Rightarrow> pipelineEnv env b
    | None \<Rightarrow> pipelineEnv env (hd bs))"

text \<open>The deferred steps: the streams are taken down, then the session is closed.\<close>

definition finishRun ::
    "('g, 'q, 's, 'h, 'w) service_env \<Rightarrow> config \<Rightarrow> ('s, 'h) building list \<Rightarrow> run_end \<Rightarrow> 'w \<Rightarrow> run_end \<times> 'w" where
  "finishRun env cfg bs r w = (case release (sx_build env) bs w of (panicked, w1) \<Rightarrow>
     (if panicked then RunPanicked else r, sessionClose (sx_session env) cfg w1))"

text \<open>\<^verbatim>\<open>Run\<close> once the source was found usable.\<close>

definition runStreams ::
    "('g, 'q, 's, 'h, 'w) service_env \<Rightarrow> supervisor \<Rightarrow> mysql_store \<Rightarrow> 'w \<Rightarrow> (run_end \<times> 'w) option" where
  "runStreams env sv store w2 =
     (let cfg = sv_cfg sv
      in case prepare (sx_build env) store sv NewStore w2 of
           (Some e, bs, schemas, w3) \<Rightarrow> Some (finishRun env cfg bs (RunPrepare e) w3)
         | (None, bs, schemas, w3) \<Rightarrow> (case runtimesOf bs of
               None \<Rightarrow> Some (finishRun env cfg bs RunPanicked w3)
             | Some rts \<Rightarrow> (case backfill (envOf env bs) (cf_Source cfg) rts w3 of
                   None \<Rightarrow> None
                 | Some (Inl e, rts1, w4) \<Rightarrow> Some (finishRun env cfg (map2 withRuntime bs rts1) (RunBackfill e) w4)
                 | Some (Inr positions, rts1, w4) \<Rightarrow>
                     (let bs1 = map2 withRuntime bs rts1
                      in case sup_stream env cfg bs1 positions schemas w4 of
                           None \<Rightarrow> None
                         | Some (e, bs2, w5) \<Rightarrow>
                             Some (finishRun env cfg bs2 (case e of None \<Rightarrow> RunReturned | Some x \<Rightarrow> RunStream x) w5)))))"

definition sup_Run :: "('g, 'q, 's, 'h, 'w) service_env \<Rightarrow> supervisor \<Rightarrow> 'w \<Rightarrow> (run_end \<times> 'w) option" where
  "sup_Run env sv w =
     (let cfg = sv_cfg sv
      in case connect (sx_session env) cfg w of
           (Inl e, w1) \<Rightarrow> Some (RunConnect e, w1)
         | (Inr store, w1) \<Rightarrow> (case checkSource (sx_session env) (sc_ServerID (cf_Source cfg)) w1 of
               (Some e, w2) \<Rightarrow> Some (RunSource e, sessionClose (sx_session env) cfg w2)
             | (None, w2) \<Rightarrow> runStreams env sv store w2))"

subsection \<open>Every pipeline gets its own changes\<close>

definition changeOf :: "stream_config \<Rightarrow> change_event \<Rightarrow> bool" where
  "changeOf stream ev = (case ev_Meta ev of
      None \<Rightarrow> False
    | Some meta \<Rightarrow> toLower (Name meta) = toLower (sm_Table stream))"

lemma registrations_distinct: "distinct (map snd (registrations bs))"
  by (simp add: registrations_def)

lemma registrations_watches:
  assumes "i < length bs"
  shows "watches (registrations bs) i = changeOf (bd_cfg (bs ! i))"
proof -
  have member: "(table, i) \<in> set (registrations bs) \<longleftrightarrow> table = sm_Table (bd_cfg (bs ! i))" for table
  proof
    assume "(table, i) \<in> set (registrations bs)"
    then obtain n where "n < length bs" "sm_Table (bd_cfg (bs ! n)) = table" "[0..<length bs] ! n = i"
      by (auto simp: registrations_def in_set_zip)
    then show "table = sm_Table (bd_cfg (bs ! i))" by simp
  next
    assume "table = sm_Table (bd_cfg (bs ! i))"
    with assms have "registrations bs ! i = (table, i)" and "i < length (registrations bs)"
      by (simp_all add: registrations_def)
    then show "(table, i) \<in> set (registrations bs)" by (metis nth_mem)
  qed
  show ?thesis
  proof (rule ext)
    fix ev show "watches (registrations bs) i ev = changeOf (bd_cfg (bs ! i)) ev"
      by (cases "ev_Meta ev") (auto simp: watches_def changeOf_def member)
  qed
qed

subsection \<open>A stream that stopped is not ready\<close>

definition states :: "('s, 'h) building list \<Rightarrow> (string \<times> stream_state) list" where
  "states bs = map (\<lambda>b. (sm_Name (bd_cfg b), bd_state b)) bs"

lemma ready_iff:
  "ready now running = None \<longleftrightarrow> running \<noteq> [] \<and> (\<forall>(name, s) \<in> set running. ss_lastError s \<in> {None, Some ContextDone} \<and>
     ss_streaming s \<and> (isZeroTime (ss_lastEvent s) \<or> timeSub now (ss_lastEvent s) \<le> readinessLagLimit))"
proof -
  have "readyLoop now running = None \<longleftrightarrow> (\<forall>(name, s) \<in> set running. ss_lastError s \<in> {None, Some ContextDone} \<and>
     ss_streaming s \<and> (isZeroTime (ss_lastEvent s) \<or> timeSub now (ss_lastEvent s) \<le> readinessLagLimit))"
    by (induction now running rule: readyLoop.induct) auto
  then show ?thesis by (simp add: ready_def)
qed

lemma pipelineTask_stopped:
  assumes "pipelineTask env evs b w = Some (e, b1, w1)" and "bd_runner b \<noteq> None"
  shows "\<not> ss_streaming (bd_state b1)"
  using assms by (auto simp: pipelineTask_def Let_def state_set_def split: option.splits prod.splits run_result.splits if_splits)

lemma pipelineTasks_stopped:
  assumes "pipelineTasks env sent i bs w = Some (es, bs1, w1)" and "\<forall>b \<in> set bs. bd_runner b \<noteq> None"
  shows "length bs1 = length bs \<and> length es = length bs \<and> (\<forall>b \<in> set bs1. \<not> ss_streaming (bd_state b))"
  using assms
proof (induction bs arbitrary: i w es bs1)
  case (Cons b bs)
  then obtain e b1 w2 es' bs' where t: "pipelineTask env (sent i) b w = Some (e, b1, w2)"
    and r: "pipelineTasks env sent (Suc i) bs w2 = Some (es', bs', w1)" and eq: "es = e # es'" "bs1 = b1 # bs'"
    by (auto split: option.splits)
  from pipelineTask_stopped [OF t] Cons.IH [OF r] Cons.prems(2) show ?case by (simp add: eq)
qed simp

lemma sup_stream_tasks:
  assumes "sup_stream env cfg bs positions schemas w = Some (e, bs1, w1)"
  shows "bs1 = bs \<or> (\<exists>sent w0 es. pipelineTasks env sent 0 (map markStreaming bs) w0 = Some (es, bs1, w1))"
proof (cases bs)
  case (Cons b bs')
  define ms where "ms = map markStreaming (b # bs')"
  from assms show ?thesis unfolding Cons sup_stream_def ms_def [symmetric]
    by (auto simp: Let_def split: sum.splits option.splits prod.splits)
qed (use assms in \<open>auto simp: sup_stream_def split: sum.splits\<close>)

lemma sup_stream_stopped:
  assumes "sup_stream env cfg bs positions schemas w = Some (e, bs1, w1)"
    and "\<forall>b \<in> set bs. bd_runner b \<noteq> None \<and> \<not> ss_streaming (bd_state b)"
  shows "length bs1 = length bs \<and> (\<forall>b \<in> set bs1. \<not> ss_streaming (bd_state b))"
proof -
  have runners: "\<forall>b \<in> set (map markStreaming bs). bd_runner b \<noteq> None" using assms(2) by (auto simp: markStreaming_def)
  from sup_stream_tasks [OF assms(1)] show ?thesis
  proof (elim disjE exE)
    fix sent w0 es assume "pipelineTasks env sent 0 (map markStreaming bs) w0 = Some (es, bs1, w1)"
    from pipelineTasks_stopped [OF this runners] show ?thesis by simp
  qed (use assms(2) in simp)
qed

subsection \<open>The sequence of a run\<close>

lemma backfill_positions: "backfill envs source rts w = Some (Inr positions, rts1, w1) \<Longrightarrow> map fst positions = map rt_name rts"
  by (induction rts arbitrary: w positions rts1) (auto split: option.splits sum.splits prod.splits)

lemma runtimesOf_names: "runtimesOf bs = Some rts \<Longrightarrow> map rt_name rts = map (\<lambda>b. sm_Name (bd_cfg b)) bs"
  by (induction bs arbitrary: rts)
    (auto simp: runtimeOf_def split: option.splits sink_ref.splits)

lemma builtFrom_runtime: "builtFrom rc zone stream b \<Longrightarrow> runtimeOf b \<noteq> None"
  by (auto simp: builtFrom_def runtimeOf_def)

lemma prepareLoop_streams:
  assumes "prepareLoop env store rc dir zone rts streams schemas w = (None, rts', schemas', w')"
    and "list_all2 (builtFrom rc zone) earlier rts"
  shows "list_all2 (builtFrom rc zone) (earlier @ streams) rts'"
  using assms
proof (induction streams arbitrary: rts schemas w earlier)
  case (Cons stream streams)
  obtain e1 rt s1 w1 where b: "buildStream env store rc dir zone (newRuntime stream) schemas w = (e1, rt, s1, w1)"
    by (rule prod_cases4)
  with Cons.prems(1) have e1: "e1 = None" by (cases e1) auto
  have "list_all2 (builtFrom rc zone) (earlier @ [stream]) (rts @ [rt])"
    by (rule list_all2_appendI [OF Cons.prems(2)]) (simp add: buildStream_built [OF b [unfolded e1]])
  moreover have "prepareLoop env store rc dir zone (rts @ [rt]) streams s1 w1 = (None, rts', schemas', w')"
    using Cons.prems(1) b e1 by simp
  ultimately show ?case using Cons.IH [of "rts @ [rt]" s1 w1 "earlier @ [stream]"] by simp
qed simp

lemma prepare_streams:
  assumes "prepare env store sv schemas w = (None, bs, schemas', w')"
  shows "\<exists>zone. list_all2 (builtFrom (cf_Runtime (sv_cfg sv)) zone) (sv_streams sv) bs"
  using assms prepareLoop_streams [where earlier = "[]" and rts = "[]"]
  by (fastforce simp: prepare_def Let_def split: option.splits)

lemma list_all2_built:
  "list_all2 (builtFrom rc zone) streams bs \<Longrightarrow> map bd_cfg bs = streams \<and> runtimesOf bs \<noteq> None"
proof (induction rule: list_all2_induct)
  case (Cons stream streams b bs)
  then show ?case using builtFrom_runtime [of rc zone stream b] by (auto simp: builtFrom_def)
qed simp


subsection \<open>What a run keeps of its streams\<close>

definition keeps :: "('s, 'h) building \<Rightarrow> stream_config \<times> 's stream_lock option \<times> 'h dlq_writer option" where
  "keeps b = (bd_cfg b, bd_lock b, bd_dlq b)"

lemma keeps_withRuntime [simp]: "keeps (withRuntime b rt) = keeps b"
  by (simp add: keeps_def withRuntime_def)

lemma keeps_markStreaming [simp]: "keeps (markStreaming b) = keeps b"
  by (simp add: keeps_def markStreaming_def)

lemma keeps_map2: "length rts = length bs \<Longrightarrow> map keeps (map2 withRuntime bs rts) = map keeps bs"
  by (induction rts bs rule: list_induct2) auto

lemma backfill_length: "backfill envs source rts w = Some (r, rts1, w1) \<Longrightarrow> length rts1 = length rts"
  by (induction rts arbitrary: w r rts1) (auto split: option.splits sum.splits prod.splits)

lemma runtimesOf_length: "runtimesOf bs = Some rts \<Longrightarrow> length rts = length bs"
  using runtimesOf_names [of bs rts] map_eq_imp_length_eq by blast

lemma pipelineTask_keeps: "pipelineTask env evs b w = Some (e, b1, w1) \<Longrightarrow> keeps b1 = keeps b"
  by (auto simp: pipelineTask_def Let_def keeps_def split: option.splits prod.splits run_result.splits if_splits)

lemma pipelineTasks_keeps: "pipelineTasks env sent i bs w = Some (es, bs1, w1) \<Longrightarrow> map keeps bs1 = map keeps bs"
proof (induction bs arbitrary: i w es bs1)
  case (Cons b bs)
  then show ?case by (auto simp: pipelineTask_keeps split: option.splits)
qed simp

lemma sup_stream_keeps:
  assumes "sup_stream env cfg bs positions schemas w = Some (e, bs1, w1)"
  shows "map keeps bs1 = map keeps bs"
  using sup_stream_tasks [OF assms] pipelineTasks_keeps by fastforce

lemma connOf_keeps: "keeps b1 = keeps b \<Longrightarrow> connOf b1 = connOf b"
  by (simp add: keeps_def connOf_def)

lemma conns_keeps: "map keeps bs1 = map keeps bs \<Longrightarrow> conns bs1 = conns bs"
proof (induction bs1 arbitrary: bs)
  case (Cons b1 bs1)
  then obtain b bs' where bs: "bs = b # bs'" "keeps b1 = keeps b" "map keeps bs1 = map keeps bs'" by (cases bs) auto
  from Cons.IH [OF bs(3)] connOf_keeps [OF bs(2)] show ?case by (simp add: bs(1))
qed simp

context quiet_builder
begin

lemma release_frees:
  assumes "release env rts w = (False, w')"
  shows "pinned w' = pinned w - set (conns rts)"
  using assms
proof (induction rts arbitrary: w)
  case (Cons rt rts)
  define w1 where "w1 = (case bd_dlq rt of None \<Rightarrow> w | Some dw \<Rightarrow> (case dlq_Close (bv_fs env) dw w of (_, _, w') \<Rightarrow> w'))"
  have s1: "sameLocks holder pinned w w1" using quiet_closeFile by (auto simp: w1_def split: option.splits prod.splits)
  obtain e l w2 where r: "my_Release (bv_sessions env) (bd_lock rt) w1 = (e, l, w2)" by (rule prod_cases3)
  have rest: "release env rts w2 = (False, w')"
    using Cons.prems r by (simp add: w1_def [symmetric] Let_def split: if_splits)
  have "pinned w2 = pinned w - set_option (connOf rt)"
    using Release_unpins(1) [OF r] s1 unfolding connOf_def sameLocks_def
    by (cases "bd_lock rt") (simp_all split: option.splits)
  with Cons.IH [OF rest] show ?case by (cases "connOf rt") auto
qed simp

end

lemma Run_cases:
  assumes "sup_Run env sv w = Some (fin, w')" and "connect (sx_session env) (sv_cfg sv) w = (Inr store, w1)"
    and "checkSource (sx_session env) (sc_ServerID (cf_Source (sv_cfg sv))) w1 = (None, w2)"
    and "prepare (sx_build env) store sv NewStore w2 = (e, bs, schemas, w3)"
  shows "\<exists>bs' r w4. map keeps bs' = map keeps bs \<and> finishRun env (sv_cfg sv) bs' r w4 = (fin, w')"
proof (cases "\<exists>rts. e = None \<and> runtimesOf bs = Some rts")
  case True
  then obtain rts where e: "e = None" and rts: "runtimesOf bs = Some rts" by blast
  obtain r rts1 w4 where bf: "backfill (envOf env bs) (cf_Source (sv_cfg sv)) rts w3 = Some (r, rts1, w4)"
    using assms e rts by (cases "backfill (envOf env bs) (cf_Source (sv_cfg sv)) rts w3") (auto simp: sup_Run_def runStreams_def Let_def)
  have keep: "map keeps (map2 withRuntime bs rts1) = map keeps bs"
    by (rule keeps_map2) (simp add: backfill_length [OF bf] runtimesOf_length [OF rts])
  show ?thesis
  proof (cases r)
    case (Inl x)
    with assms e rts bf have "finishRun env (sv_cfg sv) (map2 withRuntime bs rts1) (RunBackfill x) w4 = (fin, w')"
      by (simp add: sup_Run_def runStreams_def Let_def)
    with keep show ?thesis by metis
  next
    case (Inr positions)
    then obtain x bs2 w5 where
      st: "sup_stream env (sv_cfg sv) (map2 withRuntime bs rts1) positions schemas w4 = Some (x, bs2, w5)" and
      "finishRun env (sv_cfg sv) bs2 (case x of None \<Rightarrow> RunReturned | Some y \<Rightarrow> RunStream y) w5 = (fin, w')"
      using assms e rts bf by (auto simp: sup_Run_def runStreams_def Let_def split: option.splits)
    with sup_stream_keeps [OF st] keep show ?thesis by metis
  qed
next
  case False
  then show ?thesis using assms by (cases e; cases "runtimesOf bs") (auto simp: sup_Run_def runStreams_def Let_def)
qed

subsection \<open>A service\<close>

text \<open>A source that is set up, a stream that was scanned before, and a replication connection that is refused.\<close>

type_synonym example_world = "(string \<rightharpoonup> nat) \<times> nat list"

definition doneRow :: db_row where
  "doneRow = \<lparr>dr_stream = ''s'', dr_gtid_set = ''uuid:1-9'', dr_snapshot_done = True, dr_snapshot_start_gtid = None,
     dr_snapshot_cursor = None, dr_snapshot_base_seq = 0, dr_snapshot_rows_done = 0, dr_snapshot_rows_total = 0,
     dr_seq_watermark = 9, dr_last_event_ts_ms = 0, dr_last_error = None, dr_schema_version = 0, dr_updated_at = VNil\<rparr>"

definition usableVars :: "(string \<times> string) list" where
  "usableVars = [(''version'', ''8.0.36''), (''log_bin'', ''ON''), (''binlog_format'', ''ROW''),
     (''binlog_row_image'', ''FULL''), (''binlog_row_metadata'', ''FULL''), (''gtid_mode'', ''ON''), (''server_id'', ''1'')]"

definition usableGrants :: "string list" where
  "usableGrants = [''GRANT SELECT, REPLICATION SLAVE, REPLICATION CLIENT ON *.* TO u'']"

definition exampleSession :: "example_world session_env" where
  "exampleSession = \<lparr>se_open = (\<lambda>_ w. (None, w)), se_close = (\<lambda>_ w. w), se_probe = (\<lambda>w. (None, w)), se_create = (\<lambda>w. (None, w)),
     se_variables = (\<lambda>w. (Inr (map Inr usableVars, None), w)),
     se_grants = (\<lambda>w. (Inr usableGrants, w))\<rparr>"

definition examplePipeline :: "example_world sup_env" where
  "examplePipeline = \<lparr>su_deps = \<lparr>d_env = exampleEnv, d_plan = examplePlan, d_errText = (\<lambda>_. ''bad''), d_sink = exampleSink,
       d_dlq = None, d_load = (\<lambda>_ w. (Inl ErrNotFound, w)), d_save = (\<lambda>_ w. (None, w)), d_now = (\<lambda>w. (0, w))\<rparr>,
     su_scan = \<lparr>se_go = exampleEnv, se_formatTime = (\<lambda>_. []), se_decimal = (\<lambda>_. Inl []), se_parseFloat = (\<lambda>_. Inl []),
       se_conn = (\<lambda>w. (None, w)), se_query = (\<lambda>_ _ w. (Inr ([], None), w)), se_send = (\<lambda>_ w. (True, w)),
       se_pace = (\<lambda>_ _ w. (False, w))\<rparr>,
     su_script = (\<lambda>evs. map Recv evs @ [Closed]), su_time = (\<lambda>_. 0), su_gtidExecuted = (\<lambda>w. (Inr ''uuid:1-9'', w)),
     su_tableRows = (\<lambda>_ _ w. (Inr (Some 7), w)), su_openReplica = (\<lambda>_ w. (None, w)), su_admin = bv_admin exampleBuildEnv\<rparr>"

definition exampleService :: "(string list, unit, nat, unit, example_world) service_env" where
  "exampleService = \<lparr>sx_build = httpEnv, sx_session = exampleSession, sx_queryRow = (\<lambda>_ w. (Inr doneRow, w)),
     sx_upsert = (\<lambda>_ w. (None, w)), sx_pipeline = (\<lambda>_. examplePipeline),
     sx_parseDSN = (\<lambda>_. Inr \<lparr>pd_Net = ''tcp'', pd_Addr = ''db'', pd_User = ''u'', pd_Passwd = []\<rparr>),
     sx_binlog = \<lparr>be_parse = (\<lambda>s. Inr [s]), be_update = (\<lambda>g tx. Inr (g @ [tx])), be_text = joinWith '','',
       be_load = (\<lambda>_ _ w. (Inr exampleTable, w)), be_next = (\<lambda>q. (Inr 1, q)), be_send = (\<lambda>_ w. (True, w)),
       be_start = (\<lambda>_ w. (Some (SyncFailed ''refused''), w)), be_event = (\<lambda>w. (Inl SyncCancelled, w))\<rparr>,
     sx_contain = (\<lambda>g h. set h \<subseteq> set g), sx_sequencer = (\<lambda>_. ()), sx_done = (\<lambda>_. False), sx_ends = (\<lambda>n. [0..<n]),
     sx_sourceText = (\<lambda>_. ''stopped''), sx_runnerText = (\<lambda>_. ''failed'')\<rparr>"

abbreviation exampleRun :: "(run_end \<times> example_world) option" where
  "exampleRun \<equiv> sup_Run exampleService (exampleSupervisor [chStream]) (Map.empty, [4])"

lemma keepVars_usable: "keepVars preflightVars Map.empty (map Inr usableVars) = Inr (map_of usableVars)"
  by (auto simp add: usableVars_def preflightVars_def toLower_def toLowerByte_def byteVal_def Let_def fun_eq_iff)

lemma usable_report:
  defines "vars \<equiv> map_of usableVars"
  shows "reportOK (Evaluate vars usableGrants)" "reportGet (Evaluate vars usableGrants) ''server_id'' = Some ''1''"
proof -
  have "atLeastVersion ''8.0.36'' minVersion"
    by (simp add: atLeastVersion_def parseVersion_def minVersion_def parseInt64_def parseDec_def isDigit_def digitVal_def byteVal_def)
  moreover have "parseUint64 ''1'' = Inr 1"
    by (simp add: parseUint64_def parseDec_def isDigit_def digitVal_def byteVal_def)
  moreover have evaluated:
    "varGet vars ''version'' = Some ''8.0.36'' \<and> varGet vars ''server_id'' = Some ''1'' \<and>
     varGet vars ''binlog_row_value_options'' = None \<and> varGet vars ''binlog_expire_logs_seconds'' = None \<and>
     \<not> strContains (toLower ''8.0.36'') ''mariadb'' \<and> trimSpace ''1'' = ''1'' \<and>
     list_all (\<lambda>(n, want). ck_OK (equalsCheck vars n want Required)) [(''log_bin'', ''ON''), (''binlog_format'', ''ROW''),
       (''binlog_row_image'', ''FULL''), (''binlog_row_metadata'', ''FULL''), (''gtid_mode'', ''ON'')] \<and>
     list_all (\<lambda>priv. ck_OK (grantCheck usableGrants priv)) [''REPLICATION SLAVE'', ''REPLICATION CLIENT'', ''SELECT'']"
    unfolding vars_def by code_simp
  ultimately have own: "ck_OK (serverCheck vars)" "ck_OK (serverIDCheck vars)" "ck_OK (partialJSONCheck vars)"
    by (simp_all add: serverCheck_def serverIDCheck_def partialJSONCheck_def Let_def)
  have sev: "ck_Severity (equalsCheck vars n want sev) = sev" for n want sev by (simp add: equalsCheck_def)
  have ret: "ck_Severity (retentionCheck vars) = Advisory" using evaluated by (simp add: retentionCheck_def)
  show "reportOK (Evaluate vars usableGrants)"
    using evaluated by (simp add: reportOK_def Failures_def reportFilter_def Evaluate_def own sev ret)
  have "ck_Name (serverCheck vars) = ''server version''" "ck_Name (partialJSONCheck vars) = ''binlog_row_value_options''"
    "\<And>n want sev. ck_Name (equalsCheck vars n want sev) = n" "ck_Name (serverIDCheck vars) = ''server_id''" "ck_Got (serverIDCheck vars) = ''1''"
    using evaluated by (simp_all add: serverCheck_def partialJSONCheck_def equalsCheck_def serverIDCheck_def Let_def)
  then show "reportGet (Evaluate vars usableGrants) ''server_id'' = Some ''1''"
    by (simp add: reportGet_def Evaluate_def)
qed

lemma exampleRun_starts:
  "connect exampleSession (sv_cfg (exampleSupervisor [chStream])) w = (Inr \<lparr>my_table = ''t'', my_LockTimeout = 10000000000\<rparr>, w)"
  "checkSource exampleSession 7 w = (None, w)"
proof -
  have "validateIdentifier ''t'' = None" by code_simp
  then show "connect exampleSession (sv_cfg (exampleSupervisor [chStream])) w = (Inr \<lparr>my_table = ''t'', my_LockTimeout = 10000000000\<rparr>, w)"
    by (simp add: connect_def exampleSession_def exampleSupervisor_def NewMySQLStore_def EnsureSchema_def schemaExists_def)
  have "showNat (unat (7 :: 32 word)) = ''7''" by code_simp
  then show "checkSource exampleSession 7 w = (None, w)"
    by (simp add: checkSource_def preflightRun_def exampleSession_def keepVars_usable usable_report)
qed

abbreviation exampleClaimed where
  "exampleClaimed \<equiv> prepare httpEnv \<lparr>my_table = ''t'', my_LockTimeout = 10000000000\<rparr> (exampleSupervisor [chStream]) NewStore (Map.empty, [4])"

lemma exampleClaimed_streams:
  "case exampleClaimed of (_, bs, schemas, w) \<Rightarrow> conns bs \<noteq> [] \<and>
     list_all (\<lambda>b. bd_runner b \<noteq> None \<and> \<not> ss_streaming (bd_state b)) bs \<and>
     sup_stream exampleService (sv_cfg (exampleSupervisor [chStream])) bs [(''s'', ''uuid:1-9'')] schemas w \<noteq> None"
  by code_simp

lemma exampleRun_fails:
  "map_option (\<lambda>(fin, w). case fin of RunStream (SourceEnded _) \<Rightarrow> True | _ \<Rightarrow> False) exampleRun = Some True"
proof -
  have "exampleRun = runStreams exampleService (exampleSupervisor [chStream]) \<lparr>my_table = ''t'', my_LockTimeout = 10000000000\<rparr> (Map.empty, [4])"
    using exampleRun_starts by (simp add: sup_Run_def exampleService_def exampleSupervisor_def exampleSource_def Let_def)
  moreover have "map_option (\<lambda>(fin, w). case fin of RunStream (SourceEnded _) \<Rightarrow> True | _ \<Rightarrow> False)
      (runStreams exampleService (exampleSupervisor [chStream]) \<lparr>my_table = ''t'', my_LockTimeout = 10000000000\<rparr> (Map.empty, [4])) = Some True"
    by code_simp
  ultimately show ?thesis by simp
qed

text \<open>
  C10: A run leaves no lock behind: however it ends, short of a panic while the streams are taken down, no connection that was
  taken for the lock of a stream is still held when it returns, whatever else happened meanwhile.
\<close>

theorem Run_leaves_no_lock:
  assumes "quietBuild (sx_build env) holder pinned"
    and "\<And>dsn w. pinned (se_close (sx_session env) dsn w) = pinned w"
    and "sup_Run env sv w = Some (fin, w')" and "fin \<noteq> RunPanicked"
    and "connect (sx_session env) (sv_cfg sv) w = (Inr store, w1)"
    and "checkSource (sx_session env) (sc_ServerID (cf_Source (sv_cfg sv))) w1 = (None, w2)"
    and "prepare (sx_build env) store sv NewStore w2 = (e, bs, schemas, w3)"
  shows "set (conns bs) \<inter> pinned w' = {}"
proof -
  have q: "quiet_builder (sx_build env) holder pinned" by (rule quiet_builder.intro [OF assms(1)])
  obtain bs' r w4 where kept: "map keeps bs' = map keeps bs" and fin: "finishRun env (sv_cfg sv) bs' r w4 = (fin, w')"
    using Run_cases [OF assms(3,5-7)] by blast
  obtain w5 where rel: "release (sx_build env) bs' w4 = (False, w5)" and "w' = sessionClose (sx_session env) (sv_cfg sv) w5"
    using fin assms(4) by (auto simp: finishRun_def split: prod.splits if_splits)
  with assms(2) quiet_builder.release_frees [OF q rel] conns_keeps [OF kept] show ?thesis
    by (auto simp: sessionClose_def)
qed

theorem Run_leaves_no_lock_witness:
  "set (conns (fst (snd exampleClaimed))) \<noteq> {} \<and>
   (case exampleRun of None \<Rightarrow> False | Some (_, w) \<Rightarrow> set (conns (fst (snd exampleClaimed))) \<inter> set (snd w) = {})"
proof -
  obtain fin w where run: "exampleRun = Some (fin, w)" and fin: "fin \<noteq> RunPanicked"
    using exampleRun_fails by (cases exampleRun) (auto split: run_end.splits)
  obtain e bs schemas w3 where p: "exampleClaimed = (e, bs, schemas, w3)" by (rule prod_cases4)
  have parts: "sx_build exampleService = httpEnv" "sx_session exampleService = exampleSession"
    by (simp_all add: exampleService_def)
  have "sc_ServerID (cf_Source (sv_cfg (exampleSupervisor [chStream]))) = 7"
    by (simp add: exampleSupervisor_def exampleSource_def)
  then have "set (conns bs) \<inter> (set \<circ> snd) w = {}"
    using Run_leaves_no_lock [of exampleService fst "set \<circ> snd", unfolded parts, OF http_quietBuild _ run fin
        exampleRun_starts(1) _ p] exampleRun_starts(2) by (simp add: exampleSession_def)
  moreover have "conns bs \<noteq> []" using exampleClaimed_streams unfolding p by simp
  ultimately show ?thesis using run p by auto
qed

text \<open>
  C9: The order of a run is its contract: a run that streamed had connected, found the source usable, claimed and built every
  configured stream, and had a position for each of them from the backfill, by name and in their order, before the reader
  was started on those positions; and it took the streams down and closed the session at the end.
\<close>

theorem Run_streams_last:
  assumes "sup_Run env sv w = Some (fin, w')" and "fin = RunReturned \<or> (\<exists>x. fin = RunStream x)"
  shows "\<exists>store w1 w2 bs schemas w3 rts positions rts1 w4 x bs2 w5.
     connect (sx_session env) (sv_cfg sv) w = (Inr store, w1) \<and>
     checkSource (sx_session env) (sc_ServerID (cf_Source (sv_cfg sv))) w1 = (None, w2) \<and>
     prepare (sx_build env) store sv NewStore w2 = (None, bs, schemas, w3) \<and> map bd_cfg bs = sv_streams sv \<and>
     runtimesOf bs = Some rts \<and>
     backfill (envOf env bs) (cf_Source (sv_cfg sv)) rts w3 = Some (Inr positions, rts1, w4) \<and>
     map fst positions = map sm_Name (sv_streams sv) \<and>
     sup_stream env (sv_cfg sv) (map2 withRuntime bs rts1) positions schemas w4 = Some (x, bs2, w5) \<and>
     map bd_cfg bs2 = sv_streams sv \<and> finishRun env (sv_cfg sv) bs2 fin w5 = (fin, w')"
proof -
  have fr: "finishRun env cfg bs r v = (fin, w') \<Longrightarrow> r = fin" for cfg bs r v
    using assms(2) by (auto simp: finishRun_def split: prod.splits if_splits)
  obtain store w1 where c: "connect (sx_session env) (sv_cfg sv) w = (Inr store, w1)"
    using assms by (cases "connect (sx_session env) (sv_cfg sv) w"; cases "fst (connect (sx_session env) (sv_cfg sv) w)")
      (auto simp: sup_Run_def runStreams_def Let_def)
  obtain w2 where s: "checkSource (sx_session env) (sc_ServerID (cf_Source (sv_cfg sv))) w1 = (None, w2)"
    using assms c by (cases "checkSource (sx_session env) (sc_ServerID (cf_Source (sv_cfg sv))) w1";
        cases "fst (checkSource (sx_session env) (sc_ServerID (cf_Source (sv_cfg sv))) w1)") (auto simp: sup_Run_def runStreams_def Let_def)
  obtain e bs schemas w3 where p: "prepare (sx_build env) store sv NewStore w2 = (e, bs, schemas, w3)" by (rule prod_cases4)
  have e: "e = None" using assms c s p fr by (cases e) (auto simp: sup_Run_def runStreams_def Let_def)
  obtain zone where "list_all2 (builtFrom (cf_Runtime (sv_cfg sv)) zone) (sv_streams sv) bs"
    using prepare_streams [OF p [unfolded e]] by blast
  note built = list_all2_built [OF this]
  then obtain rts where rts: "runtimesOf bs = Some rts" by blast
  obtain r rts1 w4 where bf: "backfill (envOf env bs) (cf_Source (sv_cfg sv)) rts w3 = Some (r, rts1, w4)"
    using assms c s p e rts by (cases "backfill (envOf env bs) (cf_Source (sv_cfg sv)) rts w3") (auto simp: sup_Run_def runStreams_def Let_def)
  obtain positions where r: "r = Inr positions"
    using assms c s p e rts bf fr by (cases r) (auto simp: sup_Run_def runStreams_def Let_def)
  obtain x bs2 w5 where st: "sup_stream env (sv_cfg sv) (map2 withRuntime bs rts1) positions schemas w4 = Some (x, bs2, w5)" and
    f: "finishRun env (sv_cfg sv) bs2 (case x of None \<Rightarrow> RunReturned | Some y \<Rightarrow> RunStream y) w5 = (fin, w')"
    using assms(1) c s p e rts bf r by (auto simp: sup_Run_def runStreams_def Let_def split: option.splits)
  have keep: "map keeps bs2 = map keeps bs"
    using sup_stream_keeps [OF st] keeps_map2 [of rts1 bs] backfill_length [OF bf] runtimesOf_length [OF rts] by simp
  have "map bd_cfg bs2 = map fst (map keeps bs2)" and "map bd_cfg bs = map fst (map keeps bs)" by (simp_all add: keeps_def)
  with keep built have "map bd_cfg bs2 = sv_streams sv" by simp
  moreover have "map fst positions = map sm_Name (sv_streams sv)"
    using backfill_positions [OF bf [unfolded r]] runtimesOf_names [OF rts] built
    by (simp flip: built [THEN conjunct1] add: comp_def)
  moreover have "finishRun env (sv_cfg sv) bs2 fin w5 = (fin, w')" using f fr [OF f] by simp
  ultimately show ?thesis using c s p [unfolded e] built rts bf [unfolded r] st by blast
qed

theorem Run_streams_last_witness:
  "\<exists>bs schemas w3. exampleClaimed = (None, bs, schemas, w3) \<and> map bd_cfg bs = [chStream] \<and>
     (\<exists>rts rts1 w4 position. runtimesOf bs = Some rts \<and>
        backfill (envOf exampleService bs) exampleSource rts w3 = Some (Inr [(''s'', position)], rts1, w4))"
proof -
  obtain fin w where run: "exampleRun = Some (fin, w)" and fin: "fin = RunReturned \<or> (\<exists>x. fin = RunStream x)"
    using exampleRun_fails by (cases exampleRun) (auto split: run_end.splits)
  have parts: "sx_build exampleService = httpEnv" "sx_session exampleService = exampleSession"
    "cf_Source (sv_cfg (exampleSupervisor [chStream])) = exampleSource" "sc_ServerID exampleSource = 7"
    "sv_streams (exampleSupervisor [chStream]) = [chStream]" "sm_Name chStream = ''s''"
    by (simp_all add: exampleService_def exampleSupervisor_def exampleSource_def chStream_def exampleStream_def)
  from Run_streams_last [OF run fin] show ?thesis
    unfolding parts exampleRun_starts by (auto simp: map_eq_Cons_conv parts)
qed

text \<open>A service that stopped is not ready: once the streams have ended, the readiness check says so, for whatever reason it ended.\<close>

theorem stopped_is_not_ready:
  assumes "sup_stream env cfg bs positions schemas w = Some (e, bs1, w1)"
    and "\<forall>b \<in> set bs. bd_runner b \<noteq> None \<and> \<not> ss_streaming (bd_state b)"
  shows "ready now (states bs1) \<noteq> None"
proof
  assume "ready now (states bs1) = None"
  then have "bs1 \<noteq> []" and "\<forall>b \<in> set bs1. ss_streaming (bd_state b)" by (auto simp: ready_iff states_def)
  with sup_stream_stopped [OF assms] show False by (cases bs1) auto
qed

theorem stopped_is_not_ready_witness:
  "case exampleClaimed of (_, bs, schemas, w) \<Rightarrow>
     (case sup_stream exampleService (sv_cfg (exampleSupervisor [chStream])) bs [(''s'', ''uuid:1-9'')] schemas w of
        None \<Rightarrow> False
      | Some (_, bs1, _) \<Rightarrow> ready 0 (states bs1) \<noteq> None)"
proof -
  obtain e bs schemas w where p: "exampleClaimed = (e, bs, schemas, w)" by (rule prod_cases4)
  have b: "\<forall>b \<in> set bs. bd_runner b \<noteq> None \<and> \<not> ss_streaming (bd_state b)"
    using exampleClaimed_streams unfolding p by (simp add: list_all_iff)
  obtain r where r: "sup_stream exampleService (sv_cfg (exampleSupervisor [chStream])) bs [(''s'', ''uuid:1-9'')] schemas w = Some r"
    using exampleClaimed_streams unfolding p by auto
  obtain x bs1 w1 where "r = (x, bs1, w1)" by (rule prod_cases3)
  with stopped_is_not_ready [OF r [unfolded this] b, of 0] r show ?thesis unfolding p by simp
qed

end
