(* ===== verification/Tail.thy ===== *)
theory Tail
  imports Streamer DeadLetters Transform
begin

text \<open>
  \<^verbatim>\<open>internal/tail\<close>: the diagnostic command that prints the row changes of a source and captures raw events as
  fixtures.  The decoded events and the table descriptions in them are those of the replication library, whose
  reading, like the writing of files and the text of times and floats, is an argument.  What is printed is the list of
  bytes written so far.
\<close>

subsection \<open>Tables, events and the state of the tailer\<close>

record table_map =
  tp_Schema :: string
  tp_Table :: string
  tp_ColumnNames :: "string list"
  tp_PrimaryKey :: "nat list"
  tp_isEnum :: "nat \<Rightarrow> bool"
  tp_isSet :: "nat \<Rightarrow> bool"
  tp_enumLabels :: "nat \<Rightarrow> string list"
  tp_setLabels :: "nat \<Rightarrow> string list"

datatype tail_event =
    FormatDescriptionEvent
  | TailGTID "string + string"
  | TailXID
  | TableMapEvent table_map
  | TailRows event_type table_map "row list"
  | TailQuery string
  | TailOther

record fixture =
  fx_File :: string
  fx_Type :: string
  fx_Table :: string

record tail_config =
  tc_ServerID :: "32 word"
  tc_Tables :: "string list"
  tc_CaptureDir :: string
  tc_StartGTID :: string

record tailer =
  tl_cfg :: tail_config
  tl_want :: "string list option"
  tl_gtid :: string
  tl_rowEvents :: nat
  tl_captured :: "fixture list"
  tl_out :: string

record 'w tail_env =
  te_go :: go_env
  te_formatTime :: "time \<Rightarrow> string"
  te_typeName :: "event_type \<Rightarrow> string"
  te_join :: "string \<Rightarrow> string \<Rightarrow> string"
  te_writeFile :: "string \<Rightarrow> bytes \<Rightarrow> 'w \<Rightarrow> string option \<times> 'w"
  te_mkdirAll :: "string \<Rightarrow> 'w \<Rightarrow> string option \<times> 'w"
  te_parseGTID :: "string \<Rightarrow> string option"
  te_start :: "string \<Rightarrow> 'w \<Rightarrow> string option \<times> 'w"

datatype tail_error =
    BadStart string string
  | NoSync string string
  | NoCaptureDir string
  | ReadEvent string
  | NoColumnNames
  | WriteFixture string string

definition parseFilters :: "string list \<Rightarrow> string list option" where
  "parseFilters tables = (if tables = [] then None else Some (map toLower tables))"

definition tracked :: "tailer \<Rightarrow> string \<Rightarrow> string \<Rightarrow> bool" where
  "tracked t schema table = (case tl_want t of
      None \<Rightarrow> True
    | Some want \<Rightarrow> toLower (schema @ ''.'' @ table) \<in> set want)"

subsection \<open>Values as text\<close>

definition tail_toInt :: "val \<Rightarrow> u64 option" where
  "tail_toInt v = (case v of
      VInt64 x \<Rightarrow> Some x
    | VInt32 x \<Rightarrow> Some (scast x)
    | VInt16 x \<Rightarrow> Some (scast x)
    | VInt8 x \<Rightarrow> Some (scast x)
    | VInt x \<Rightarrow> Some x
    | VUint64 x \<Rightarrow> Some x
    | VUint32 x \<Rightarrow> Some (ucast x)
    | VUint16 x \<Rightarrow> Some (ucast x)
    | VUint8 x \<Rightarrow> Some (ucast x)
    | _ \<Rightarrow> None)"

definition enumLabel :: "string list \<Rightarrow> val \<Rightarrow> string option" where
  "enumLabel labels v =
     (if labels = [] then None
      else (case tail_toInt v of
          None \<Rightarrow> None
        | Some w \<Rightarrow>
            (let idx = sint w
             in if idx = 0 then Some [CHR 0x27, CHR 0x27]
                else if 1 \<le> idx \<and> idx \<le> int (length labels) then Some (labels ! nat (idx - 1))
                else None)))"

definition setLabels :: "string list \<Rightarrow> val \<Rightarrow> string option" where
  "setLabels labels v =
     (if labels = [] then None
      else (case tail_toInt v of
          None \<Rightarrow> None
        | Some bits \<Rightarrow> Some (''{'' @ joinWith '','' (setMembers bits 0 labels) @ ''}'')))"

text \<open>\<^verbatim>\<open>fmt.Sprint\<close> of an integer is its decimal text.\<close>

definition formatScalar :: "'w tail_env \<Rightarrow> val \<Rightarrow> string" where
  "formatScalar env v = (case v of
      VNil \<Rightarrow> ''NULL''
    | VDecimal (Decimal c e) \<Rightarrow> decStringFixed (te_go env) (Decimal c e) (if - e < 0 then 0 else - e)
    | VBytes b \<Rightarrow> if utf8Valid b then b else ''0x'' @ hexEncode b
    | VString s \<Rightarrow> if utf8Valid s then s else ''0x'' @ hexEncode s
    | VTime x \<Rightarrow> te_formatTime env x
    | _ \<Rightarrow> keyString (te_go env) v)"

definition formatValue :: "'w tail_env \<Rightarrow> table_map \<Rightarrow> nat \<Rightarrow> val \<Rightarrow> string" where
  "formatValue env meta col v =
     (if v = VNil then ''NULL''
      else (case (if tp_isEnum meta col then enumLabel (tp_enumLabels meta col) v else None) of
          Some s \<Rightarrow> s
        | None \<Rightarrow> (case (if tp_isSet meta col then setLabels (tp_setLabels meta col) v else None) of
              Some s \<Rightarrow> s
            | None \<Rightarrow> formatScalar env v)))"

subsection \<open>Rows as text\<close>

definition keyIndexes :: "table_map \<Rightarrow> nat list \<times> bool" where
  "keyIndexes meta = (if tp_PrimaryKey meta \<noteq> [] then (tp_PrimaryKey meta, True) else ([0], False))"

fun keyLoop :: "'w tail_env \<Rightarrow> table_map \<Rightarrow> string list \<Rightarrow> row \<Rightarrow> nat \<Rightarrow> nat list \<Rightarrow> string" where
  "keyLoop env meta names row n [] = []"
| "keyLoop env meta names row n (i # idx) =
     (if length row \<le> i \<or> length names \<le> i then []
      else (if 0 < n then '' '' else []) @ names ! i @ ''='' @ formatValue env meta i (row ! i)) @
     keyLoop env meta names row (Suc n) idx"

definition formatKey :: "'w tail_env \<Rightarrow> table_map \<Rightarrow> string list \<Rightarrow> row \<Rightarrow> string" where
  "formatKey env meta names row = (case keyIndexes meta of (idx, isKey) \<Rightarrow>
     keyLoop env meta names row 0 idx @ (if isKey then [] else '' (no primary key)''))"

fun rowLoop :: "'w tail_env \<Rightarrow> table_map \<Rightarrow> nat \<Rightarrow> string list \<Rightarrow> row \<Rightarrow> string" where
  "rowLoop env meta i (name # names) (v # vs) =
     (if 0 < i then '' '' else []) @ name @ ''='' @ formatValue env meta i v @ rowLoop env meta (Suc i) names vs"
| "rowLoop env meta i _ _ = []"

definition formatRow :: "'w tail_env \<Rightarrow> table_map \<Rightarrow> string list \<Rightarrow> row \<Rightarrow> string" where
  "formatRow env meta names row = rowLoop env meta 0 names row"

fun diffLoop :: "'w tail_env \<Rightarrow> table_map \<Rightarrow> nat \<Rightarrow> string list \<Rightarrow> row \<Rightarrow> row \<Rightarrow> string list" where
  "diffLoop env meta i (name # names) (b # before) (a # after) =
     (let was = formatValue env meta i b; now = formatValue env meta i a
      in (if was \<noteq> now then [name @ '': '' @ was @ '' -> '' @ now] else []) @ diffLoop env meta (Suc i) names before after)"
| "diffLoop env meta i _ _ _ = []"

definition formatDiff :: "'w tail_env \<Rightarrow> table_map \<Rightarrow> string list \<Rightarrow> row \<Rightarrow> row \<Rightarrow> string" where
  "formatDiff env meta names before after = joinWith '', '' (diffLoop env meta 0 names before after)"

abbreviation newline :: string where
  "newline \<equiv> [CHR 0x0A]"

fun printUpdates :: "'w tail_env \<Rightarrow> table_map \<Rightarrow> string list \<Rightarrow> string \<Rightarrow> string \<Rightarrow> row list \<Rightarrow> string" where
  "printUpdates env meta names tbl gtid (before # after # rows) =
     (let diff = formatDiff env meta names before after
      in ''update '' @ tbl @ '' '' @ formatKey env meta names before @ '' '' @
         (if diff = [] then ''(no visible column change)'' else diff) @ gtid @ newline) @
     printUpdates env meta names tbl gtid rows"
| "printUpdates env meta names tbl gtid _ = []"

definition printRows :: "'w tail_env \<Rightarrow> tailer \<Rightarrow> event_type \<Rightarrow> table_map \<Rightarrow> row list \<Rightarrow> tail_error option \<times> tailer" where
  "printRows env t typ meta rows =
     (let names = tp_ColumnNames meta; tbl = tp_Schema meta @ ''.'' @ tp_Table meta;
          gtid = (if tl_gtid t \<noteq> [] then ''  gtid='' @ tl_gtid t else [])
      in if names = [] then (Some NoColumnNames, t)
         else (None, t\<lparr>tl_out := tl_out t @ (case operationFor typ of
             None \<Rightarrow> []
           | Some (op, _) \<Rightarrow>
               if op = OperationInsert then
                 concat (map (\<lambda>row. ''insert '' @ tbl @ '' '' @ formatRow env meta names row @ gtid @ newline) rows)
               else if op = OperationDelete then
                 concat (map (\<lambda>row. ''delete '' @ tbl @ '' '' @ formatKey env meta names row @ gtid @ newline) rows)
               else printUpdates env meta names tbl gtid rows)\<rparr>))"

text \<open>\<^verbatim>\<open>strings.Fields\<close>, by ASCII white space: the runs of characters between spaces.\<close>

fun wordsOf :: "string \<Rightarrow> string \<Rightarrow> string list" where
  "wordsOf word [] = (if word = [] then [] else [word])"
| "wordsOf word (c # s) =
     (if isSpace c then (if word = [] then wordsOf [] s else word # wordsOf [] s) else wordsOf (word @ [c]) s)"

definition collapse :: "string \<Rightarrow> string" where
  "collapse s = joinWith '' '' (wordsOf [] s)"

subsection \<open>Capturing\<close>

definition fixtureName :: "nat \<Rightarrow> string \<Rightarrow> string" where
  "fixtureName n kind = padNat 4 n @ ''-'' @ kind @ ''.bin''"

definition tail_capture ::
    "'w tail_env \<Rightarrow> bytes \<Rightarrow> string \<Rightarrow> string \<Rightarrow> tailer \<Rightarrow> 'w \<Rightarrow> tail_error option \<times> tailer \<times> 'w" where
  "tail_capture env raw kind table t w =
     (if tc_CaptureDir (tl_cfg t) = [] then (None, t, w)
      else (let name = fixtureName (length (tl_captured t)) kind
            in case te_writeFile env (te_join env (tc_CaptureDir (tl_cfg t)) name) raw w of
                 (Some e, w1) \<Rightarrow> (Some (WriteFixture name e), t, w1)
               | (None, w1) \<Rightarrow>
                   (None, t\<lparr>tl_captured := tl_captured t @ [\<lparr>fx_File = name, fx_Type = kind, fx_Table = table\<rparr>]\<rparr>, w1)))"

definition tail_handle ::
    "'w tail_env \<Rightarrow> tail_event \<Rightarrow> bytes \<Rightarrow> tailer \<Rightarrow> 'w \<Rightarrow> tail_error option \<times> tailer \<times> 'w" where
  "tail_handle env ev raw t w = (case ev of
      FormatDescriptionEvent \<Rightarrow> tail_capture env raw ''format_description'' [] t w
    | TailGTID g \<Rightarrow> (None, (case g of Inl _ \<Rightarrow> t | Inr tx \<Rightarrow> t\<lparr>tl_gtid := tx\<rparr>), w)
    | TailXID \<Rightarrow> (None, t\<lparr>tl_gtid := []\<rparr>, w)
    | TableMapEvent meta \<Rightarrow>
        if \<not> tracked t (tp_Schema meta) (tp_Table meta) then (None, t, w)
        else tail_capture env raw ''table_map'' (tp_Schema meta @ ''.'' @ tp_Table meta) t w
    | TailRows typ meta rows \<Rightarrow>
        if \<not> tracked t (tp_Schema meta) (tp_Table meta) then (None, t, w)
        else (case printRows env (t\<lparr>tl_rowEvents := Suc (tl_rowEvents t)\<rparr>) typ meta rows of
            (Some e, t1) \<Rightarrow> (Some e, t1, w)
          | (None, t1) \<Rightarrow>
              tail_capture env raw (toLower (te_typeName env typ)) (tp_Schema meta @ ''.'' @ tp_Table meta) t1 w)
    | TailQuery query \<Rightarrow>
        (let q = trimSpace query
         in if q \<noteq> [] \<and> \<not> equalFold q ''BEGIN''
            then (None, t\<lparr>tl_out := tl_out t @ ''query  '' @ collapse q @ newline\<rparr>, w) else (None, t, w))
    | TailOther \<Rightarrow> (None, t, w))"

text \<open>\<^verbatim>\<open>json.MarshalIndent\<close> of the fixtures; an empty table is left out.\<close>

definition fixtureMember :: "string \<Rightarrow> string \<Rightarrow> string" where
  "fixtureMember name v = jsonMarshalString name @ '': '' @ jsonMarshalString v"

definition fixtureJSON :: "fixture \<Rightarrow> string" where
  "fixtureJSON f = ''  {'' @ newline @ ''    '' @
     joinWith ('','' @ newline @ ''    '')
       ([fixtureMember ''file'' (fx_File f), fixtureMember ''type'' (fx_Type f)] @
        (if fx_Table f = [] then [] else [fixtureMember ''table'' (fx_Table f)])) @ newline @ ''  }''"

definition writeManifest :: "'w tail_env \<Rightarrow> tailer \<Rightarrow> 'w \<Rightarrow> 'w" where
  "writeManifest env t w =
     (if tl_captured t = [] then w
      else snd (te_writeFile env (te_join env (tc_CaptureDir (tl_cfg t)) ''manifest.json'')
        (''['' @ newline @ joinWith ('','' @ newline) (map fixtureJSON (tl_captured t)) @ newline @ '']'') w))"

subsection \<open>The loop\<close>

text \<open>
  What the reader answers: an event with its raw bytes, the end of the context or of the duration, or an
  error.  The answers may go on for ever; a list of them is what was answered so far, and \<open>TailGoesOn\<close> says that the
  command has not ended on it.
\<close>

datatype tail_answer = TailEvent tail_event bytes | TailStopped | TailFailed string

datatype tail_end = TailGoesOn | TailReturned "tail_error option"

fun tailLoop :: "'w tail_env \<Rightarrow> tail_answer list \<Rightarrow> tailer \<Rightarrow> 'w \<Rightarrow> tail_end \<times> tailer \<times> 'w" where
  "tailLoop env [] t w = (TailGoesOn, t, w)"
| "tailLoop env (TailStopped # answers) t w =
     (TailReturned None, t\<lparr>tl_out := tl_out t @ newline @ ''stopped: '' @ showNat (tl_rowEvents t) @ '' row events seen, '' @
        showNat (length (tl_captured t)) @ '' fixtures captured'' @ newline\<rparr>, w)"
| "tailLoop env (TailFailed e # answers) t w = (TailReturned (Some (ReadEvent e)), t, w)"
| "tailLoop env (TailEvent ev raw # answers) t w = (case tail_handle env ev raw t w of
      (Some e, t1, w1) \<Rightarrow> (TailReturned (Some e), t1, w1)
    | (None, t1, w1) \<Rightarrow> tailLoop env answers t1 w1)"

definition newTailer :: "tail_config \<Rightarrow> tailer" where
  "newTailer cfg = \<lparr>tl_cfg = cfg, tl_want = parseFilters (tc_Tables cfg), tl_gtid = [], tl_rowEvents = 0, tl_captured = [],
     tl_out = ''streaming from '' @ tc_StartGTID cfg @ '' as server_id='' @ showNat (unat (tc_ServerID cfg)) @ newline @ newline\<rparr>"

definition tail_Tail :: "'w tail_env \<Rightarrow> tail_config \<Rightarrow> tail_answer list \<Rightarrow> 'w \<Rightarrow> tail_end \<times> tailer \<times> 'w" where
  "tail_Tail env cfg answers w = (case te_parseGTID env (tc_StartGTID cfg) of
      Some e \<Rightarrow> (TailReturned (Some (BadStart (tc_StartGTID cfg) e)), (newTailer cfg)\<lparr>tl_out := []\<rparr>, w)
    | None \<Rightarrow> (case te_start env (tc_StartGTID cfg) w of
          (Some e, w1) \<Rightarrow> (TailReturned (Some (NoSync (tc_StartGTID cfg) e)), (newTailer cfg)\<lparr>tl_out := []\<rparr>, w1)
        | (None, w1) \<Rightarrow>
            (if tc_CaptureDir cfg = [] then tailLoop env answers (newTailer cfg) w1
             else (case te_mkdirAll env (tc_CaptureDir cfg) w1 of
                 (Some e, w2) \<Rightarrow> (TailReturned (Some (NoCaptureDir e)), newTailer cfg, w2)
               | (None, w2) \<Rightarrow> (case tailLoop env answers (newTailer cfg) w2 of
                     (TailGoesOn, t, w3) \<Rightarrow> (TailGoesOn, t, w3)
                   | (fin, t, w3) \<Rightarrow> (fin, t, writeManifest env t w3))))))"

subsection \<open>No fixture is lost\<close>

text \<open>The files as a map: a write that succeeds sets the content of its path and touches no other.\<close>

definition plainFiles :: "'w tail_env \<Rightarrow> ('w \<Rightarrow> string \<rightharpoonup> bytes) \<Rightarrow> bool" where
  "plainFiles env files \<longleftrightarrow> (\<forall>path data w w'. te_writeFile env path data w = (None, w') \<longrightarrow> files w' = (files w)(path \<mapsto> data)) \<and>
     (\<forall>path data w e w' other. te_writeFile env path data w = (e, w') \<longrightarrow> other \<noteq> path \<longrightarrow> files w' other = files w other) \<and>
     (\<forall>dir a b. te_join env dir a = te_join env dir b \<longrightarrow> a = b)"

text \<open>What is to be captured of the events, in order: its kind, its table and its bytes.\<close>

fun captures :: "'w tail_env \<Rightarrow> tailer \<Rightarrow> tail_answer list \<Rightarrow> (string \<times> string \<times> bytes) list" where
  "captures env t [] = []"
| "captures env t (TailEvent ev raw # answers) = (case ev of
      FormatDescriptionEvent \<Rightarrow> [(''format_description'', [], raw)]
    | TableMapEvent meta \<Rightarrow>
        if tracked t (tp_Schema meta) (tp_Table meta) then [(''table_map'', tp_Schema meta @ ''.'' @ tp_Table meta, raw)] else []
    | TailRows typ meta rows \<Rightarrow>
        if tracked t (tp_Schema meta) (tp_Table meta) \<and> tp_ColumnNames meta \<noteq> []
        then [(toLower (te_typeName env typ), tp_Schema meta @ ''.'' @ tp_Table meta, raw)] else []
    | _ \<Rightarrow> []) @ captures env t answers"
| "captures env t (_ # answers) = []"

text \<open>The captured fixtures are those of the events so far: numbered in order, and each file holds the bytes of its event.\<close>

definition holdsFixtures ::
    "'w tail_env \<Rightarrow> ('w \<Rightarrow> string \<rightharpoonup> bytes) \<Rightarrow> tailer \<Rightarrow> (string \<times> string \<times> bytes) list \<Rightarrow> 'w \<Rightarrow> bool" where
  "holdsFixtures env files t caps w \<longleftrightarrow> length (tl_captured t) = length caps \<and>
     (\<forall>i < length caps. tl_captured t ! i =
        \<lparr>fx_File = fixtureName i (fst (caps ! i)), fx_Type = fst (caps ! i), fx_Table = fst (snd (caps ! i))\<rparr> \<and>
        files w (te_join env (tc_CaptureDir (tl_cfg t)) (fixtureName i (fst (caps ! i)))) = Some (snd (snd (caps ! i))))"

lemma padNat_digits: "list_all isDigit (padNat k n)"
  using showNat_digits [of n] by (auto simp: padNat_def list_all_iff isDigit_def byteVal_def)

lemma padNat_inject: "padNat k m = padNat k n \<Longrightarrow> m = n"
proof -
  have zeros: "decVal 0 (replicate z (CHR ''0'') @ s) = decVal 0 s" for z s
    by (induction z) (simp_all add: isDigit_def digitVal_def byteVal_def)
  have "decVal 0 (padNat k n) = Some n" for n by (simp add: padNat_def zeros decVal_showNat)
  then show "padNat k m = padNat k n \<Longrightarrow> m = n" by (metis option.inject)
qed

lemma fixtureName_number: "takeWhile (\<lambda>c. c \<noteq> CHR ''-'') (fixtureName n kind) = padNat 4 n"
proof -
  have "\<forall>c \<in> set (padNat 4 n). c \<noteq> CHR ''-''" using padNat_digits [of 4 n] by (auto simp: list_all_iff isDigit_def byteVal_def)
  then show ?thesis by (simp add: fixtureName_def takeWhile_append2)
qed

lemma fixtureName_inject: "fixtureName m kind = fixtureName n kind' \<Longrightarrow> m = n"
  using fixtureName_number padNat_inject by metis

lemma fixtureName_not_manifest: "fixtureName n kind \<noteq> ''manifest.json''"
proof
  assume "fixtureName n kind = ''manifest.json''"
  with fixtureName_number [of n kind] padNat_digits [of 4 n] show False
    by (auto simp: isDigit_def byteVal_def dest: sym)
qed

lemma holdsFixtures_elsewhere:
  assumes "holdsFixtures env files t caps w"
    and "\<And>i kind. i < length caps \<Longrightarrow> files w' (te_join env (tc_CaptureDir (tl_cfg t)) (fixtureName i kind)) =
      files w (te_join env (tc_CaptureDir (tl_cfg t)) (fixtureName i kind))"
    and "tl_cfg t' = tl_cfg t" and "tl_captured t' = tl_captured t"
  shows "holdsFixtures env files t' caps w'"
  using assms by (simp add: holdsFixtures_def)

lemma tail_capture_holds:
  assumes files: "plainFiles env files" and dir: "tc_CaptureDir (tl_cfg t) \<noteq> []" and held: "holdsFixtures env files t caps w"
    and run: "tail_capture env raw kind table t w = (e, t', w')"
  shows "tl_cfg t' = tl_cfg t \<and> tl_want t' = tl_want t \<and>
    holdsFixtures env files t' (if e = None then caps @ [(kind, table, raw)] else caps) w'"
proof -
  let ?name = "fixtureName (length (tl_captured t)) kind"
  let ?path = "te_join env (tc_CaptureDir (tl_cfg t)) ?name"
  obtain x where wr: "te_writeFile env ?path raw w = (x, w')" and x: "x = None \<longleftrightarrow> e = None"
    and t': "t' = (if e = None then t\<lparr>tl_captured := tl_captured t @ [\<lparr>fx_File = ?name, fx_Type = kind, fx_Table = table\<rparr>]\<rparr> else t)"
    using run dir by (auto simp: tail_capture_def Let_def split: prod.splits option.splits)
  have n: "length (tl_captured t) = length caps" using held by (simp add: holdsFixtures_def)
  have other: "files w' (te_join env (tc_CaptureDir (tl_cfg t)) (fixtureName i k)) =
      files w (te_join env (tc_CaptureDir (tl_cfg t)) (fixtureName i k))" if "i < length caps" for i k
  proof -
    have "fixtureName i k \<noteq> ?name" using that fixtureName_inject n by fastforce
    then show ?thesis using files wr unfolding plainFiles_def by metis
  qed
  show ?thesis
  proof (cases e)
    case None
    then have "files w' = (files w)(?path \<mapsto> raw)" using files wr x unfolding plainFiles_def by blast
    then have "files w' ?path = Some raw" by simp
    then show ?thesis using None held other t' n by (auto simp: holdsFixtures_def nth_append less_Suc_eq)
  next
    case (Some y)
    then show ?thesis using holdsFixtures_elsewhere [OF held other] t' by simp
  qed
qed

lemma captures_want: "tl_want t' = tl_want t \<Longrightarrow> captures env t' answers = captures env t answers"
proof (induction answers)
  case (Cons a answers)
  then show ?case by (cases a) (auto simp: tracked_def split: tail_event.splits)
qed simp

lemma printRows_frame:
  "printRows env t typ meta rows = (e, t') \<Longrightarrow> tl_cfg t' = tl_cfg t \<and> tl_want t' = tl_want t \<and> tl_captured t' = tl_captured t \<and>
     (e = None \<longleftrightarrow> tp_ColumnNames meta \<noteq> [])"
  by (auto simp: printRows_def Let_def split: if_splits)

lemma tail_handle_holds:
  assumes files: "plainFiles env files" and dir: "tc_CaptureDir (tl_cfg t) \<noteq> []" and held: "holdsFixtures env files t caps w"
    and run: "tail_handle env ev raw t w = (e, t', w')"
  shows "tl_cfg t' = tl_cfg t \<and> tl_want t' = tl_want t \<and>
    holdsFixtures env files t' (if e = None then caps @ captures env t [TailEvent ev raw] else caps) w'"
proof -
  have quiet: "holdsFixtures env files u caps w" if "tl_cfg u = tl_cfg t" "tl_captured u = tl_captured t" for u
    using holdsFixtures_elsewhere [OF held _ that] by blast
  have capture: "tl_cfg t' = tl_cfg t \<and> tl_want t' = tl_want t \<and>
      holdsFixtures env files t' (if e = None then caps @ [(kind, table, raw)] else caps) w'"
    if "tail_capture env raw kind table u w = (e, t', w')" "tl_cfg u = tl_cfg t" "tl_want u = tl_want t" "tl_captured u = tl_captured t"
    for kind table u
    using tail_capture_holds [OF files _ quiet [OF that(2,4)] that(1)] dir that(2,3) by simp
  show ?thesis
  proof (cases ev)
    case (TailRows ty meta rows)
    obtain x u where p: "printRows env (t\<lparr>tl_rowEvents := Suc (tl_rowEvents t)\<rparr>) ty meta rows = (x, u)" by force
    note frame = printRows_frame [OF p]
    show ?thesis
    proof (cases "tracked t (tp_Schema meta) (tp_Table meta)")
      case True
      show ?thesis
      proof (cases x)
        case None
        then have "tail_capture env raw (toLower (te_typeName env ty)) (tp_Schema meta @ ''.'' @ tp_Table meta) u w = (e, t', w')"
          using run TailRows True p by (simp add: tail_handle_def)
        from capture [OF this] frame None TailRows True show ?thesis by (auto split: if_splits)
      next
        case (Some y)
        then have "e = Some y" "t' = u" "w' = w" using run TailRows True p by (auto simp: tail_handle_def)
        with quiet [of u] frame show ?thesis by simp
      qed
    next
      case False
      with run TailRows held show ?thesis by (auto simp: tail_handle_def)
    qed
  next
    case (TailGTID g)
    with run quiet [of t'] show ?thesis by (auto simp: tail_handle_def split: sum.splits)
  next
    case (TailQuery query)
    with run quiet [of t'] show ?thesis by (auto simp: tail_handle_def Let_def split: if_splits)
  next
    case FormatDescriptionEvent
    with run capture [of "''format_description''" "[]" t] show ?thesis by (auto simp: tail_handle_def)
  next
    case (TableMapEvent meta)
    with run held capture [of "''table_map''" "tp_Schema meta @ ''.'' @ tp_Table meta" t] show ?thesis
      by (auto simp: tail_handle_def split: if_splits)
  next
    case TailXID
    with run quiet [of t'] show ?thesis by (auto simp: tail_handle_def)
  next
    case TailOther
    with run held show ?thesis by (auto simp: tail_handle_def)
  qed
qed

lemma tailLoop_holds:
  assumes files: "plainFiles env files" and dir: "tc_CaptureDir (tl_cfg t) \<noteq> []" and held: "holdsFixtures env files t caps w"
    and run: "tailLoop env answers t w = (fin, t', w')"
  shows "\<exists>n. tl_cfg t' = tl_cfg t \<and> holdsFixtures env files t' (caps @ take n (captures env t answers)) w' \<and>
    (fin = TailGoesOn \<or> fin = TailReturned None \<longrightarrow> length (captures env t answers) \<le> n)"
  using dir held run
proof (induction answers arbitrary: t caps w)
  case Nil
  then show ?case by auto
next
  case (Cons a answers)
  show ?case
  proof (cases a)
    case (TailEvent ev raw)
    obtain e t1 w1 where h: "tail_handle env ev raw t w = (e, t1, w1)" by (rule prod_cases3)
    note step = tail_handle_holds [OF files Cons.prems(1,2) h]
    have split: "captures env t (a # answers) = captures env t [TailEvent ev raw] @ captures env t1 answers"
      using captures_want [of t1 t env answers] step TailEvent by simp
    show ?thesis
    proof (cases e)
      case None
      then have "tailLoop env answers t1 w1 = (fin, t', w')" using Cons.prems(3) TailEvent h by simp
      with Cons.IH [of t1 "caps @ captures env t [TailEvent ev raw]" w1] step None Cons.prems(1)
      obtain n where "tl_cfg t' = tl_cfg t" "holdsFixtures env files t' (caps @ captures env t [TailEvent ev raw] @ take n (captures env t1 answers)) w'"
        "fin = TailGoesOn \<or> fin = TailReturned None \<longrightarrow> length (captures env t1 answers) \<le> n" by auto
      then show ?thesis unfolding split
        by (intro exI [of _ "length (captures env t [TailEvent ev raw]) + n"]) simp
    next
      case (Some y)
      then show ?thesis using Cons.prems(3) TailEvent h step by (intro exI [of _ 0]) auto
    qed
  next
    case TailStopped
    with Cons.prems show ?thesis by (auto simp: holdsFixtures_def)
  next
    case (TailFailed e)
    with Cons.prems show ?thesis by auto
  qed
qed


definition exampleTailEnv :: "(string \<rightharpoonup> bytes) tail_env" where
  "exampleTailEnv = \<lparr>te_go = exampleEnv, te_formatTime = (\<lambda>_. []), te_typeName = (\<lambda>_. ''WriteRowsEventV2''),
     te_join = (\<lambda>dir file. dir @ ''/'' @ file), te_writeFile = (\<lambda>path data w. (None, w(path \<mapsto> data))),
     te_mkdirAll = (\<lambda>_ w. (None, w)), te_parseGTID = (\<lambda>_. None), te_start = (\<lambda>_ w. (None, w))\<rparr>"

definition exampleTableMap :: "string \<Rightarrow> table_map" where
  "exampleTableMap table = \<lparr>tp_Schema = ''shop'', tp_Table = table, tp_ColumnNames = [''id'', ''name''], tp_PrimaryKey = [0],
     tp_isEnum = (\<lambda>_. False), tp_isSet = (\<lambda>_. False), tp_enumLabels = (\<lambda>_. []), tp_setLabels = (\<lambda>_. [])\<rparr>"

definition exampleTailConfig :: tail_config where
  "exampleTailConfig = \<lparr>tc_ServerID = 7, tc_Tables = [''shop.Orders''], tc_CaptureDir = ''fixtures'', tc_StartGTID = ''uuid:1-9''\<rparr>"

definition exampleAnswers :: "tail_answer list" where
  "exampleAnswers = [TailEvent FormatDescriptionEvent ''f'', TailEvent (TableMapEvent (exampleTableMap ''users'')) ''u'',
     TailEvent (TailGTID (Inr ''uuid:10'')) [], TailEvent (TableMapEvent (exampleTableMap ''orders'')) ''m'',
     TailEvent (TailRows UPDATE_ROWS_EVENTv2 (exampleTableMap ''orders'')
       [[VString ''7'', VString ''ada''], [VString ''7'', VString ''bob'']]) ''r'', TailEvent TailXID [], TailStopped]"

text \<open>What such a run prints.\<close>

lemma exampleTail_out:
  "case tail_Tail exampleTailEnv exampleTailConfig exampleAnswers Map.empty of (fin, t, _) \<Rightarrow> fin = TailReturned None \<and> tl_cfg t = exampleTailConfig \<and>
     tl_out t = ''streaming from uuid:1-9 as server_id=7'' @ newline @ newline @
       ''update shop.orders id=7 name: ada -> bob  gtid=uuid:10'' @ newline @ newline @
       ''stopped: 1 row events seen, 3 fixtures captured'' @ newline"
  by code_simp


end
