(* ===== verification/Commands.thy ===== *)
theory Commands
  imports Service Generate Tail
begin

text \<open>
  The commands of \<^verbatim>\<open>cmd/changeflow\<close> that act on the modelled packages: \<^verbatim>\<open>run\<close>, \<^verbatim>\<open>resnapshot\<close>, \<^verbatim>\<open>status\<close>,
  \<^verbatim>\<open>generate-schema\<close>, \<^verbatim>\<open>validate\<close>, \<^verbatim>\<open>preflight\<close> and \<^verbatim>\<open>tail\<close>.  The configuration as loaded and checked is an argument (see
  \<open>Parse\<close>).  What a command prints is a list of notices in the order of printing, without the widths of the
  columns; flags and the set-up of the command line are left out.
\<close>

subsection \<open>What the commands work with\<close>

record ('s, 'w) command_env =
  cm_config :: "config_error + config"
  cm_open :: "string \<Rightarrow> 'w \<Rightarrow> string option \<times> 'w"
  cm_close :: "string \<Rightarrow> 'w \<Rightarrow> 'w"
  cm_sessions :: "('s, 'w) session_db"
  cm_queryRow :: "string \<Rightarrow> 'w \<Rightarrow> (db_error + db_row) \<times> 'w"
  cm_upsert :: "db_row \<Rightarrow> 'w \<Rightarrow> db_error option \<times> 'w"
  cm_loadTable :: "string \<Rightarrow> string \<Rightarrow> 'w \<Rightarrow> (load_error + table_meta) \<times> 'w"
  cm_variables :: "'w \<Rightarrow> (string + (string + string \<times> string) list \<times> string option) \<times> 'w"
  cm_grants :: "'w \<Rightarrow> (string + string list) \<times> 'w"
  cm_refused :: "string \<Rightarrow> string \<Rightarrow> nat \<times> dlq_error option"
  cm_gtidExecuted :: "'w \<Rightarrow> (string + string) \<times> 'w"

datatype host_error = NoAddress | PortText string | PortZero string

datatype command_error =
    ConfigRefused config_error
  | UnknownStream "string list"
  | Unconfirmed string string
  | OpenFailed string
  | StoreRefused identifier_error
  | StreamRunning string
  | LockFailed lock_error
  | NeverRan string
  | LoadFailed store_error
  | SaveFailed store_error
  | CountFailed dlq_error
  | NoStreams
  | MemoryShort string string
  | SupervisorRefused new_error
  | RunEnded run_end
  | TableFailed load_error
  | KeyFailed schema_error
  | NoGenerator string
  | GenerateFailed generate_error
  | PreflightFailed string
  | RequiredFailed nat
  | SameServerID "32 word"
  | DSNRequired
  | TailDSN string
  | TailNotTCP string
  | TailAddress host_error
  | PositionUnread string
  | NothingLogged

datatype notice =
    WillScan string string
  | HadRead u64
  | NewIndexFor string
  | NewTable

subsection \<open>resnapshot\<close>

definition rebuildAdvice :: "stream_config \<Rightarrow> notice list" where
  "rebuildAdvice stream =
     (if sk_Type (sm_Sink stream) = SinkElasticsearch \<and> sk_Alias (sm_Sink stream) \<noteq> []
      then [NewIndexFor (sk_Alias (sm_Sink stream))]
      else if sk_Type (sm_Sink stream) = SinkClickHouse then [NewTable] else [])"

text \<open>The part that runs under the lock of the stream.\<close>

definition clearScan ::
    "('s, 'w) command_env \<Rightarrow> string \<Rightarrow> stream_config \<Rightarrow> 'w \<Rightarrow> (command_error + notice list) \<times> 'w" where
  "clearScan env streamName stream w = (case my_Load (cm_queryRow env) streamName w of
      (Inl e, w1) \<Rightarrow>
        (Inl (if e = ErrNotFound \<or> e = StoreFailed NotInitialized then NeverRan streamName else LoadFailed e), w1)
    | (Inr cp, w1) \<Rightarrow>
        (let previous = cp_SnapshotRowsDone cp
         in case my_Save (cm_upsert env) (ClearSnapshot cp) w1 of
              (Some e, w2) \<Rightarrow> (Inl (SaveFailed e), w2)
            | (None, w2) \<Rightarrow>
                (Inr (WillScan streamName (sm_Table stream) # (if 0 < previous then [HadRead previous] else []) @
                   rebuildAdvice stream), w2)))"

definition lockedClear ::
    "('s, 'w) command_env \<Rightarrow> config \<Rightarrow> string \<Rightarrow> stream_config \<Rightarrow> 'w \<Rightarrow> (command_error + notice list) \<times> 'w" where
  "lockedClear env cfg streamName stream w = (case NewMySQLStore True (st_Table (cf_Checkpoint cfg)) of
      Inl e \<Rightarrow> (Inl (StoreRefused e), w)
    | Inr store \<Rightarrow> (case my_Lock (cm_sessions env) store streamName w of
          (Inl e, w1) \<Rightarrow> (Inl (case e of ErrStreamLocked _ _ _ \<Rightarrow> StreamRunning streamName | _ \<Rightarrow> LockFailed e), w1)
        | (Inr l, w1) \<Rightarrow> (case clearScan env streamName stream w1 of (r, w2) \<Rightarrow>
            (case my_Release (cm_sessions env) (Some l) w2 of (_, _, w3) \<Rightarrow> (r, w3)))))"

definition resnapshot ::
    "('s, 'w) command_env \<Rightarrow> string \<Rightarrow> bool \<Rightarrow> 'w \<Rightarrow> (command_error + notice list) \<times> 'w" where
  "resnapshot env streamName confirm w = (case cm_config env of
      Inl e \<Rightarrow> (Inl (ConfigRefused e), w)
    | Inr cfg \<Rightarrow> (case configStream cfg streamName of
          Inl names \<Rightarrow> (Inl (UnknownStream names), w)
        | Inr stream \<Rightarrow>
            if \<not> confirm then (Inl (Unconfirmed streamName (sm_Table stream)), w)
            else (case cm_open env (st_DSN (cf_Checkpoint cfg)) w of
                (Some e, w1) \<Rightarrow> (Inl (OpenFailed e), w1)
              | (None, w1) \<Rightarrow> (case lockedClear env cfg streamName stream w1 of (r, w2) \<Rightarrow>
                    (r, cm_close env (st_DSN (cf_Checkpoint cfg)) w2)))))"

subsection \<open>status\<close>

text \<open>A duration is shown rounded to milliseconds; the cell holds the rounded duration.\<close>

definition lagText :: "checkpoint \<Rightarrow> time \<Rightarrow> int option" where
  "lagText cp now = (case LagAt cp now of (d, ok) \<Rightarrow> if ok then Some (roundDuration d 1000000) else None)"

definition snapshotText :: "checkpoint \<Rightarrow> string" where
  "snapshotText cp =
     (if cp_SnapshotDone cp then ''done''
      else if 0 < cp_SnapshotRowsTotal cp
      then showNat (unat (100 * cp_SnapshotRowsDone cp div cp_SnapshotRowsTotal cp)) @ ''%''
      else ''pending'')"

datatype status_line =
    Header bool
  | Row string "int option" string "nat option" string
  | Stopped string

definition statusRow ::
    "('s, 'w) command_env \<Rightarrow> string \<Rightarrow> string \<Rightarrow> int option \<Rightarrow> string \<Rightarrow> string \<Rightarrow> command_error + status_line" where
  "statusRow env dlqDir name lag snapshot position =
     (if dlqDir = [] then Inr (Row name lag snapshot None position)
      else (case cm_refused env dlqDir name of
          (_, Some e) \<Rightarrow> Inl (CountFailed e)
        | (n, None) \<Rightarrow> Inr (Row name lag snapshot (Some n) position)))"

fun notStarted ::
    "('s, 'w) command_env \<Rightarrow> string \<Rightarrow> string list \<Rightarrow> status_line list \<Rightarrow> command_error option \<times> status_line list" where
  "notStarted env dlqDir [] out = (None, out)"
| "notStarted env dlqDir (name # names) out = (case statusRow env dlqDir name None ''not started'' ''-'' of
      Inl e \<Rightarrow> (Some e, out)
    | Inr row \<Rightarrow> notStarted env dlqDir names (out @ [row]))"

fun statusLoop ::
    "('s, 'w) command_env \<Rightarrow> string \<Rightarrow> time \<Rightarrow> string list \<Rightarrow> status_line list \<Rightarrow> 'w \<Rightarrow>
     command_error option \<times> status_line list \<times> 'w" where
  "statusLoop env dlqDir now [] out w = (None, out, w)"
| "statusLoop env dlqDir now (name # names) out w = (case my_Load (cm_queryRow env) name w of
      (Inl e, w1) \<Rightarrow>
        if e = ErrNotFound then
          (case statusRow env dlqDir name None ''not started'' ''-'' of
             Inl x \<Rightarrow> (Some x, out, w1)
           | Inr row \<Rightarrow> statusLoop env dlqDir now names (out @ [row]) w1)
        else (Some (LoadFailed e), out, w1)
    | (Inr cp, w1) \<Rightarrow> (case statusRow env dlqDir name (lagText cp now) (snapshotText cp) (cp_GTIDSet cp) of
          Inl x \<Rightarrow> (Some x, out, w1)
        | Inr row \<Rightarrow>
            statusLoop env dlqDir now names
              (out @ [row] @ (if cp_LastError cp \<noteq> [] then [Stopped (cp_LastError cp)] else [])) w1))"

text \<open>The first stream tells whether the table of checkpoints exists; without a stream the index panics.\<close>

definition showStatus ::
    "('s, 'w) command_env \<Rightarrow> string \<Rightarrow> time \<Rightarrow> 'w \<Rightarrow> command_error option \<times> status_line list \<times> 'w" where
  "showStatus env dlqDir now w = (case cm_config env of
      Inl e \<Rightarrow> (Some (ConfigRefused e), [], w)
    | Inr cfg \<Rightarrow> (case cm_open env (st_DSN (cf_Checkpoint cfg)) w of
          (Some e, w1) \<Rightarrow> (Some (OpenFailed e), [], w1)
        | (None, w1) \<Rightarrow> (case NewMySQLStore True (st_Table (cf_Checkpoint cfg)) of
              Inl e \<Rightarrow> (Some (StoreRefused e), [], cm_close env (st_DSN (cf_Checkpoint cfg)) w1)
            | Inr store \<Rightarrow> (case StreamNames cfg of
                  [] \<Rightarrow> (Some NoStreams, [Header (dlqDir \<noteq> [])], cm_close env (st_DSN (cf_Checkpoint cfg)) w1)
                | first # _ \<Rightarrow> (case my_Load (cm_queryRow env) first w1 of (r, w2) \<Rightarrow>
                      (if r = Inl (StoreFailed NotInitialized) then
                         (case notStarted env dlqDir (StreamNames cfg) [Header (dlqDir \<noteq> [])] of (e, out) \<Rightarrow>
                            (e, out, cm_close env (st_DSN (cf_Checkpoint cfg)) w2))
                       else
                         (case statusLoop env dlqDir now (StreamNames cfg) [Header (dlqDir \<noteq> [])] w2 of (e, out, w3) \<Rightarrow>
                            (e, out, cm_close env (st_DSN (cf_Checkpoint cfg)) w3))))))))"

subsection \<open>run and generate-schema\<close>

definition replicate_run ::
    "('s, 'w) command_env \<Rightarrow> ('g, 'q, 's, 'h, 'w) service_env \<Rightarrow> int \<Rightarrow> string \<Rightarrow> string \<Rightarrow> 'w \<Rightarrow>
     (command_error option \<times> 'w) option" where
  "replicate_run env service memoryLimit streamName dlqDir w = (case cm_config env of
      Inl e \<Rightarrow> Some (Some (ConfigRefused e), w)
    | Inr cfg \<Rightarrow> (case CheckMemoryLimit cfg memoryLimit of
          Some (need, limit) \<Rightarrow> Some (Some (MemoryShort need limit), w)
        | None \<Rightarrow> (case sup_New cfg streamName dlqDir of
              Inl e \<Rightarrow> Some (Some (SupervisorRefused e), w)
            | Inr sv \<Rightarrow> map_option (\<lambda>(fin, w1). (if fin = RunReturned then None else Some (RunEnded fin), w1))
                (sup_Run service sv w))))"

definition generateSchema ::
    "('s, 'w) command_env \<Rightarrow> string \<Rightarrow> int \<Rightarrow> int \<Rightarrow> 'w \<Rightarrow> (command_error + generated) \<times> 'w" where
  "generateSchema env streamName shards replicas w = (case cm_config env of
      Inl e \<Rightarrow> (Inl (ConfigRefused e), w)
    | Inr cfg \<Rightarrow> (case configStream cfg streamName of
          Inl names \<Rightarrow> (Inl (UnknownStream names), w)
        | Inr stream \<Rightarrow> (case cm_open env (sc_DSN (cf_Source cfg)) w of
              (Some e, w1) \<Rightarrow> (Inl (OpenFailed e), w1)
            | (None, w1) \<Rightarrow> (case cm_loadTable env (streamSchema stream) (streamTable stream) w1 of (r, w2) \<Rightarrow>
                (case r of
                   Inl e \<Rightarrow> Inl (TableFailed e)
                 | Inr meta \<Rightarrow> (case ResolveKey meta (mp_Key (sm_Mapping stream)) of
                       Inl e \<Rightarrow> Inl (KeyFailed e)
                     | Inr keyNames \<Rightarrow>
                         (let mapping = sm_Mapping stream; kind = sk_Type (sm_Sink stream)
                          in if kind = SinkElasticsearch then
                               map_sum GenerateFailed id (GenerateElasticsearch meta (mp_Include mapping) (mp_Exclude mapping)
                                 keyNames (mp_Rename mapping) shards replicas)
                             else if kind = SinkClickHouse then
                               map_sum GenerateFailed id (GenerateClickHouse meta (mp_Include mapping) (mp_Exclude mapping)
                                 keyNames (mp_Rename mapping) (sk_Table (sm_Sink stream)))
                             else Inl (NoGenerator kind))),
                 cm_close env (sc_DSN (cf_Source cfg)) w2)))))"

subsection \<open>The gate of tail, and addresses\<close>

definition gateOnPreflight :: "('s, 'w) command_env \<Rightarrow> 32 word \<Rightarrow> bool \<Rightarrow> 'w \<Rightarrow> command_error option \<times> 'w" where
  "gateOnPreflight env serverID skipCheck w = (case preflightRun (cm_variables env) (cm_grants env) w of
      (Inl e, w1) \<Rightarrow> (Some (PreflightFailed e), w1)
    | (Inr report, w1) \<Rightarrow>
        if \<not> reportOK report \<and> \<not> skipCheck then (Some (RequiredFailed (length (Failures report))), w1)
        else if reportGet report ''server_id'' = Some (showNat (unat serverID)) then (Some (SameServerID serverID), w1)
        else (None, w1))"

definition cmd_splitHostPort :: "string \<Rightarrow> host_error + string \<times> 16 word" where
  "cmd_splitHostPort addr =
     (if addr = [] then Inl NoAddress
      else (case splitHostPort addr of
          None \<Rightarrow> Inr (trimSuffix (trimPrefix addr [CHR 0x5B]) [CHR 0x5D], 3306)
        | Some (host, portStr) \<Rightarrow> (case parseUint64 portStr of
              Inl _ \<Rightarrow> Inl (PortText addr)
            | Inr n \<Rightarrow>
                if 65535 < n then Inl (PortText addr)
                else if n = 0 then Inl (PortZero addr) else Inr (host, ucast n))))"

text \<open>\<^verbatim>\<open>validate\<close>: the number of streams, the estimate, and a line per stream.\<close>

definition validateConfig ::
    "('s, 'w) command_env \<Rightarrow> int \<Rightarrow> command_error + nat \<times> string \<times> (string \<times> string \<times> string) list" where
  "validateConfig env memoryLimit = (case cm_config env of
      Inl e \<Rightarrow> Inl (ConfigRefused e)
    | Inr cfg \<Rightarrow> (case CheckMemoryLimit cfg memoryLimit of
          Some (need, limit) \<Rightarrow> Inl (MemoryShort need limit)
        | None \<Rightarrow> Inr (length (cf_Streams cfg), byteSizeString (EstimatedMemory cfg),
            map (\<lambda>name. case map_of (cf_Streams cfg) name of
                None \<Rightarrow> (name, [], [])
              | Some s \<Rightarrow> (name, sm_Table s, sk_Type (sm_Sink s))) (StreamNames cfg))))"

text \<open>\<^verbatim>\<open>preflight\<close>; the report is what is printed.\<close>

definition requireDSN :: "string \<Rightarrow> command_error option" where
  "requireDSN dsn = (if dsn = [] then Some DSNRequired else None)"

definition checkServer :: "('s, 'w) command_env \<Rightarrow> string \<Rightarrow> 'w \<Rightarrow> command_error option \<times> report option \<times> 'w" where
  "checkServer env dsn w = (case cm_open env dsn w of
      (Some e, w1) \<Rightarrow> (Some (OpenFailed e), None, w1)
    | (None, w1) \<Rightarrow> (case preflightRun (cm_variables env) (cm_grants env) w1 of
          (Inl e, w2) \<Rightarrow> (Some (PreflightFailed e), None, cm_close env dsn w2)
        | (Inr report, w2) \<Rightarrow>
            (if \<not> reportOK report then Some (RequiredFailed (length (Failures report))) else None, Some report,
             cm_close env dsn w2)))"

definition cmd_currentPosition :: "('s, 'w) command_env \<Rightarrow> 'w \<Rightarrow> (command_error + string) \<times> 'w" where
  "cmd_currentPosition env w = (case cm_gtidExecuted env w of
      (Inl e, w1) \<Rightarrow> (Inl (PositionUnread e), w1)
    | (Inr raw, w1) \<Rightarrow>
        (let gtid = replaceByte (CHR 0x0A) [] raw
         in if trimSpace gtid = [] then (Inl NothingLogged, w1) else (Inr gtid, w1)))"

record tail_request =
  tr_dsn :: string
  tr_serverID :: "32 word"
  tr_tables :: "string list"
  tr_captureDir :: string
  tr_skipCheck :: bool

datatype tail_outcome = TailRefused command_error | TailRan tail_end tailer

text \<open>\<^verbatim>\<open>tail\<close>: the address, the gate, the position of the source, then the events.\<close>

definition tailChanges ::
    "('s, 'w) command_env \<Rightarrow> 'w tail_env \<Rightarrow> (string \<Rightarrow> string + parsed_dsn) \<Rightarrow> tail_request \<Rightarrow> tail_answer list \<Rightarrow> 'w \<Rightarrow>
     tail_outcome \<times> 'w" where
  "tailChanges env tenv parseDSN req answers w = (case parseDSN (tr_dsn req) of
      Inl e \<Rightarrow> (TailRefused (TailDSN e), w)
    | Inr cfg \<Rightarrow>
        if pd_Net cfg \<noteq> ''tcp'' then (TailRefused (TailNotTCP (pd_Net cfg)), w)
        else (case cmd_splitHostPort (pd_Addr cfg) of
            Inl e \<Rightarrow> (TailRefused (TailAddress e), w)
          | Inr (host, port) \<Rightarrow> (case cm_open env (tr_dsn req) w of
                (Some e, w1) \<Rightarrow> (TailRefused (OpenFailed e), w1)
              | (None, w1) \<Rightarrow> (case gateOnPreflight env (tr_serverID req) (tr_skipCheck req) w1 of
                    (Some e, w2) \<Rightarrow> (TailRefused e, cm_close env (tr_dsn req) w2)
                  | (None, w2) \<Rightarrow> (case cmd_currentPosition env w2 of
                        (Inl e, w3) \<Rightarrow> (TailRefused e, cm_close env (tr_dsn req) w3)
                      | (Inr gtid, w3) \<Rightarrow>
                          (case tail_Tail tenv \<lparr>tc_ServerID = tr_serverID req, tc_Tables = tr_tables req,
                              tc_CaptureDir = tr_captureDir req, tc_StartGTID = gtid\<rparr> answers w3 of
                             (TailGoesOn, t, w4) \<Rightarrow> (TailRan TailGoesOn t, w4)
                           | (fin, t, w4) \<Rightarrow> (TailRan fin t, cm_close env (tr_dsn req) w4)))))))"

text \<open>Unlike the address of the service, a port of 0 is refused here.\<close>

lemma cmd_splitHostPort_port: "cmd_splitHostPort addr = Inr (host, port) \<Longrightarrow> port \<noteq> 0"
proof -
  have "(ucast n :: 16 word) \<noteq> 0" if "n \<noteq> 0" "\<not> 65535 < n" for n :: u64
  proof
    assume "(ucast n :: 16 word) = 0"
    moreover have "unat (ucast n :: 16 word) = take_bit 16 (unat n)" by (simp add: unsigned_ucast_eq unsigned_take_bit_eq)
    ultimately have "unat n mod 65536 = 0" by (simp add: take_bit_eq_mod)
    with that show False by (simp add: word_less_nat_alt unat_eq_0)
  qed
  then show "cmd_splitHostPort addr = Inr (host, port) \<Longrightarrow> port \<noteq> 0"
    by (auto simp: cmd_splitHostPort_def split: if_splits option.splits sum.splits prod.splits)
qed

subsection \<open>What asking for a rescan does\<close>

text \<open>
  Opening and closing a database touches neither the checkpoints nor the locks, the statements on the table
  do not touch the locks, and the lock functions do not touch the table.
\<close>

definition quietCommands ::
    "('s, 'w) command_env \<Rightarrow> ('w \<Rightarrow> string \<rightharpoonup> db_row) \<Rightarrow> ('w \<Rightarrow> string \<rightharpoonup> 's) \<Rightarrow> ('w \<Rightarrow> 's set) \<Rightarrow> bool" where
  "quietCommands env rows holder pinned \<longleftrightarrow>
     (\<forall>dsn w. rows (snd (cm_open env dsn w)) = rows w \<and> sameLocks holder pinned w (snd (cm_open env dsn w))) \<and>
     (\<forall>dsn w. rows (cm_close env dsn w) = rows w \<and> sameLocks holder pinned w (cm_close env dsn w)) \<and>
     (\<forall>s w. sameLocks holder pinned w (snd (cm_queryRow env s w))) \<and>
     (\<forall>r w. sameLocks holder pinned w (snd (cm_upsert env r w))) \<and>
     (\<forall>w. rows (snd (sd_Conn (cm_sessions env) w)) = rows w) \<and>
     (\<forall>c n secs w. rows (snd (sd_getLock (cm_sessions env) c n secs w)) = rows w) \<and>
     (\<forall>c n w. rows (snd (sd_isUsedLock (cm_sessions env) c n w)) = rows w) \<and>
     (\<forall>c n w. rows (snd (sd_releaseLock (cm_sessions env) c n w)) = rows w) \<and>
     (\<forall>c w. rows (snd (sd_Close (cm_sessions env) c w)) = rows w)"

lemma quiet_lock_rows:
  assumes "quietCommands env rows holder pinned"
  shows "my_Lock (cm_sessions env) store s w = (r, w') \<Longrightarrow> rows w' = rows w"
    and "my_Release (cm_sessions env) l w = (e, l', w') \<Longrightarrow> rows w' = rows w"
proof -
  have q: "rows (snd (sd_Conn (cm_sessions env) w)) = rows w" "rows (snd (sd_getLock (cm_sessions env) c n secs w)) = rows w"
    "rows (snd (sd_isUsedLock (cm_sessions env) c n w)) = rows w" "rows (snd (sd_releaseLock (cm_sessions env) c n w)) = rows w"
    "rows (snd (sd_Close (cm_sessions env) c w)) = rows w" for c n secs w
    using assms unfolding quietCommands_def by blast+
  show "my_Lock (cm_sessions env) store s w = (r, w') \<Longrightarrow> rows w' = rows w"
    by (auto simp: my_Lock_def q split: option.splits prod.splits sum.splits if_splits dest!: arg_cong [where f = "\<lambda>p. rows (snd p)"])
  show "my_Release (cm_sessions env) l w = (e, l', w') \<Longrightarrow> rows w' = rows w"
    by (auto simp: my_Release_def q split: option.splits prod.splits dest!: arg_cong [where f = "\<lambda>p. rows (snd p)"])
qed

lemma quiet_store_locks:
  assumes "quietCommands env rows holder pinned"
  shows "my_Load (cm_queryRow env) s w = (r, w') \<Longrightarrow> sameLocks holder pinned w w'"
    and "my_Save (cm_upsert env) cp w = (e, w') \<Longrightarrow> sameLocks holder pinned w w'"
proof -
  have q: "sameLocks holder pinned w (snd (cm_queryRow env s w))" "sameLocks holder pinned w (snd (cm_upsert env r w))" for s r w
    using assms unfolding quietCommands_def by blast+
  show "my_Load (cm_queryRow env) s w = (r, w') \<Longrightarrow> sameLocks holder pinned w w'"
    using q(1) [of w s] by (auto simp: my_Load_def Let_def split: prod.splits sum.splits option.splits if_splits)
  show "my_Save (cm_upsert env) cp w = (e, w') \<Longrightarrow> sameLocks holder pinned w w'"
    using q(2) [of w "boundRow (if cp_SchemaVersion cp = 0 then cp\<lparr>cp_SchemaVersion := SchemaVersion\<rparr> else cp)"]
    by (auto simp: my_Save_def Let_def split: prod.splits option.splits)
qed

lemma clearScan_clears:
  assumes store: "checkpoint_store (my_Load (cm_queryRow env)) (my_Save (cm_upsert env)) view"
    and named: "\<And>w s cp. view w s = Some cp \<Longrightarrow> cp_Stream cp = s"
    and run: "clearScan env streamName stream w = (r, w')"
  shows "case r of
      Inl e \<Rightarrow> view w' = view w \<or> (\<exists>x. e = SaveFailed x)
    | Inr _ \<Rightarrow> \<exists>cp cp'. view w streamName = Some cp \<and> view w' = (view w)(streamName \<mapsto> cp') \<and>
        settled cp' = settled (ClearSnapshot cp)"
proof -
  obtain a w1 where load: "my_Load (cm_queryRow env) streamName w = (a, w1)" by force
  note v1 = checkpoint_store.load_view [OF store load]
  show ?thesis
  proof (cases a)
    case (Inl e)
    with run load v1 show ?thesis by (auto simp: clearScan_def)
  next
    case (Inr cp)
    note cp = checkpoint_store.load_found [OF store load [unfolded Inr]]
    obtain e w2 where save: "my_Save (cm_upsert env) (ClearSnapshot cp) w1 = (e, w2)" by force
    show ?thesis
    proof (cases e)
      case (Some x)
      with run load Inr save show ?thesis by (auto simp: clearScan_def Let_def)
    next
      case None
      have "cp_Stream (ClearSnapshot cp) = streamName" using named [OF cp] by (simp add: ClearSnapshot_def)
      with checkpoint_store.save_done [OF store save [unfolded None]] v1
      obtain cp' where "settled cp' = settled (ClearSnapshot cp)" "view w2 = (view w)(streamName \<mapsto> cp')"
        by (auto simp: savedAs_def sameCheckpoint_def)
      with cp run load Inr save None show ?thesis by (auto simp: clearScan_def Let_def)
    qed
  qed
qed

lemma clearScan_locks:
  assumes "quietCommands env rows holder pinned" and "clearScan env streamName stream w = (r, w')"
  shows "sameLocks holder pinned w w'"
proof -
  obtain a w1 where load: "my_Load (cm_queryRow env) streamName w = (a, w1)" by force
  note s1 = quiet_store_locks(1) [OF assms(1) load]
  show ?thesis
  proof (cases a)
    case (Inl e)
    with assms(2) load s1 show ?thesis by (auto simp: clearScan_def)
  next
    case (Inr cp)
    obtain e w2 where save: "my_Save (cm_upsert env) (ClearSnapshot cp) w1 = (e, w2)" by force
    have "w' = w2" using assms(2) load Inr save by (cases e) (auto simp: clearScan_def Let_def)
    with quiet_store_locks(2) [OF assms(1) save] s1 show ?thesis by (simp add: sameLocks_def)
  qed
qed

lemma clearScan_rows:
  assumes table: "mysqlTable collate (cm_queryRow env) (cm_upsert env) setError rows"
    and run: "clearScan env streamName stream w = (Inl e, w')"
  shows "rows w' = rows w \<or> (\<exists>x. e = SaveFailed x)"
proof -
  obtain a w1 where load: "my_Load (cm_queryRow env) streamName w = (a, w1)" by force
  then have "rows w1 = rows w" by (rule my_Load_cases) (auto dest: mysqlTable_query(1) [OF table])
  with run load show ?thesis by (cases a) (auto simp: clearScan_def Let_def split: prod.splits option.splits)
qed

lemma tableView_named:
  assumes table: "mysqlTable collate queryRow upsert setError rows" and inj: "inj collate"
    and "tableView collate rows w s = Some cp"
  shows "cp_Stream cp = s"
proof -
  from assms(3) obtain r where r: "rows w (collate s) = Some r" "cp = rowCheckpoint r" by (auto simp: tableView_def)
  have "collate (dr_stream r) = collate s" using table r(1) unfolding mysqlTable_def by blast
  with inj show ?thesis by (simp add: r(2) rowCheckpoint_def scannedCheckpoint_def inj_eq)
qed

lemma lockedClear_clears:
  assumes table: "mysqlTable collate (cm_queryRow env) (cm_upsert env) setError rows" and inj: "inj collate"
    and locks: "mysqlLocks (cm_sessions env) holder pinned" and quiet: "quietCommands env rows holder pinned"
    and run: "lockedClear env cfg streamName stream w = (r, w')"
  shows "pinned w' = pinned w \<and> (\<forall>c other. owned holder pinned c other w \<longrightarrow> owned holder pinned c other w') \<and>
    (case r of
       Inl e \<Rightarrow> rows w' = rows w \<or> (\<exists>x. e = SaveFailed x) \<and> \<not> (\<exists>c. owned holder pinned c streamName w)
     | Inr _ \<Rightarrow> \<not> (\<exists>c. owned holder pinned c streamName w) \<and>
         (\<exists>cp cp'. tableView collate rows w streamName = Some cp \<and>
            tableView collate rows w' = (tableView collate rows w)(streamName \<mapsto> cp') \<and>
            settled cp' = settled (ClearSnapshot cp)))"
proof (cases "NewMySQLStore True (st_Table (cf_Checkpoint cfg))")
  case (Inl e)
  with run show ?thesis by (auto simp: lockedClear_def)
next
  case (Inr store)
  obtain a w1 where l: "my_Lock (cm_sessions env) store streamName w = (a, w1)" by force
  note rows1 = quiet_lock_rows(1) [OF quiet l]
  show ?thesis
  proof (cases a)
    case (Inl e)
    with run l Inr rows1 my_Lock_pins [OF locks l] my_Lock_keeps [OF locks _ l] show ?thesis
      by (auto simp: lockedClear_def)
  next
    case (Inr lock)
    obtain d where d: "sl_conn lock = Some d" "d \<notin> pinned w" "pinned w1 = insert d (pinned w)"
      using my_Lock_pins [OF locks l] Inr by auto
    have free: "\<not> (\<exists>c. owned holder pinned c streamName w)" using my_Lock_keeps [OF locks _ l] Inr by auto
    obtain x w2 where c: "clearScan env streamName stream w1 = (x, w2)" by force
    obtain e l' w3 where rel: "my_Release (cm_sessions env) (Some lock) w2 = (e, l', w3)" by (rule prod_cases3)
    have res: "r = x" "w' = w3" using run \<open>NewMySQLStore True _ = Inr store\<close> l Inr c rel by (auto simp: lockedClear_def)
    note s2 = clearScan_locks [OF quiet c]
    have "pinned w' = pinned w"
      using my_Release_unpins(1) [OF locks rel] d s2 by (simp add: res sameLocks_def)
    moreover have "owned holder pinned k other w'" if "owned holder pinned k other w" for k other
    proof -
      have "k \<noteq> d" using that d(2) by (auto simp: owned_def)
      moreover have "owned holder pinned k other w2"
        using my_Lock_keeps [OF locks that l] sameLocks_owned [OF s2] by simp
      ultimately show ?thesis using my_Release_unpins(2) [OF locks rel] d(1) by (simp add: res)
    qed
    moreover have views: "tableView collate rows w1 = tableView collate rows w" "tableView collate rows w3 = tableView collate rows w2"
      using rows1 quiet_lock_rows(2) [OF quiet rel] by (simp_all add: tableView_def fun_eq_iff)
    moreover have "rows w3 = rows w2" using quiet_lock_rows(2) [OF quiet rel] .
    moreover have "rows w2 = rows w1 \<or> (\<exists>y. e = SaveFailed y)" if "x = Inl e" for e
      using clearScan_rows [OF table c [unfolded that]] .
    moreover note clearScan_clears [OF mysql_contract [OF table inj] tableView_named [OF table inj], rotated, OF c]
    ultimately show ?thesis using free rows1 by (auto simp: res split: sum.splits)
  qed
qed


text \<open>A server with the table of checkpoints and the locks side by side, and a stream that was scanned.\<close>

type_synonym command_world = "(string \<rightharpoonup> db_row) \<times> (string \<rightharpoonup> nat) \<times> nat list"

definition commandSessions :: "(nat, command_world) session_db" where
  "commandSessions = \<lparr>
     sd_Conn = (\<lambda>(t, l). case sd_Conn exampleSessions l of (a, l') \<Rightarrow> (a, t, l')),
     sd_getLock = (\<lambda>c n secs (t, l). case sd_getLock exampleSessions c n secs l of (a, l') \<Rightarrow> (a, t, l')),
     sd_isUsedLock = (\<lambda>c n (t, l). case sd_isUsedLock exampleSessions c n l of (a, l') \<Rightarrow> (a, t, l')),
     sd_releaseLock = (\<lambda>c n (t, l). case sd_releaseLock exampleSessions c n l of (a, l') \<Rightarrow> (a, t, l')),
     sd_Close = (\<lambda>c (t, l). case sd_Close exampleSessions c l of (a, l') \<Rightarrow> (a, t, l'))\<rparr>"

definition exampleCommands :: "(nat, command_world) command_env" where
  "exampleCommands = \<lparr>cm_config = Inr (sv_cfg (exampleSupervisor [chStream])), cm_open = (\<lambda>_ w. (None, w)), cm_close = (\<lambda>_ w. w),
     cm_sessions = commandSessions,
     cm_queryRow = (\<lambda>s (t, l). case exampleQuery s t of (a, t') \<Rightarrow> (a, t', l)),
     cm_upsert = (\<lambda>r (t, l). case exampleUpsert r t of (e, t') \<Rightarrow> (e, t', l)),
     cm_loadTable = (\<lambda>_ _ w. (Inr exampleTable, w)), cm_variables = (\<lambda>w. (Inr (map Inr usableVars, None), w)),
     cm_grants = (\<lambda>w. (Inr usableGrants, w)), cm_refused = (\<lambda>_ _. (0, None)), cm_gtidExecuted = (\<lambda>w. (Inr ''uuid:1-9'', w))\<rparr>"

lemma command_locks: "mysqlLocks (cm_sessions exampleCommands) (fst \<circ> snd) (set \<circ> snd \<circ> snd)"
proof -
  have "Suc (sum_list p) \<notin> set p" for p :: "nat list"
    using member_le_sum_list [of "Suc (sum_list p)" p] by auto
  then show ?thesis by (auto simp: mysqlLocks_def exampleCommands_def commandSessions_def exampleSessions_def split: if_splits)
qed

lemma command_table:
  "mysqlTable id (cm_queryRow exampleCommands) (cm_upsert exampleCommands)
     (\<lambda>v s (t, l). case exampleSetError v s t of (e, t') \<Rightarrow> (e, t', l)) (exampleTableRows \<circ> fst)"
proof -
  note table = example_mysqlTable [unfolded mysqlTable_def]
  have up: "upserted id new (exampleTableRows t) (exampleTableRows t') \<or> e \<noteq> None \<and> exampleTableRows t' = exampleTableRows t"
    if "exampleUpsert new t = (e, t')" for new t e t' using table that by blast
  have err: "errorSet id v s (exampleTableRows t) (exampleTableRows t') \<or> e \<noteq> None \<and> exampleTableRows t' = exampleTableRows t"
    if "exampleSetError v s t = (e, t')" for v s t e t' using table that by blast
  have q: "exampleTableRows t' = exampleTableRows t \<and> (a = Inl NoRows \<longrightarrow> exampleTableRows t (id s) = None) \<and>
      (\<forall>r. a = Inr r \<longrightarrow> exampleTableRows t (id s) = Some r)" if "exampleQuery s t = (a, t')" for s t a t' using table that by blast
  have "id (dr_stream r) = k" if "exampleTableRows t k = Some r" for t k r using table that by blast
  note named = this
  show ?thesis unfolding mysqlTable_def exampleCommands_def
  proof (intro conjI allI impI; clarsimp split: prod.splits)
    show "\<And>t k r. exampleTableRows t k = Some r \<Longrightarrow> dr_stream r = k" using named by simp
  qed (use q up err in fastforce)+
qed

lemma command_quiet: "quietCommands exampleCommands (exampleTableRows \<circ> fst) (fst \<circ> snd) (set \<circ> snd \<circ> snd)"
  by (auto simp: quietCommands_def exampleCommands_def commandSessions_def sameLocks_def split: prod.splits)


text \<open>
  The promise to scan again is not kept for a stream whose scan is disabled: its next start takes the recorded
  position and streams from there.
\<close>

theorem rescan_ignored_when_disabled:
  assumes "d_load (su_deps env) (rt_name rt) w = (Inr (ClearSnapshot cp), w1)" and "cp_GTIDSet cp \<noteq> []"
    and "\<not> sn_Enabled (sm_Snapshot (rt_cfg rt))"
  shows "snapshotIfNeeded env source rt w = Some (Inr (cp_GTIDSet cp), rt, w1)"
  using assms by (simp add: snapshotIfNeeded_def startWithoutSnapshot_def loadedOrZero_def ClearSnapshot_def)

text \<open>
  The progress of a scan is shown as a whole percentage as long as a hundred times the rows read stays below
  the 64-bit range, and is at most 100 while no more rows were read than were estimated; above, it wraps around.
\<close>

lemma snapshotText_percent:
  assumes "\<not> cp_SnapshotDone cp" and "0 < unat (cp_SnapshotRowsTotal cp)" and "100 * unat (cp_SnapshotRowsDone cp) < 2 ^ 64"
  shows "snapshotText cp = showNat (100 * unat (cp_SnapshotRowsDone cp) div unat (cp_SnapshotRowsTotal cp)) @ ''%''"
    and "cp_SnapshotRowsDone cp \<le> cp_SnapshotRowsTotal cp \<Longrightarrow>
      100 * unat (cp_SnapshotRowsDone cp) div unat (cp_SnapshotRowsTotal cp) \<le> 100"
proof -
  have "unat (100 * cp_SnapshotRowsDone cp) = 100 * unat (cp_SnapshotRowsDone cp)"
    using assms(3) by (simp add: unat_word_ariths)
  with assms(1,2) show "snapshotText cp = showNat (100 * unat (cp_SnapshotRowsDone cp) div unat (cp_SnapshotRowsTotal cp)) @ ''%''"
    by (simp add: snapshotText_def unat_div word_less_nat_alt)
  assume "cp_SnapshotRowsDone cp \<le> cp_SnapshotRowsTotal cp"
  then show "100 * unat (cp_SnapshotRowsDone cp) div unat (cp_SnapshotRowsTotal cp) \<le> 100"
    using assms(2) by (simp add: word_le_nat_alt div_le_mono order.trans [OF div_le_mono [of _ "100 * unat (cp_SnapshotRowsTotal cp)"]])
qed

end
