(* ===== verification/Telemetry.thy ===== *)
theory Telemetry
  imports Service
begin

text \<open>
  \<^verbatim>\<open>internal/telemetry\<close>: the series of a stream as a record of their values, one operation per method of
  \<^verbatim>\<open>Metrics\<close> (a nil receiver is \<^term>\<open>None\<close>), and the answers of the health endpoints.  Counters are numbers and gauges
  the values they were set to, where the code has floats; of a histogram its observations are kept.  Registration, the
  exposition of the series and the HTTP server itself are library calls and left out.
\<close>

subsection \<open>The series of a stream (metrics.go)\<close>

record metrics =
  mx_stream :: string
  mx_lag :: int
  mx_events :: "operation \<Rightarrow> nat"
  mx_docsWritten :: nat
  mx_docsStale :: nat
  mx_permanent :: nat
  mx_retryable :: nat
  mx_writeDuration :: "int list"
  mx_batchRows :: "nat list"
  mx_queueDepth :: nat
  mx_deadLettered :: nat
  mx_checkpointAge :: int
  mx_snapshotDone :: u64
  mx_snapshotTotal :: u64
  mx_snapshotRunning :: nat

definition mx_New :: "string \<Rightarrow> metrics" where
  "mx_New stream = \<lparr>mx_stream = stream, mx_lag = 0, mx_events = (\<lambda>_. 0), mx_docsWritten = 0, mx_docsStale = 0, mx_permanent = 0,
     mx_retryable = 0, mx_writeDuration = [], mx_batchRows = [], mx_queueDepth = 0, mx_deadLettered = 0, mx_checkpointAge = 0,
     mx_snapshotDone = 0, mx_snapshotTotal = 0, mx_snapshotRunning = 0\<rparr>"

definition mx_Event :: "operation \<Rightarrow> metrics option \<Rightarrow> metrics option" where
  "mx_Event operation = map_option (\<lambda>m. m\<lparr>mx_events := (mx_events m)(operation := Suc (mx_events m operation))\<rparr>)"

text \<open>The lag, in nanoseconds here; a negative one counts as none.\<close>

definition mx_Lag :: "int \<Rightarrow> metrics option \<Rightarrow> metrics option" where
  "mx_Lag d = map_option (\<lambda>m. m\<lparr>mx_lag := (if d < 0 then 0 else d)\<rparr>)"

definition mx_Batch :: "nat \<Rightarrow> metrics option \<Rightarrow> metrics option" where
  "mx_Batch rows = map_option (\<lambda>m. m\<lparr>mx_batchRows := mx_batchRows m @ [rows]\<rparr>)"

definition mx_Write :: "nat \<Rightarrow> nat \<Rightarrow> nat \<Rightarrow> int \<Rightarrow> bool \<Rightarrow> metrics option \<Rightarrow> metrics option" where
  "mx_Write applied stale rejected elapsed failed = map_option (\<lambda>m.
     let m1 = m\<lparr>mx_writeDuration := mx_writeDuration m @ [elapsed], mx_docsWritten := mx_docsWritten m + applied,
           mx_docsStale := mx_docsStale m + stale\<rparr>;
         m2 = (if 0 < rejected then m1\<lparr>mx_permanent := mx_permanent m1 + rejected\<rparr> else m1)
     in if failed then m2\<lparr>mx_retryable := Suc (mx_retryable m2)\<rparr> else m2)"

definition mx_DeadLettered :: "nat \<Rightarrow> metrics option \<Rightarrow> metrics option" where
  "mx_DeadLettered n = map_option (\<lambda>m. m\<lparr>mx_deadLettered := mx_deadLettered m + n\<rparr>)"

definition mx_QueueDepth :: "nat \<Rightarrow> metrics option \<Rightarrow> metrics option" where
  "mx_QueueDepth n = map_option (\<lambda>m. m\<lparr>mx_queueDepth := n\<rparr>)"

definition mx_CheckpointAge :: "int \<Rightarrow> metrics option \<Rightarrow> metrics option" where
  "mx_CheckpointAge d = map_option (\<lambda>m. m\<lparr>mx_checkpointAge := d\<rparr>)"

definition mx_SnapshotProgress :: "u64 \<Rightarrow> u64 \<Rightarrow> metrics option \<Rightarrow> metrics option" where
  "mx_SnapshotProgress done estimated = map_option (\<lambda>m. m\<lparr>mx_snapshotDone := done, mx_snapshotTotal := estimated\<rparr>)"

definition mx_SnapshotRunning :: "bool \<Rightarrow> metrics option \<Rightarrow> metrics option" where
  "mx_SnapshotRunning running = map_option (\<lambda>m. m\<lparr>mx_snapshotRunning := (if running then 1 else 0)\<rparr>)"

text \<open>What a runner reports, as the calls it makes.\<close>

fun reported :: "observation \<Rightarrow> metrics option \<Rightarrow> metrics option" where
  "reported (ObsEvent operation) m = mx_Event operation m"
| "reported (ObsLag d) m = mx_Lag d m"
| "reported (ObsBatch rows) m = mx_Batch rows m"
| "reported (ObsWrite applied stale rejected elapsed failed) m = mx_Write applied stale rejected elapsed failed m"
| "reported (ObsDeadLettered n) m = mx_DeadLettered n m"

text \<open>What a stream hands to its runner: the reports go to its series, and a lag also sets when it last applied a change.\<close>

record stream_observer =
  ob_metrics :: "metrics option"
  ob_state :: stream_state

definition observerReport :: "time \<Rightarrow> observation \<Rightarrow> stream_observer \<Rightarrow> stream_observer" where
  "observerReport now x ob = (let o1 = ob\<lparr>ob_metrics := reported x (ob_metrics ob)\<rparr>
     in case x of ObsLag _ \<Rightarrow> o1\<lparr>ob_state := state_observed now (ob_state o1)\<rparr> | _ \<Rightarrow> o1)"

definition metricsOf :: "string \<Rightarrow> runner \<Rightarrow> metrics" where
  "metricsOf stream r = the (fold reported (r_observed r) (Some (mx_New stream)))"

subsection \<open>The health endpoints (server.go)\<close>

type_synonym http_answer = "nat \<times> string"

definition healthz :: http_answer where
  "healthz = (200, ''ok'' @ [CHR 0x0A])"

definition readyz :: "(not_ready \<Rightarrow> string) \<Rightarrow> (unit \<Rightarrow> not_ready option) option \<Rightarrow> http_answer" where
  "readyz reason health = (case health of
      None \<Rightarrow> (200, ''ok'' @ [CHR 0x0A])
    | Some check \<Rightarrow> (case check () of
          Some e \<Rightarrow> (503, ''not ready: '' @ reason e @ [CHR 0x0A])
        | None \<Rightarrow> (200, ''ok'' @ [CHR 0x0A])))"

subsection \<open>The counters agree with what was written\<close>

datatype counter = Written | StaleDocs | Permanent | DeadLettered

fun counterValue :: "counter \<Rightarrow> metrics \<Rightarrow> nat" where
  "counterValue Written m = mx_docsWritten m"
| "counterValue StaleDocs m = mx_docsStale m"
| "counterValue Permanent m = mx_permanent m"
| "counterValue DeadLettered m = mx_deadLettered m"

fun obsCount :: "counter \<Rightarrow> observation \<Rightarrow> nat" where
  "obsCount Written (ObsWrite applied stale rejected elapsed failed) = applied"
| "obsCount StaleDocs (ObsWrite applied stale rejected elapsed failed) = stale"
| "obsCount Permanent (ObsWrite applied stale rejected elapsed failed) = rejected"
| "obsCount DeadLettered (ObsDeadLettered n) = n"
| "obsCount _ _ = 0"

fun entryCount :: "counter \<Rightarrow> entry \<Rightarrow> nat" where
  "entryCount Written (Wrote docs res) = res_Applied res"
| "entryCount StaleDocs (Wrote docs res) = res_Stale res"
| "entryCount Permanent (Wrote docs res) = length (res_Rejected res)"
| "entryCount DeadLettered (Recorded rejections) = length rejections"
| "entryCount _ _ = 0"

lemma counterValue_fold:
  "fold reported obs (Some m) \<noteq> None \<and>
   counterValue c (the (fold reported obs (Some m))) = counterValue c m + sum_list (map (obsCount c) obs)"
proof (induction obs arbitrary: m)
  case (Cons x obs)
  obtain m1 where m1: "reported x (Some m) = Some m1"
    by (cases x) (simp_all add: mx_Event_def mx_Lag_def mx_Batch_def mx_Write_def mx_DeadLettered_def)
  have "counterValue c m1 = counterValue c m + obsCount c x"
    using m1 by (cases x; cases c)
      (auto simp: mx_Event_def mx_Lag_def mx_Batch_def mx_Write_def mx_DeadLettered_def Let_def split: if_splits)
  with Cons.IH [of m1] m1 show ?case by simp
qed simp

lemma counterValue_metricsOf:
  "counterValue c (metricsOf stream r) = sum_list (map (obsCount c) (r_observed r))"
  using counterValue_fold [of "r_observed r" "mx_New stream" c] by (cases c) (simp_all add: metricsOf_def mx_New_def)

definition tallies :: "counter \<Rightarrow> runner \<Rightarrow> entry list \<Rightarrow> bool" where
  "tallies c r l \<longleftrightarrow> sum_list (map (obsCount c) (r_observed r)) = sum_list (map (entryCount c) l)"

abbreviation answered :: "runner_error option \<Rightarrow> bool" where
  "answered e \<equiv> (case e of Some (WriteFailed _ _ _) \<Rightarrow> False | _ \<Rightarrow> True)"

lemma tallies_batcher [simp]: "tallies c (r\<lparr>r_batcher := b\<rparr>) l = tallies c r l"
  by (simp add: tallies_def)

lemma tallies_notePosition [simp]: "tallies c (notePosition ev r) l = tallies c r l"
  by (simp add: tallies_def notePosition_def Let_def)

lemma tallies_other:
  "entryCount c x = 0 \<Longrightarrow> tallies c r (l @ [x]) = tallies c r l"
  "obsCount c y = 0 \<Longrightarrow> tallies c (observe y r) l = tallies c r l"
  by (simp_all add: tallies_def observe_def)

lemma tallies_both: "obsCount c y = entryCount c x \<Longrightarrow> tallies c r l \<Longrightarrow> tallies c (observe y r) (l @ [x])"
  by (simp add: tallies_def observe_def)

lemma deadLetter_tallies:
  assumes "deadLetter (logged d) rejections r (w, l) = (e, r', w', l')" and "tallies c r l"
  shows "tallies c r' l'"
proof -
  have "obsCount c (ObsDeadLettered (length rejections)) = entryCount c (Recorded rejections)" by (cases c) simp_all
  from tallies_both [OF this assms(2)] assms show ?thesis
    by (auto simp: deadLetter_def split: option.splits prod.splits if_splits)
qed

lemma advance_tallies:
  assumes "advance (logged d) r (w, l) = (e, r', w', l')" and "tallies c r l"
  shows "tallies c r' l'"
proof -
  have zero: "entryCount c (Loaded ld) = 0" "entryCount c (Saved cp) = 0" for ld cp by (cases c; simp)+
  have "r' = r" using assms(1) by (auto simp: advance_def split: if_splits prod.splits sum.splits store_error.splits option.splits)
  with advance_logged [OF assms(1)] assms(2) zero show ?thesis by (auto simp: tallies_def)
qed

lemma write_batch_tallies:
  assumes run: "write_batch (logged d) batch r (w, l) = (e, r', w', l')" and before: "tallies c r l" and ok: "answered e"
  shows "tallies c r' l'"
proof -
  obtain t1 w1 where n1: "d_now d w = (t1, w1)" by force
  obtain res err w2 where sk: "d_sink d batch w1 = ((res, err), w2)" by (metis prod.exhaust)
  obtain t2 w3 where n2: "d_now d w2 = (t2, w3)" by force
  define r2 where "r2 = observe (ObsWrite (res_Applied res) (res_Stale res)
    (length (res_Rejected res)) (timeSub t2 t1) (err \<noteq> None)) (observe (ObsBatch (length batch)) r)"
  have err: "err = None" using run n1 sk n2 ok by (cases err) (auto simp: write_batch_def Let_def)
  have t2: "tallies c r2 (l @ [Wrote batch res])" unfolding r2_def
    by (rule tallies_both, cases c) (use before in \<open>simp_all add: tallies_other\<close>)
  show ?thesis
  proof (cases "Total res = length batch")
    case False
    with run n1 sk n2 err t2 show ?thesis by (auto simp: write_batch_def r2_def Let_def)
  next
    case True
    show ?thesis
    proof (cases "res_Rejected res = []")
      case None: True
      with True run n1 sk n2 err have "advance (logged d) r2 (w3, l @ [Wrote batch res]) = (e, r', w', l')"
        by (simp add: write_batch_def r2_def Let_def)
      from advance_tallies [OF this t2] show ?thesis .
    next
      case False
      obtain e3 r3 w4 l4 where dl: "deadLetter (logged d) (res_Rejected res) r2 (w3, l @ [Wrote batch res]) = (e3, r3, w4, l4)"
        by (metis prod_cases4)
      note t3 = deadLetter_tallies [OF dl t2]
      show ?thesis
      proof (cases e3)
        case None
        with False True run n1 sk n2 err dl have "advance (logged d) r3 (w4, l4) = (e, r', w', l')"
          by (simp add: write_batch_def r2_def Let_def)
        from advance_tallies [OF this t3] show ?thesis .
      next
        case (Some x)
        with False True run n1 sk n2 err dl t3 show ?thesis by (simp add: write_batch_def r2_def Let_def)
      qed
    qed
  qed
qed

lemma flush_tallies:
  assumes "flush_runner (logged d) r (w, l) = (e, r', w', l')" and "tallies c r l" and "answered e"
  shows "tallies c r' l'"
proof -
  obtain batch b where f: "Flush (r_batcher r) = (batch, b)" by force
  show ?thesis
  proof (cases "batch = []")
    case True
    with assms f show ?thesis by (auto simp: flush_runner_def)
  next
    case False
    with assms(1) f have "write_batch (logged d) batch (r\<lparr>r_batcher := b\<rparr>) (w, l) = (e, r', w', l')" by (simp add: flush_runner_def)
    from write_batch_tallies [OF this _ assms(3)] assms(2) show ?thesis by simp
  qed
qed

lemma addDocs_tallies:
  "addDocs (logged d) docs r (w, l) = (e, r', w', l') \<Longrightarrow> tallies c r l \<Longrightarrow> answered e \<Longrightarrow> tallies c r' l'"
proof (induction docs arbitrary: r w l)
  case (Cons doc docs)
  obtain now w1 where n: "readClock (logged d) doc (r_batcher r) (w, l) = (now, w1, l)" using readClock_logged by metis
  obtain batch b where a: "Add now doc (r_batcher r) = (batch, b)" by force
  show ?case
  proof (cases "batch = []")
    case True
    with Cons.prems(1) n a have "addDocs (logged d) docs (r\<lparr>r_batcher := b\<rparr>) (w1, l) = (e, r', w', l')" by simp
    from Cons.IH [OF this] Cons.prems(2,3) show ?thesis by simp
  next
    case False
    obtain e2 r2 w2 l2 where wr: "write_batch (logged d) batch (r\<lparr>r_batcher := b\<rparr>) (w1, l) = (e2, r2, w2, l2)"
      by (metis prod_cases4)
    show ?thesis
    proof (cases e2)
      case None
      with Cons.prems(1) n a False wr have rest: "addDocs (logged d) docs r2 (w2, l2) = (e, r', w', l')" by simp
      have "tallies c r2 l2" using write_batch_tallies [OF wr] Cons.prems(2) None by simp
      from Cons.IH [OF rest this Cons.prems(3)] show ?thesis .
    next
      case (Some x)
      with Cons.prems n a False wr write_batch_tallies [OF wr] show ?thesis by simp
    qed
  qed
qed simp

lemma handle_tallies:
  assumes "handle (logged d) ev r (w, l) = (e, r', w', l')" and "tallies c r l" and "answered e"
  shows "tallies c r' l'"
proof (cases "Apply (d_env d) (d_plan d) (Some ev)")
  case (Inl x)
  with assms(1) have "deadLetter (logged d) [transformRejection d ev x] r (w, l) = (e, r', w', l')" by (simp add: handle_def)
  from deadLetter_tallies [OF this assms(2)] show ?thesis .
next
  case (Inr docs)
  have zero: "obsCount c (ObsEvent op) = 0" "obsCount c (ObsLag x) = 0" for op x by (cases c; simp)+
  obtain r1 w1 where o: "observeEvent (logged d) ev r (w, l) = (r1, w1, l)" using observeEvent_logged by metis
  have "tallies c r1 l" using o assms(2) zero
    by (auto simp: observeEvent_def Let_def tallies_other split: if_splits prod.splits)
  with assms Inr o addDocs_tallies [of d docs "notePosition ev r1" w1 l e r' w' l'] show ?thesis by (simp add: handle_def)
qed

lemma Run_tallies:
  "Run (logged d) is r (w, l) = (res, r', w', l') \<Longrightarrow> tallies c r l \<Longrightarrow>
     (case res of Running \<Rightarrow> True | Returned e \<Rightarrow> answered e \<and> e \<noteq> Some ContextDone) \<Longrightarrow> tallies c r' l'"
proof (induction "is" arbitrary: r w l)
  case (Cons i "is")
  obtain t w1 where arm: "armTimer (logged d) r (w, l) = (t, w1, l)" using armTimer_logged by metis
  obtain fe fr fw fl where fl: "flush_runner (logged d) r (w1, l) = (fe, fr, fw, fl)" by (metis prod_cases4)
  show ?case
  proof (cases i)
    case (Recv ev)
    obtain e r2 w2 l2 where h: "handle (logged d) ev r (w1, l) = (e, r2, w2, l2)" by (metis prod_cases4)
    show ?thesis
    proof (cases e)
      case None
      with Cons.prems(1) Recv arm h have rest: "Run (logged d) is r2 (w2, l2) = (res, r', w', l')" by simp
      have "tallies c r2 l2" using handle_tallies [OF h Cons.prems(2)] None by simp
      from Cons.IH [OF rest this Cons.prems(3)] show ?thesis .
    next
      case (Some x)
      with Cons.prems Recv arm h handle_tallies [OF h] show ?thesis by auto
    qed
  next
    case Closed
    with Cons.prems arm fl flush_tallies [OF fl] show ?thesis by auto
  next
    case Tick
    show ?thesis
    proof (cases "t = None")
      case True
      with Cons.prems(1) Tick arm have "Run (logged d) is r (w1, l) = (res, r', w', l')" by simp
      from Cons.IH [OF this Cons.prems(2,3)] show ?thesis .
    next
      case False
      show ?thesis
      proof (cases fe)
        case None
        with Cons.prems(1) Tick arm fl False have rest: "Run (logged d) is fr (fw, fl) = (res, r', w', l')" by simp
        have "tallies c fr fl" using flush_tallies [OF fl Cons.prems(2)] None by simp
        from Cons.IH [OF rest this Cons.prems(3)] show ?thesis .
      next
        case (Some x)
        with Cons.prems Tick arm fl False flush_tallies [OF fl] show ?thesis by auto
      qed
    qed
  next
    case Cancelled
    with Cons.prems arm show ?thesis by auto
  qed
qed simp

text \<open>
  C37: The counters tell what happened.  After a run that was not cancelled and whose writes were all answered, the series of
  the stream agree with what its destination and its dead letter queue acknowledged: the documents counted as written, stale and
  permanently refused are those of the results, and the documents counted as dead-lettered are those recorded.
\<close>

theorem counters_agree:
  assumes "NewRunner stream hasPlan hasSink hasStore lim grace = Inr r" and "Run (logged d) script r (w, []) = (res, r', w', log)"
    and "case res of Running \<Rightarrow> True | Returned e \<Rightarrow> answered e \<and> e \<noteq> Some ContextDone"
  shows "counterValue c (metricsOf stream r') = sum_list (map (entryCount c) log)"
proof -
  have "r_observed r = []" using assms(1) by (auto simp: NewRunner_def split: if_splits sum.splits)
  then have "tallies c r []" by (simp add: tallies_def)
  from Run_tallies [OF assms(2) this assms(3)] show ?thesis by (simp add: tallies_def counterValue_metricsOf)
qed

theorem counters_agree_witness:
  "case Run (logged exampleDeps) [Recv (exampleEvent OperationInsert None (Some (exampleRow 7 ''a'')) 1), Closed]
     exampleRunner (NewMemoryStore, []) of (_, r, _, log) \<Rightarrow>
     mx_docsWritten (metricsOf ''s'' r) = sum_list (map (entryCount Written) log)"
proof -
  let ?script = "[Recv (exampleEvent OperationInsert None (Some (exampleRow 7 ''a'')) 1)]"
  obtain res r w log where run: "Run (logged exampleDeps) (?script @ [Closed]) exampleRunner (NewMemoryStore, []) = (res, r, w, log)"
    by (metis prod_cases4)
  have "\<forall>i \<in> set ?script. i \<noteq> Closed \<and> i \<noteq> Cancelled" by simp
  from Run_closed_healthy [OF exampleRunner_new exampleDeps_healthy this run]
  have "case res of Running \<Rightarrow> True | Returned e \<Rightarrow> answered e \<and> e \<noteq> Some ContextDone" by simp
  from counters_agree [OF exampleRunner_new run this, of Written] run show ?thesis by simp
qed

text \<open>A service whose streams have ended answers the readiness probe with 503, and the liveness probe with 200.\<close>

lemma stopped_service_unready:
  assumes "sup_stream env cfg bs positions schemas w = Some (e, bs1, w1)"
    and "\<forall>b \<in> set bs. bd_runner b \<noteq> None \<and> \<not> ss_streaming (bd_state b)"
  shows "fst (readyz reason (Some (\<lambda>_. ready now (states bs1)))) = 503 \<and> fst healthz = 200"
proof -
  have "ready now (states bs1) \<noteq> None" using sup_stream_stopped [OF assms] by (cases bs1) (auto simp: ready_iff states_def)
  then show ?thesis by (auto simp: readyz_def healthz_def)
qed

text \<open>
  Reports never change whether a stream counts as streaming or why it stopped, and after a report of a lag a stream that is streaming
  without an error is ready for as long as the limit allows.
\<close>

lemma reported_lag_is_ready:
  assumes "ss_streaming (ob_state ob)" and "ss_lastError (ob_state ob) = None" and "timeSub later now \<le> readinessLagLimit"
  shows "ready later [(name, ob_state (observerReport now (ObsLag d) ob))] = None"
  using assms by (simp add: ready_iff observerReport_def state_observed_def Let_def)

end
