(* ===== verification/Pacing.thy ===== *)
theory Pacing
  imports Scanner Checkpoint
begin

text \<open>
  The pacing of a table scan (\<^verbatim>\<open>limiter\<close> of scanner.go), which \<^const>\<open>scanLoop\<close> takes as an argument.  The clock and the timer
  are arguments, and so is the time that a number of rows may take, which the code computes in floats.
\<close>

record limiter =
  lm_rowsPerSec :: int
  lm_last :: time

record 'w pace_env =
  pe_now :: "'w \<Rightarrow> time \<times> 'w"
  pe_timer :: "int \<Rightarrow> 'w \<Rightarrow> bool \<times> 'w"
  pe_want :: "nat \<Rightarrow> int \<Rightarrow> int"

definition newLimiter :: "'w pace_env \<Rightarrow> int \<Rightarrow> 'w \<Rightarrow> limiter \<times> 'w" where
  "newLimiter env rowsPerSec w = (case pe_now env w of (now, w1) \<Rightarrow> (\<lparr>lm_rowsPerSec = rowsPerSec, lm_last = now\<rparr>, w1))"

text \<open>The timer answers whether the context ended before it fired; then the wait reports an error.\<close>

definition limiterWait :: "'w pace_env \<Rightarrow> nat \<Rightarrow> limiter \<Rightarrow> 'w \<Rightarrow> bool \<times> limiter \<times> 'w" where
  "limiterWait env rows l w =
     (if lm_rowsPerSec l \<le> 0 then (False, l, w)
      else
        (let want = pe_want env rows (lm_rowsPerSec l);
             (now1, w1) = pe_now env w;
             elapsed = timeSub now1 (lm_last l);
             (now2, w2) = pe_now env w1;
             l1 = l\<lparr>lm_last := now2\<rparr>
         in if want \<le> elapsed then (False, l1, w2)
            else (case pe_timer env (want - elapsed) w2 of
                (True, w3) \<Rightarrow> (True, l1, w3)
              | (False, w3) \<Rightarrow> (case pe_now env w3 of (now3, w4) \<Rightarrow> (False, l1\<lparr>lm_last := now3\<rparr>, w4)))))"

text \<open>The pacing of a scan, with the limiter beside the rest of the world.\<close>

definition paceWith :: "'w pace_env \<Rightarrow> int \<Rightarrow> nat \<Rightarrow> 'w \<times> limiter \<Rightarrow> bool \<times> 'w \<times> limiter" where
  "paceWith env rowsPerSec rows = (\<lambda>(w, l). case limiterWait env rows l w of (ended, l1, w1) \<Rightarrow> (ended, w1, l1))"

text \<open>
  A clock that does not go back and a timer that does not fire early: a reading is at the time of the world or after it, and
  the world is then at the time that was read; a timer that fired moved the time by its duration at least.
\<close>

definition steadyClock :: "'w pace_env \<Rightarrow> ('w \<Rightarrow> time) \<Rightarrow> bool" where
  "steadyClock env time \<longleftrightarrow>
     (\<forall>w now w'. pe_now env w = (now, w') \<longrightarrow> time w \<le> now \<and> time w' = now) \<and>
     (\<forall>d w ended w'. pe_timer env d w = (ended, w') \<longrightarrow> time w \<le> time w' \<and> (\<not> ended \<longrightarrow> time w + d \<le> time w'))"

text \<open>The sequence of waits of a scan: after each chunk, for its number of rows, until one is cut short.\<close>

fun waits :: "'w pace_env \<Rightarrow> nat list \<Rightarrow> limiter \<Rightarrow> 'w \<Rightarrow> bool \<times> limiter \<times> 'w" where
  "waits env [] l w = (False, l, w)"
| "waits env (rows # chunks) l w = (case limiterWait env rows l w of
      (True, l1, w1) \<Rightarrow> (True, l1, w1)
    | (False, l1, w1) \<Rightarrow> waits env chunks l1 w1)"

text \<open>Differences of times saturate at the ends of a 64-bit duration; within them they are exact.\<close>

lemma timeSub_le: "d \<le> timeSub a b \<Longrightarrow> 0 \<le> d \<Longrightarrow> d < 2 ^ 63 \<Longrightarrow> b + d \<le> a"
  by (auto simp: timeSub_def Let_def split: if_splits)

lemma limiterWait_spaces:
  assumes clock: "steadyClock env time" and rate: "0 < lm_rowsPerSec l" and past: "lm_last l \<le> time w"
    and want: "0 \<le> pe_want env rows (lm_rowsPerSec l)" "pe_want env rows (lm_rowsPerSec l) < 2 ^ 63"
    and run: "limiterWait env rows l w = (False, l', w')"
  shows "lm_last l + pe_want env rows (lm_rowsPerSec l) \<le> lm_last l'" and "lm_last l' \<le> time w'"
    and "lm_rowsPerSec l' = lm_rowsPerSec l"
proof -
  let ?want = "pe_want env rows (lm_rowsPerSec l)"
  obtain now1 w1 where n1: "pe_now env w = (now1, w1)" by force
  obtain now2 w2 where n2: "pe_now env w1 = (now2, w2)" by force
  have t: "time w \<le> now1" "time w1 = now1" "now1 \<le> now2" "time w2 = now2"
    using clock n1 n2 unfolding steadyClock_def by metis+
  have "lm_last l + ?want \<le> lm_last l' \<and> lm_last l' \<le> time w' \<and> lm_rowsPerSec l' = lm_rowsPerSec l"
  proof (cases "?want \<le> timeSub now1 (lm_last l)")
    case True
    with run rate n1 n2 have "l' = l\<lparr>lm_last := now2\<rparr>" "w' = w2" by (simp_all add: limiterWait_def Let_def)
    with timeSub_le [OF True want] t show ?thesis by simp
  next
    case False
    obtain w3 now3 where tm: "pe_timer env (?want - timeSub now1 (lm_last l)) w2 = (False, w3)" and n3: "pe_now env w3 = (now3, w')"
      and l': "l' = l\<lparr>lm_last := now3\<rparr>"
      using run rate n1 n2 False by (auto simp: limiterWait_def Let_def split: prod.splits bool.splits)
    have "now2 + (?want - timeSub now1 (lm_last l)) \<le> time w3" "time w3 \<le> now3" "time w' = now3"
      using clock tm n3 t(4) unfolding steadyClock_def by metis+
    moreover have "timeSub now1 (lm_last l) \<le> now1 - lm_last l"
      using False want past t(1) by (auto simp: timeSub_def Let_def split: if_splits)
    ultimately show ?thesis using t(3) l' by simp
  qed
  then show "lm_last l + ?want \<le> lm_last l'" and "lm_last l' \<le> time w'" and "lm_rowsPerSec l' = lm_rowsPerSec l" by simp_all
qed


definition exampleClock :: "time pace_env" where
  "exampleClock = \<lparr>pe_now = (\<lambda>t. (t, t)), pe_timer = (\<lambda>d t. (False, t + max 0 d)), pe_want = (\<lambda>rows perSec. int rows * 1000000000 div perSec mod 2 ^ 63)\<rparr>"


end
