(* ===== verification/Spec2Isabelle.thy ===== *)
theory Spec2Isabelle
  imports Accepted Commands Telemetry Pacing
begin

text \<open>
  A verification development of changeflow, a service in Go that replicates tables of a MySQL server into
  Elasticsearch or ClickHouse.

  \<^bold>\<open>The program.\<close>  A configuration names a source, a checkpoint store and streams; a stream is a table, a mapping and a
  destination.  A run connects to the source and the store, checks the source, and for every stream takes its lock,
  loads the table's definition, compiles the mapping into a plan and builds the sink, the dead letter queue, the
  version allocator and the runner.  A stream that was not scanned yet is scanned by key, with its rows going through the runner;
  then one reader follows the binary log of the source for all streams from a position that none of them has passed, a router hands
  every change to the queues of the streams on its table, and each stream's runner transforms changes into
  documents, batches them, writes the batches, records what the destination refused, and only then advances the
  recorded position.  Every document carries a version number by which a destination keeps the newest.

  \<^bold>\<open>Theories and sources\<close> (paths under \<^verbatim>\<open>src/internal\<close> unless they begin with \<^verbatim>\<open>cmd\<close>).
  \<^item> \<open>Prelude\<close>, \<open>GoTime\<close>, \<open>GoEncoding\<close>: what the sources use of Go's strings, strconv, time, utf8, hex, base64 and json.
  \<^item> \<open>Schema\<close> (schema/schema.go, typemap.go), \<open>SchemaStore\<close> (store.go), \<open>Generate\<close> (generate.go): table definitions, keys,
    columns and types, their loading and cache, the generated schemas.
  \<^item> \<open>Event\<close> (cdc/event.go, sink/sink.go): events, documents, results, and the contract of a sink as a locale.
  \<^item> \<open>Config\<close>, \<open>Settings\<close> (config/config.go, value.go): the configuration, its defaults and its validation.
  \<^item> \<open>Transform\<close>, \<open>Batcher\<close>, \<open>Runner\<close> (pipeline/transform.go, batcher.go, runner.go): the pipeline of a stream.
  \<^item> \<open>Checkpoint\<close> (checkpoint/checkpoint.go, memory.go, seq.go), \<open>MySQLStore\<close> (mysql.go): positions, version numbers, locks; the
    contract of a store is a locale that both stores satisfy.
  \<^item> \<open>Elasticsearch\<close> (sink/elasticsearch/bulk.go), \<open>IndexAdmin\<close> (alias.go, bulkload.go, validate.go), \<open>ClickHouse\<close>
    (sink/clickhouse/insert.go), \<open>DeadLetters\<close> (sink/dlq/dlq.go): the destinations.
  \<^item> \<open>Scanner\<close>, \<open>Pacing\<close> (source/snapshot/scanner.go), \<open>Streamer\<close> (source/binlog/streamer.go): the sources.
  \<^item> \<open>Preflight\<close> (preflight/preflight.go); \<open>Router\<close> (supervisor/router.go, group.go, the reader of stream.go), \<open>Backfill\<close>
    (snapshot.go), \<open>Supervisor\<close> (supervisor.go, build.go, health.go), \<open>Service\<close> (\<^verbatim>\<open>Run\<close> of supervisor.go, stream.go): the service.
  \<^item> \<open>Accepted\<close>: what acceptance of a configuration promises to the constructors.
  \<^item> \<open>Commands\<close> (cmd/changeflow), \<open>Tail\<close> (tail/tail.go), \<open>Telemetry\<close> (telemetry/metrics.go, the health endpoints of server.go).

  \<^bold>\<open>How the code is modelled.\<close>  Structs are records, enumerations and errors datatypes, a fallible call returns a sum or an option,
  and a function that acts on the outside takes and returns a world.  What is not in the repository is an
  argument: the database, HTTP, the file system, the replication library, the clock, YAML, number formatting.  Where a
  theorem relies on such an argument, its documented behaviour is a predicate (\<open>mysqlTable\<close>, \<open>mysqlLocks\<close>, \<open>aliasServer\<close>,
  \<open>appendOnly\<close>, \<open>steadyClock\<close>, \<open>plainFiles\<close> and others), with an instance in the witness.  64-bit counters, versions and byte sums
  are words and wrap around as in Go; a nil pointer that would be dereferenced is an explicit outcome.

  \<^bold>\<open>What is shown.\<close>
  \<^item> Delivery: the position a runner saves never passes an unsettled document (\<open>Run_never_skips\<close>); every change of a
    stream's table and no other reaches its destination in the order of the log (\<open>changes_reach_sink\<close> below); batches lose and reorder nothing;
    the sinks account for every document of a batch, also through retries, halving and isolation, which terminate.
  \<^item> Content: written documents keep the destination a mirror of the table (\<open>Apply_refines_table\<close>), keys identify rows, bodies are
    JSON, a compiled plan does not panic; the schemas that are checked are those of the fields that are sent.
  \<^item> Positions and versions: versions strictly increase over restarts and failures and in the stream; a change carries the position of
    what was committed before it; the shared start lies behind every stream; a scan is complete, resumes, keeps its rate, and ends before a stream gives a
    position to stream from.
  \<^item> The service: streaming is reached only through the phases before it and with a position per stream; a stream has one owner; however a
    run ends its locks are returned; an accepted configuration builds; a request for a rescan forgets one scan and nothing else; counters agree with what was
    acknowledged; refused documents are on disk; captured fixtures are kept.
  \<^item> Where the code does not do what it means to, a theorem states what it does (for instance \<open>cursor_saved_before_its_row\<close>,
    \<open>advance_loses_reservation\<close>, \<open>shared_versions_below_snapshot\<close>, \<open>watermark_wraps_around\<close>, \<open>refused_sink_panics\<close>, \<open>torn_line_joins_next\<close>).

  \<^bold>\<open>Loops and fuel.\<close>  Loops over data are structural recursion.  A loop that may not end is a partial function in the option monad
  (\<open>scanLoop\<close>, \<open>readLoop\<close>) or runs on a script of what it receives (\<open>Run\<close>, \<open>tailLoop\<close>), and \<open>scan_complete\<close> shows that the scan of a
  finite table returns.  The mutual recursion of the Elasticsearch sink over halves of a batch has the length of the batch as fuel, which
  \<open>es_Write_terminates\<close> shows to be enough; the isolation of ClickHouse has the code's own depth limit.

  \<^bold>\<open>Not modelled.\<close>  The interleaving of goroutines: the tasks of a run follow one another, queues are unbounded, and the points where a
  context ends, a timer fires or a task finishes first are arguments; mutexes are left out.  Logging, the column widths of what commands print, the
  explanatory texts of checks, command-line flags, the registration of Prometheus series and the HTTP server of the metrics are left out, as
  calls into libraries without a decision of the program in them.  The PHP client under \<^verbatim>\<open>sdk/php\<close>, the
  deployment files and the end-to-end tests are not part of the service.
\<close>

text \<open>
  C2: From the log to the destination: every change of a table that a stream watches, and no other, reaches the destination of
  that stream, in the order of the log.  When the reader routed the changes that were read and was not stopped by the end
  of the context, and the runner of the stream received what its queue holds, with its timer going off at whatever points, then
  the runner returns without an error, the documents its destination acknowledged are those of the changes of the
  stream's table, and the changes that could not be transformed are in its dead letter queue.
\<close>

theorem changes_reach_sink:
  assumes "i < length bs"
    and "readerTask done (routerFor (registrations bs)) evs streamErr emptyQueues = (fin, ro, q)"
    and "fin \<noteq> ReaderRouted RouteCancelled"
    and "NewRunner stream hasPlan hasSink hasStore lim grace = Inr r" and "healthy d"
    and "\<forall>x \<in> set script. x \<noteq> Closed \<and> x \<noteq> Cancelled" and "received script = qs_sent q i"
    and "Run (logged d) (script @ [Closed]) r (w, []) = (res, r', w', log)"
  shows "let changes = filter (changeOf (bd_cfg (bs ! i))) evs
         in res = Returned None \<and> Runner.written log = docsOf d changes \<and> allSettled log \<and> failuresRecorded d changes log"
proof -
  have "qs_sent q i = filter (watches (registrations bs) i) evs"
    using readerTask_delivers [OF registrations_distinct _ _ assms(2)] assms(3) by (simp add: emptyQueues_def)
  then have "received script = filter (changeOf (bd_cfg (bs ! i))) evs"
    by (simp add: registrations_watches [OF assms(1)] assms(7))
  with Run_closed_healthy [OF assms(4,5,6,8)] show ?thesis by simp
qed

lemma received_Recv [simp]: "received (map Recv evs) = evs"
  by (induction evs) auto

definition twoStreams :: "(nat, unit) building list" where
  "twoStreams = [newRuntime (exampleStream\<lparr>sm_Table := ''shop.users''\<rparr>), newRuntime exampleStream]"

theorem changes_reach_sink_witness:
  "case readerTask (\<lambda>_. False) (routerFor (registrations twoStreams))
       [exampleChange ''users'' 1, exampleEvent OperationInsert None (Some (exampleRow 7 ''a'')) 2] None emptyQueues of
     (_, _, q) \<Rightarrow>
       fst (Run (logged exampleDeps) (map Recv (qs_sent q 1) @ [Tick] @ [Closed]) exampleRunner (NewMemoryStore, [])) =
         Returned None \<and>
       Runner.written (snd (snd (snd (Run (logged exampleDeps) (map Recv (qs_sent q 1) @ [Tick] @ [Closed]) exampleRunner
         (NewMemoryStore, []))))) = docsOf exampleDeps [exampleEvent OperationInsert None (Some (exampleRow 7 ''a'')) 2]"
proof -
  let ?evs = "[exampleChange ''users'' 1, exampleEvent OperationInsert None (Some (exampleRow 7 ''a'')) 2]"
  obtain fin ro q where run: "readerTask (\<lambda>_. False) (routerFor (registrations twoStreams)) ?evs None emptyQueues = (fin, ro, q)"
    by (rule prod_cases3)
  have fin: "fin \<noteq> ReaderRouted RouteCancelled"
    using readerTask_uncancelled [of "routerFor (registrations twoStreams)" ?evs None emptyQueues] unfolding run by simp
  let ?script = "map Recv (qs_sent q 1) @ [Tick]"
  obtain res r' w' log where r: "Run (logged exampleDeps) (?script @ [Closed]) exampleRunner (NewMemoryStore, []) = (res, r', w', log)"
    by (metis prod_cases4)
  have script: "\<forall>x \<in> set ?script. x \<noteq> Closed \<and> x \<noteq> Cancelled" "received ?script = qs_sent q 1"
    by auto
  have "toLower ''shop.orders'' = ''shop.orders''" "toLower ''shop.users'' = ''shop.users''" by code_simp+
  then have "filter (changeOf (bd_cfg (twoStreams ! 1))) ?evs = [exampleEvent OperationInsert None (Some (exampleRow 7 ''a'')) 2]"
    by (simp add: twoStreams_def newRuntime_def changeOf_def exampleChange_def exampleEvent_def exampleStream_def exampleTable_def Name_def)
  with changes_reach_sink [of 1 twoStreams, OF _ run fin exampleRunner_new exampleDeps_healthy script r] run r
  show ?thesis by (simp add: twoStreams_def Let_def)
qed

end
